(* ===== verification/Weibo_Prelude.thy ===== *)
theory Weibo_Prelude
  imports Main "HOL-Library.Word" "HOL-Library.Multiset" "HOL-Library.AList"
begin

text \<open>
  Shared vocabulary of the development: the types the Go code uses everywhere (byte strings,
  instants, durations), the 64-bit wrap-around of Go's \<open>int64\<close>, Go's truncating division, the
  search for the last separator of a composite key, and Go maps as association lists whose
  iteration order is chosen by the run time. The collections below carry the automation of the
  component theories: \<open>go_arith\<close> for the machine-integer facts, \<open>go_map\<close> for association lists.
\<close>

named_theorems go_arith "machine integers and truncating division"
named_theorems go_map "association lists standing for Go maps"

text \<open>
  A Go \<open>[]byte\<close> and a Go \<open>string\<close> are both byte sequences; a \<open>char\<close> of HOL is one byte, so the
  conversions \<open>string(b)\<close> and \<open>[]byte(s)\<close> of the source are the identity here. A nil slice and an
  empty slice are the same list; the places where the code tells them apart (the accumulator of a
  reduce function) use \<open>option\<close>. A \<open>time.Time\<close> is the exact number of nanoseconds since the Unix
  epoch, unbounded, as Go's pair of seconds and nanoseconds is for every date that occurs; a
  \<open>time.Duration\<close> is a number of nanoseconds.
\<close>

type_synonym bytes = string
type_synonym gotime = int
type_synonym duration = int
type_synonym ('k, 'v) gomap = "('k \<times> 'v) list"

subsection \<open>Go's int64\<close>

definition i64 :: "int \<Rightarrow> int" where
  "i64 x = (x + 2 ^ 63) mod 2 ^ 64 - 2 ^ 63"

definition in_i64 :: "int \<Rightarrow> bool" where
  "in_i64 x \<longleftrightarrow> - (2 ^ 63) \<le> x \<and> x < 2 ^ 63"

lemma i64_in_range [simp]: "in_i64 (i64 x)"
proof -
  have "0 \<le> (x + 2 ^ 63) mod 2 ^ 64" "(x + 2 ^ 63) mod 2 ^ 64 < 2 ^ 64"
    by (simp_all only: pos_mod_sign pos_mod_bound zero_less_power zero_less_numeral)
  then show ?thesis by (simp add: i64_def in_i64_def)
qed

lemma i64_id [go_arith]: "in_i64 x \<Longrightarrow> i64 x = x"
  by (simp add: i64_def in_i64_def)

lemma i64_idem [simp]: "i64 (i64 x) = i64 x"
  by (simp add: i64_id)

text \<open>Reading a 64-bit word as two's complement is the same wrap-around.\<close>

lemma i64_sint: "i64 x = sint (word_of_int x :: 64 word)"
  by (simp add: i64_def sint_word_ariths signed_take_bit_eq_take_bit_shift take_bit_eq_mod
      signed_of_int sint_sbintrunc')

subsection \<open>Truncating division\<close>

definition go_quot :: "int \<Rightarrow> int \<Rightarrow> int" where
  "go_quot a b = sgn a * sgn b * (\<bar>a\<bar> div \<bar>b\<bar>)"

lemma go_quot_nonneg [go_arith]: "0 \<le> a \<Longrightarrow> 0 < b \<Longrightarrow> go_quot a b = a div b"
  by (cases "a = 0") (simp_all add: go_quot_def)

lemma go_quot_neg: "a \<le> 0 \<Longrightarrow> 0 < b \<Longrightarrow> go_quot a b = - ((- a) div b)"
  by (cases "a = 0") (simp_all add: go_quot_def)

lemma go_quot_mult_bounds:
  assumes "0 \<le> a" "0 < b"
  shows "go_quot a b * b \<le> a" "a < go_quot a b * b + b" "0 \<le> go_quot a b * b"
proof -
  have e: "a div b * b + a mod b = a" by simp
  have m: "0 \<le> a mod b" "a mod b < b" using assms by simp_all
  show "go_quot a b * b \<le> a" "a < go_quot a b * b + b"
    unfolding go_quot_nonneg [OF assms] using e m by linarith+
  show "0 \<le> go_quot a b * b"
    using assms by (simp add: go_quot_nonneg pos_imp_zdiv_nonneg_iff)
qed

lemma go_quot_mult_bounds_neg:
  assumes "a \<le> 0" "0 < b"
  shows "a \<le> go_quot a b * b" "go_quot a b * b < a + b" "go_quot a b * b \<le> 0"
proof -
  have e: "(- a) div b * b + (- a) mod b = - a" by (rule div_mult_mod_eq)
  have m: "0 \<le> (- a) mod b" "(- a) mod b < b" using assms by simp_all
  have q: "go_quot a b * b = - ((- a) div b * b)"
    by (simp add: go_quot_neg [OF assms])
  show "a \<le> go_quot a b * b" "go_quot a b * b < a + b"
    unfolding q using e m by linarith+
  have "0 \<le> (- a) div b * b" using assms by (simp add: pos_imp_zdiv_nonneg_iff)
  then show "go_quot a b * b \<le> 0" unfolding q by linarith
qed

subsection \<open>The last occurrence of a separator\<close>

text \<open>\<open>strings.LastIndex\<close> for a one-byte separator; \<open>None\<close> is the source's \<open>-1\<close>.\<close>

fun last_index :: "char \<Rightarrow> string \<Rightarrow> nat option" where
  "last_index c [] = None"
| "last_index c (x # xs) =
     (case last_index c xs of
        Some i \<Rightarrow> Some (Suc i)
      | None \<Rightarrow> (if x = c then Some 0 else None))"

lemma last_index_None [simp]: "last_index c xs = None \<longleftrightarrow> c \<notin> set xs"
  by (induction xs) (auto split: option.splits)

lemma last_index_append:
  "c \<notin> set ys \<Longrightarrow> last_index c (xs @ c # ys) = Some (length xs)"
  by (induction xs) (auto split: option.splits)

lemma last_index_Some_nth:
  "last_index c xs = Some i \<Longrightarrow> i < length xs \<and> xs ! i = c \<and> c \<notin> set (drop (Suc i) xs)"
proof (induction xs arbitrary: i)
  case (Cons x xs)
  show ?case
  proof (cases "last_index c xs")
    case None
    with Cons.prems show ?thesis by (auto split: if_splits)
  next
    case (Some j)
    with Cons show ?thesis by auto
  qed
qed simp

subsection \<open>Go maps\<close>

text \<open>
  A Go map is an association list with distinct keys. A \<open>for k, v := range m\<close> visits the entries
  in an order the run time chooses: definitions that iterate take an argument of the type below, a
  permutation of lists, and theorems hold for every such argument.
\<close>

typedef 'a range_ord = "{f :: 'a list \<Rightarrow> 'a list. \<forall>xs. mset (f xs) = mset xs}"
  morphisms visit Abs_range_ord
  by (rule exI [of _ "\<lambda>xs. xs"]) simp

lemma mset_visit [simp]: "mset (visit ord xs) = mset xs"
  using visit [of ord] by simp

lemma set_visit [simp]: "set (visit ord xs) = set xs"
  by (metis mset_visit set_mset_mset)

lemma distinct_visit [simp]: "distinct (visit ord xs) = distinct xs"
  by (metis mset_visit mset_eq_imp_distinct_iff)

lemma length_visit [simp]: "length (visit ord xs) = length xs"
  by (metis mset_visit mset_eq_length)

lemma distinct_map_visit [simp]: "distinct (map f (visit ord xs)) = distinct (map f xs)"
  by (metis mset_visit mset_map mset_eq_imp_distinct_iff)

lemma visit_Nil [simp]: "visit ord [] = []"
  by (metis length_visit length_0_conv)

definition in_order :: "'a range_ord" where
  "in_order = Abs_range_ord (\<lambda>xs. xs)"

definition reversed :: "'a range_ord" where
  "reversed = Abs_range_ord rev"

lemma visit_in_order [simp]: "visit in_order xs = xs"
  by (simp add: in_order_def Abs_range_ord_inverse)

lemma visit_reversed [simp]: "visit reversed xs = rev xs"
  by (simp add: reversed_def Abs_range_ord_inverse)

abbreviation map_put :: "'k \<Rightarrow> 'v \<Rightarrow> ('k, 'v) gomap \<Rightarrow> ('k, 'v) gomap" where
  "map_put \<equiv> AList.update"

abbreviation map_del :: "'k \<Rightarrow> ('k, 'v) gomap \<Rightarrow> ('k, 'v) gomap" where
  "map_del \<equiv> AList.delete"

abbreviation map_wf :: "('k, 'v) gomap \<Rightarrow> bool" where
  "map_wf m \<equiv> distinct (map fst m)"

lemma map_of_put [go_map, simp]: "map_of (map_put k v m) = (map_of m)(k \<mapsto> v)"
  by (simp add: update_conv')

lemma map_of_del [go_map, simp]: "map_of (map_del k m) = (map_of m)(k := None)"
  by (simp add: delete_conv')

lemma map_wf_put [go_map, simp]: "map_wf m \<Longrightarrow> map_wf (map_put k v m)"
  by (simp add: distinct_update)

lemma map_wf_del [go_map, simp]: "map_wf m \<Longrightarrow> map_wf (map_del k m)"
  by (simp add: distinct_delete)

lemma map_of_eq_None_fst [go_map]: "map_of m k = None \<longleftrightarrow> k \<notin> fst ` set m"
  by (rule map_of_eq_None_iff)

lemma keys_are_dom: "fst ` set m = dom (map_of m)"
  by (rule dom_map_of_conv_image_fst [symmetric])

subsection \<open>Lists and folds\<close>

lemma concat_map_append: "concat (map f (xs @ ys)) = concat (map f xs) @ concat (map f ys)"
  by simp

lemma mset_concat_map: "mset (concat (map f xs)) = sum_list (map (\<lambda>x. mset (f x)) xs)"
  by (induction xs) auto

end
