(* ===== verification/Go_Time.thy ===== *)
theory Go_Time
  imports Weibo_Prelude "HOL-Library.Monad_Syntax"
begin

text \<open>
  The part of Go's package \<open>time\<close> the engine relies on: the zero instant, \<open>UnixNano\<close> with its
  64-bit wrap-around, and the RFC 3339 text form with nanoseconds in which window bounds are
  written into composite state keys. The calendar is the proleptic Gregorian one. The parser is
  the strict RFC 3339 grammar of the library (date, time, optional fraction, \<open>Z\<close> or a numeric
  offset); the lenient spellings its general layout parser also takes (a one-digit hour, a comma
  before the fraction) are left out. The main result is that parsing the printed form of any
  instant of the \<open>int64\<close> range gives the instant back.
\<close>

subsection \<open>Instants\<close>

definition zeroTime :: gotime where
  "zeroTime = - 62135596800000000000"

definition IsZero :: "gotime \<Rightarrow> bool" where
  "IsZero t \<longleftrightarrow> t = zeroTime"

definition UnixNano :: "gotime \<Rightarrow> int" where
  "UnixNano t = i64 t"

definition Unix0 :: "int \<Rightarrow> gotime" where
  "Unix0 ns = ns"

lemma UnixNano_in_i64 [simp]: "in_i64 (UnixNano t)"
  by (simp add: UnixNano_def)

lemma Unix0_UnixNano [go_arith]: "in_i64 t \<Longrightarrow> Unix0 (UnixNano t) = t"
  by (simp add: Unix0_def UnixNano_def go_arith)

text \<open>The zero instant is outside the range, so it does not survive the round trip.\<close>

lemma UnixNano_zeroTime: "UnixNano zeroTime = - 6795364578871345152"
  by (simp add: UnixNano_def zeroTime_def i64_def)

subsection \<open>The calendar\<close>

text \<open>Days before the first of January of year \<open>p + 1\<close>, counted from the first of year 1.\<close>

definition days_before :: "int \<Rightarrow> int" where
  "days_before p = 365 * p + p div 4 - p div 100 + p div 400"

definition year_index :: "int \<Rightarrow> int" where
  "year_index n =
     (let p = (400 * n) div 146097 in if n < days_before (p + 1) then p else p + 1)"

definition leap_year :: "int \<Rightarrow> bool" where
  "leap_year y \<longleftrightarrow> y mod 4 = 0 \<and> (y mod 100 \<noteq> 0 \<or> y mod 400 = 0)"

definition cum_days :: "bool \<Rightarrow> int \<Rightarrow> int" where
  "cum_days l m =
     (if m \<le> 0 then 0 else if m = 1 then 31
      else (if l then 1 else 0) +
       (if m = 2 then 59 else if m = 3 then 90 else if m = 4 then 120 else if m = 5 then 151
        else if m = 6 then 181 else if m = 7 then 212 else if m = 8 then 243
        else if m = 9 then 273 else if m = 10 then 304 else if m = 11 then 334 else 365))"

definition month_index :: "bool \<Rightarrow> int \<Rightarrow> int" where
  "month_index l d =
     (if d < cum_days l 1 then 1 else if d < cum_days l 2 then 2 else if d < cum_days l 3 then 3
      else if d < cum_days l 4 then 4 else if d < cum_days l 5 then 5
      else if d < cum_days l 6 then 6 else if d < cum_days l 7 then 7
      else if d < cum_days l 8 then 8 else if d < cum_days l 9 then 9
      else if d < cum_days l 10 then 10 else if d < cum_days l 11 then 11 else 12)"

definition civil :: "int \<Rightarrow> int \<times> int \<times> int" where
  "civil n =
     (let p = year_index n; doy = n - days_before p; m = month_index (leap_year (p + 1)) doy
      in (p + 1, m, doy - cum_days (leap_year (p + 1)) (m - 1) + 1))"

definition day_number :: "int \<Rightarrow> int \<Rightarrow> int \<Rightarrow> int" where
  "day_number y m d = days_before (y - 1) + cum_days (leap_year y) (m - 1) + d - 1"

definition days_in_month :: "int \<Rightarrow> int \<Rightarrow> int" where
  "days_in_month y m = cum_days (leap_year y) m - cum_days (leap_year y) (m - 1)"

lemma div_sandwich: "0 < (c::int) \<Longrightarrow> c * (a div c) \<le> a \<and> a < c * (a div c) + c"
  by (metis mult.commute mult_div_mod_eq add_le_cancel_left add_less_cancel_left
      pos_mod_sign pos_mod_bound add_0_right)

lemma days_before_bounds:
  "400 * days_before p \<le> 146097 * p + 399"
  "146097 * p \<le> 400 * days_before p + 699"
  using div_sandwich [of 4 p] div_sandwich [of 100 p] div_sandwich [of 400 p]
  by (simp_all add: days_before_def)

lemma div_succ:
  assumes "0 < (c::int)"
  shows "(p + 1) div c = p div c + (if (p + 1) mod c = 0 then 1 else 0)"
proof -
  have m: "0 \<le> p mod c" "p mod c < c" using assms by simp_all
  have e: "p + 1 = c * (p div c) + (p mod c + 1)" by simp
  show ?thesis
  proof (cases "p mod c + 1 = c")
    case True
    then have "p + 1 = c * (p div c + 1)" using e by (simp add: distrib_left)
    then show ?thesis using assms by simp
  next
    case False
    then have "(p + 1) div c = p div c" "(p + 1) mod c = p mod c + 1"
      using m e by (simp_all add: int_div_pos_eq [of _ c _ "p mod c + 1"]
          int_mod_pos_eq [of _ c "p div c"])
    then show ?thesis using m by simp
  qed
qed

lemma leap_count:
  assumes "c \<longrightarrow> b" "b \<longrightarrow> a"
  shows "365 * (p + 1) + (q + (if a then 1 else 0)) - (r + (if b then 1 else 0))
      + (t + (if c then 1 else 0)) =
    365 * p + q - r + t + (if a \<and> (\<not> b \<or> c) then 366 else (365 :: int))"
  using assms by (cases a; cases b; cases c; simp)

lemma mod_eq_0_factor: "(x :: int) mod (c * d) = 0 \<Longrightarrow> x mod d = 0"
  by (metis dvd_eq_mod_eq_0 dvd_mult_right)

lemma days_before_Suc:
  "days_before (p + 1) = days_before p + (if leap_year (p + 1) then 366 else 365)"
proof -
  have d: "(p + 1) div 4 = p div 4 + (if (p + 1) mod 4 = 0 then 1 else 0)"
    "(p + 1) div 100 = p div 100 + (if (p + 1) mod 100 = 0 then 1 else 0)"
    "(p + 1) div 400 = p div 400 + (if (p + 1) mod 400 = 0 then 1 else 0)"
    by (rule div_succ, simp)+
  have "(p + 1) mod 400 = 0 \<longrightarrow> (p + 1) mod 100 = 0"
    using mod_eq_0_factor [of "p + 1" 4 100] unfolding numeral_times_numeral mult_num_simps add_num_simps
    by blast
  moreover have "(p + 1) mod 100 = 0 \<longrightarrow> (p + 1) mod 4 = 0"
    using mod_eq_0_factor [of "p + 1" 25 4] unfolding numeral_times_numeral mult_num_simps add_num_simps
    by blast
  ultimately show ?thesis
    unfolding days_before_def leap_year_def d by (rule leap_count)
qed

lemma year_index_bounds:
  "days_before (year_index n) \<le> n" "n < days_before (year_index n + 1)"
proof -
  define p where "p = (400 * n) div 146097"
  have s: "146097 * p \<le> 400 * n" "400 * n < 146097 * p + 146097"
    using div_sandwich [of 146097 "400 * n"] by (simp_all add: p_def)
  have lo: "days_before p \<le> n" using days_before_bounds(1) [of p] s by linarith
  have hi: "n < days_before (p + 1 + 1)"
    using days_before_bounds(2) [of "p + 1"] days_before_Suc [of "p + 1"] s
    by (simp split: if_splits)
  show "days_before (year_index n) \<le> n" "n < days_before (year_index n + 1)"
    using lo hi by (auto simp: year_index_def p_def [symmetric] Let_def)
qed

lemma month_index_bounds:
  assumes "0 \<le> d" "d < (if l then 366 else 365)"
  shows "1 \<le> month_index l d" "month_index l d \<le> 12"
    "cum_days l (month_index l d - 1) \<le> d" "d < cum_days l (month_index l d)"
  using assms by (cases l; auto simp: month_index_def cum_days_def)+

lemma civil_valid:
  assumes "civil n = (y, m, d)"
  shows "1 \<le> m" "m \<le> 12" "1 \<le> d" "d \<le> days_in_month y m" "day_number y m d = n"
    "y = year_index n + 1"
proof -
  define p where "p = year_index n"
  define l where "l = leap_year (p + 1)"
  define doy where "doy = n - days_before p"
  have eq: "y = p + 1" "m = month_index l doy" "d = doy - cum_days l (m - 1) + 1"
    using assms by (auto simp: civil_def Let_def p_def l_def doy_def)
  have r: "0 \<le> doy" "doy < (if l then 366 else 365)"
    using year_index_bounds [of n] days_before_Suc [of p]
    by (auto simp: doy_def l_def p_def split: if_splits)
  note b = month_index_bounds [OF r]
  show "1 \<le> m" "m \<le> 12" using b eq by simp_all
  show "1 \<le> d" "d \<le> days_in_month y m" using b eq by (simp_all add: days_in_month_def l_def)
  show "day_number y m d = n" using eq by (simp add: day_number_def doy_def l_def)
  show "y = year_index n + 1" using eq by (simp add: p_def)
qed

subsection \<open>Decimal digits\<close>

definition digit :: "int \<Rightarrow> char" where
  "digit n = char_of (48 + nat n)"

definition digit_val :: "char \<Rightarrow> int option" where
  "digit_val c =
     (let v = int (of_char c) - 48 in if 0 \<le> v \<and> v \<le> 9 then Some v else None)"

fun parse_digits :: "int \<Rightarrow> string \<Rightarrow> int option" where
  "parse_digits acc [] = Some acc"
| "parse_digits acc (c # cs) =
     (case digit_val c of None \<Rightarrow> None | Some v \<Rightarrow> parse_digits (10 * acc + v) cs)"

definition parse_uint :: "string \<Rightarrow> int \<Rightarrow> int \<Rightarrow> int option" where
  "parse_uint s lo hi =
     (case parse_digits 0 s of
        None \<Rightarrow> None
      | Some v \<Rightarrow> if lo \<le> v \<and> v \<le> hi then Some v else None)"

definition digits2 :: "int \<Rightarrow> string" where
  "digits2 n = [digit (n div 10 mod 10), digit (n mod 10)]"

definition digits4 :: "int \<Rightarrow> string" where
  "digits4 n = digits2 (n div 100) @ digits2 n"

definition digits9 :: "int \<Rightarrow> string" where
  "digits9 n = [digit (n div 100000000 mod 10)] @ digits4 (n div 10000) @ digits4 n"

lemma digit_val_digit [simp]: "0 \<le> n \<Longrightarrow> n \<le> 9 \<Longrightarrow> digit_val (digit n) = Some n"
  by (simp add: digit_def digit_val_def of_char_of Let_def)

lemma digit_mod [simp]: "digit_val (digit (n mod 10)) = Some (n mod 10)"
  by simp

lemma digit_neq: "0 \<le> n \<Longrightarrow> n \<le> 9 \<Longrightarrow> digit_val c = None \<Longrightarrow> digit n \<noteq> c"
  by auto

lemma length_digits [simp]: "length (digits2 n) = 2" "length (digits4 n) = 4" "length (digits9 n) = 9"
  by (simp_all add: digits2_def digits4_def digits9_def)

definition all_digits :: "string \<Rightarrow> bool" where
  "all_digits s \<longleftrightarrow> list_all (\<lambda>c. digit_val c \<noteq> None) s"

lemma all_digits_out [simp]: "all_digits (digits2 n)" "all_digits (digits4 n)" "all_digits (digits9 n)"
  by (simp_all add: all_digits_def digits2_def digits4_def digits9_def)

lemma parse_digits_digits2:
  assumes "0 \<le> n" "n < 100"
  shows "parse_digits acc (digits2 n @ s) = parse_digits (100 * acc + n) s"
proof -
  have q: "n div 10 mod 10 = n div 10" using assms by simp
  have e: "10 * (n div 10) + n mod 10 = n" by (rule mult_div_mod_eq)
  have lin: "10 * (10 * a + u) + v = 100 * a + (10 * u + v)" for a u v :: int by simp
  have "10 * (10 * acc + n div 10 mod 10) + n mod 10 = 100 * acc + n"
    unfolding q lin e ..
  then show ?thesis
    by (simp only: digits2_def parse_digits.simps append.simps digit_mod option.case)
qed

lemma parse_uint_digits2:
  "0 \<le> n \<Longrightarrow> n < 100 \<Longrightarrow> lo \<le> n \<Longrightarrow> n \<le> hi \<Longrightarrow> parse_uint (digits2 n) lo hi = Some n"
  using parse_digits_digits2 [of n 0 "[]"] by (simp add: parse_uint_def)

lemma mod_div_split:
  assumes "0 < (b::int)" "0 \<le> c"
  shows "n mod (b * c) div b = n div b mod c" "n mod (b * c) mod b = n mod b"
proof -
  have e: "n mod (b * c) = b * (n div b mod c) + n mod b"
    using zmod_zmult2_eq [OF assms(2), of n b] .
  show "n mod (b * c) div b = n div b mod c" using assms by (simp add: e)
  show "n mod (b * c) mod b = n mod b" by (simp add: e)
qed

lemma digits2_mod: "digits2 n = digits2 (n mod 100)"
  using mod_div_split [of 10 10 n] by (simp add: digits2_def)

lemma parse_digits_digits4:
  assumes "0 \<le> n" "n < 10000"
  shows "parse_digits acc (digits4 n @ s) = parse_digits (10000 * acc + n) s"
proof -
  have e: "100 * (n div 100) + n mod 100 = n" by (rule mult_div_mod_eq)
  have lin: "100 * (100 * a + u) + v = 10000 * a + (100 * u + v)" for a u v :: int by simp
  have b: "0 \<le> n div 100" "n div 100 < 100" "0 \<le> n mod 100" "n mod 100 < 100"
    using assms by simp_all
  show ?thesis
    unfolding digits4_def
    by (subst (2) digits2_mod)
      (simp only: parse_digits_digits2 [OF b(1,2)] parse_digits_digits2 [OF b(3,4)] append_assoc lin e)
qed

lemma trans_sym: "a = c \<Longrightarrow> b = c \<Longrightarrow> a = b"
  by simp

lemma digits4_mod: "digits4 n = digits4 (n mod 10000)"
proof -
  have m: "n mod 10000 div 100 = n div 100 mod 100" "n mod 10000 mod 100 = n mod 100"
    using mod_div_split [of 100 100 n] by simp_all
  have "digits2 (n mod 10000 div 100) = digits2 (n div 100)"
    unfolding m by (rule digits2_mod [symmetric])
  moreover have "digits2 (n mod 10000) = digits2 n"
    using digits2_mod [of "n mod 10000"] digits2_mod [of n] unfolding m by (rule trans_sym)
  ultimately show ?thesis by (simp only: digits4_def)
qed

lemma parse_digits_digits9:
  assumes "0 \<le> n" "n < 1000000000"
  shows "parse_digits 0 (digits9 n) = Some n"
proof -
  have a: "n div 100000000 mod 10 = n div 100000000" using assms by simp
  have "n div 100000000 = n div 10000 div 10000" by (simp add: div_mult2_eq [symmetric])
  then have b: "10000 * (n div 100000000) + n div 10000 mod 10000 = n div 10000" by simp
  have c: "10000 * (n div 10000) + n mod 10000 = n" by simp
  have "parse_digits 0 (digits9 n) =
      parse_digits (n div 100000000) (digits4 (n div 10000 mod 10000) @ digits4 (n mod 10000) @ [])"
    using assms by (simp add: digits9_def a digits4_mod [of "n div 10000"] digits4_mod [of n])
  also have "\<dots> = Some n"
    by (simp only: parse_digits_digits4 pos_mod_sign pos_mod_bound zero_less_numeral b c
        parse_digits.simps)
  finally show ?thesis .
qed

lemma parse_uint_digits4:
  "0 \<le> n \<Longrightarrow> n < 10000 \<Longrightarrow> lo \<le> n \<Longrightarrow> n \<le> hi \<Longrightarrow> parse_uint (digits4 n) lo hi = Some n"
  using parse_digits_digits4 [of n 0 "[]"] by (simp add: parse_uint_def)

subsection \<open>RFC 3339 with nanoseconds\<close>

definition trim_zeros :: "string \<Rightarrow> string" where
  "trim_zeros s = rev (dropWhile ((=) (CHR ''0'')) (rev s))"

definition format_frac :: "int \<Rightarrow> string" where
  "format_frac n = (if n = 0 then [] else CHR ''.'' # trim_zeros (digits9 n))"

text \<open>\<open>t.UTC().Format(time.RFC3339Nano)\<close>.\<close>

definition rfc3339 :: "gotime \<Rightarrow> string" where
  "rfc3339 t =
     (let n = t div 86400000000000; ns = t mod 86400000000000; sod = ns div 1000000000;
          ymd = civil (n + 719162)
      in digits4 (fst ymd) @ CHR ''-'' # digits2 (fst (snd ymd)) @ CHR ''-'' #
         digits2 (snd (snd ymd)) @ CHR ''T'' # digits2 (sod div 3600) @ CHR '':'' #
         digits2 (sod div 60 mod 60) @ CHR '':'' # digits2 (sod mod 60) @
         format_frac (ns mod 1000000000) @ ''Z'')"

text \<open>The fraction after the seconds, with what follows it; digits after the ninth are dropped.\<close>

definition parse_frac :: "string \<Rightarrow> int \<times> string" where
  "parse_frac s =
     (case s of
        c # d # r \<Rightarrow>
          (if c = CHR ''.'' \<and> digit_val d \<noteq> None
           then (let ds = takeWhile (\<lambda>c. digit_val c \<noteq> None) (d # r)
                 in (the (parse_digits 0 (take 9 (ds @ replicate 9 (CHR ''0'')))),
                     dropWhile (\<lambda>c. digit_val c \<noteq> None) (d # r)))
           else (0, s))
      | _ \<Rightarrow> (0, s))"

text \<open>The zone after the fraction: \<open>Z\<close>, or a sign, hours and minutes; the result is in seconds.\<close>

definition parse_zone :: "string \<Rightarrow> int option" where
  "parse_zone s =
     (if s = ''Z'' then Some 0
      else if length s = 6 \<and> (s ! 0 = CHR ''-'' \<or> s ! 0 = CHR ''+'') \<and> s ! 3 = CHR '':''
      then (case (parse_uint (take 2 (drop 1 s)) 0 23, parse_uint (drop 4 s) 0 59) of
              (Some h, Some m) \<Rightarrow> Some ((if s ! 0 = CHR ''-'' then -1 else 1) * (h * 3600 + m * 60))
            | _ \<Rightarrow> None)
      else None)"

definition rfc3339_parse :: "string \<Rightarrow> gotime option" where
  "rfc3339_parse s =
     (if length s < 19 then None
      else if s ! 4 = CHR ''-'' \<and> s ! 7 = CHR ''-'' \<and> s ! 10 = CHR ''T'' \<and>
              s ! 13 = CHR '':'' \<and> s ! 16 = CHR '':''
      then do {
        y \<leftarrow> parse_uint (take 4 s) 0 9999;
        mo \<leftarrow> parse_uint (take 2 (drop 5 s)) 1 12;
        d \<leftarrow> parse_uint (take 2 (drop 8 s)) 1 (days_in_month y mo);
        h \<leftarrow> parse_uint (take 2 (drop 11 s)) 0 23;
        mi \<leftarrow> parse_uint (take 2 (drop 14 s)) 0 59;
        sec \<leftarrow> parse_uint (take 2 (drop 17 s)) 0 59;
        let (ns, rest) = parse_frac (drop 19 s);
        z \<leftarrow> parse_zone rest;
        Some (((day_number y mo d - 719162) * 86400 + h * 3600 + mi * 60 + sec - z) * 1000000000 + ns)
      }
      else None)"

lemma takeWhile_append_all: "list_all P xs \<Longrightarrow> \<not> P y \<Longrightarrow> takeWhile P (xs @ y # ys) = xs"
  by (induction xs) auto

lemma dropWhile_append_all: "list_all P xs \<Longrightarrow> \<not> P y \<Longrightarrow> dropWhile P (xs @ y # ys) = y # ys"
  by (induction xs) auto

lemma rev_dropWhile_pad:
  "rev (dropWhile ((=) a) xs) @ replicate (length (takeWhile ((=) a) xs)) a = rev xs"
proof (induction xs)
  case (Cons x xs)
  then show ?case
    by (auto simp: replicate_append_same [symmetric] simp del: replicate_append_same)
qed simp

lemma trim_zeros_pad:
  "length s = 9 \<Longrightarrow> take 9 (trim_zeros s @ replicate 9 (CHR ''0'')) = s"
proof -
  assume len: "length s = 9"
  define k where "k = length (takeWhile ((=) (CHR ''0'')) (rev s))"
  have eq: "trim_zeros s @ replicate k (CHR ''0'') = s"
    unfolding trim_zeros_def k_def by (simp add: rev_dropWhile_pad)
  have "k \<le> 9"
    using len length_takeWhile_le [of "(=) (CHR ''0'')" "rev s"] by (simp add: k_def)
  then have "replicate 9 (CHR ''0'') = replicate k (CHR ''0'') @ replicate (9 - k) (CHR ''0'')"
    by (simp add: replicate_add [symmetric])
  then have "trim_zeros s @ replicate 9 (CHR ''0'') = s @ replicate (9 - k) (CHR ''0'')"
    using eq by (metis append_assoc)
  then show ?thesis using len by simp
qed

lemma set_trim_zeros: "set (trim_zeros s) \<subseteq> set s"
  by (auto simp: trim_zeros_def dest: set_dropWhileD)

lemma all_digits_trim: "all_digits s \<Longrightarrow> all_digits (trim_zeros s)"
  using set_trim_zeros [of s] by (auto simp: all_digits_def list_all_iff)

lemma trim_zeros_Nil: "trim_zeros s = [] \<longleftrightarrow> (\<forall>c\<in>set s. CHR ''0'' = c)"
  by (simp add: trim_zeros_def dropWhile_eq_Nil_conv)

lemma digit_0: "digit 0 = CHR ''0''"
  by code_simp

lemma digit_val_0: "digit_val (CHR ''0'') = Some 0"
  by (simp add: digit_0 [symmetric])

lemma parse_digits_zeros: "(\<forall>c\<in>set s. CHR ''0'' = c) \<Longrightarrow> parse_digits 0 s = Some 0"
proof (induction s)
  case (Cons x s)
  then have "x = CHR ''0''" by simp
  with Cons show ?case by (simp add: digit_val_0)
qed simp

lemma parse_frac_format:
  assumes "0 \<le> n" "n < 1000000000"
  shows "parse_frac (format_frac n @ ''Z'') = (n, ''Z'')"
proof (cases "n = 0")
  case True
  then show ?thesis by (simp add: format_frac_def parse_frac_def)
next
  case False
  define f where "f = trim_zeros (digits9 n)"
  have ad: "list_all (\<lambda>c. digit_val c \<noteq> None) f"
    using all_digits_trim [OF all_digits_out(3) [of n]] unfolding f_def all_digits_def .
  have "f \<noteq> []"
    using False parse_digits_digits9 [OF assms] parse_digits_zeros [of "digits9 n"]
    by (auto simp: f_def trim_zeros_Nil)
  then obtain d r where f: "f = d # r" by (cases f) auto
  have z: "\<not> digit_val (CHR ''Z'') \<noteq> None" by (simp add: digit_val_def)
  have v: "the (parse_digits 0 (take 9 (f @ replicate 9 (CHR ''0'')))) = n"
    unfolding f_def trim_zeros_pad [OF length_digits(3)] parse_digits_digits9 [OF assms] by simp
  have dd: "digit_val d \<noteq> None" using ad by (simp add: f)
  note w = takeWhile_append_all [OF ad z, of "[]", unfolded f append_Cons]
    dropWhile_append_all [OF ad z, of "[]", unfolded f append_Cons]
  have "format_frac n @ ''Z'' = CHR ''.'' # d # r @ ''Z''"
    using False by (simp add: format_frac_def f_def [symmetric] f)
  then show ?thesis
    unfolding parse_frac_def
    by (simp only: list.case dd w v [unfolded f] Let_def if_True simp_thms)
qed

lemma layout_fields:
  fixes Y M D h mi se :: int and rest :: string
  defines "s \<equiv> digits4 Y @ CHR ''-'' # digits2 M @ CHR ''-'' # digits2 D @ CHR ''T'' # digits2 h @
    CHR '':'' # digits2 mi @ CHR '':'' # digits2 se @ rest"
  shows "\<not> length s < 19" "s ! 4 = CHR ''-''" "s ! 7 = CHR ''-''" "s ! 10 = CHR ''T''"
    "s ! 13 = CHR '':''" "s ! 16 = CHR '':''" "take 4 s = digits4 Y"
    "take 2 (drop 5 s) = digits2 M" "take 2 (drop 8 s) = digits2 D" "take 2 (drop 11 s) = digits2 h"
    "take 2 (drop 14 s) = digits2 mi" "take 2 (drop 17 s) = digits2 se" "drop 19 s = rest"
  unfolding s_def by (simp_all add: digits4_def digits2_def numeral_eq_Suc)

lemma clock_split:
  fixes ns :: int
  assumes "0 \<le> ns" "ns < 86400000000000"
  defines "sod \<equiv> ns div 1000000000"
  shows "0 \<le> sod" "sod < 86400" "0 \<le> sod div 3600" "sod div 3600 \<le> 23"
    "0 \<le> sod div 60 mod 60" "sod div 60 mod 60 \<le> 59" "0 \<le> sod mod 60" "sod mod 60 \<le> 59"
    "sod div 3600 * 3600 + sod div 60 mod 60 * 60 + sod mod 60 = sod"
    "sod * 1000000000 + ns mod 1000000000 = ns"
proof -
  show r: "0 \<le> sod" "sod < 86400" using assms(1,2) by (simp_all add: sod_def)
  show "0 \<le> sod div 3600" "sod div 3600 \<le> 23" using r by simp_all
  show "0 \<le> sod div 60 mod 60" "sod div 60 mod 60 \<le> 59" "0 \<le> sod mod 60" "sod mod 60 \<le> 59"
    by simp_all
  have "60 * (sod div 60) + sod mod 60 = sod" by (rule mult_div_mod_eq)
  moreover have "60 * (sod div 60 div 60) + sod div 60 mod 60 = sod div 60" by (rule mult_div_mod_eq)
  moreover have "sod div 60 div 60 = sod div 3600" by (simp add: zdiv_zmult2_eq [symmetric])
  moreover have "a * 3600 + b * 60 + c = d" if "60 * e + c = d" "60 * a + b = e" for a b c d e :: int
    using that by simp
  ultimately show "sod div 3600 * 3600 + sod div 60 mod 60 * 60 + sod mod 60 = sod" by metis
  show "sod * 1000000000 + ns mod 1000000000 = ns" by (simp add: sod_def)
qed

lemma year_index_range:
  assumes "0 \<le> n" "n \<le> 3652058"
  shows "0 \<le> year_index n" "year_index n \<le> 9998"
proof -
  have mono: "146097 * p \<le> 400 * n + 699 + 146097" if "days_before p \<le> n" for p
    using days_before_bounds(2) [of p] that by linarith
  show "0 \<le> year_index n"
  proof (rule ccontr)
    assume "\<not> 0 \<le> year_index n"
    then have "146097 * (year_index n + 1) \<le> 0" by simp
    with days_before_bounds(1) [of "year_index n + 1"] year_index_bounds(2) [of n] assms(1)
    show False by linarith
  qed
  show "year_index n \<le> 9998"
  proof (rule ccontr)
    assume "\<not> year_index n \<le> 9998"
    then have "9999 \<le> year_index n" by simp
    moreover have "days_before (year_index n) \<le> 3652058"
      using year_index_bounds(1) [of n] assms(2) by linarith
    ultimately have "year_index n = 9999" using days_before_bounds(2) [of "year_index n"] by linarith
    with year_index_bounds(1) [of n] assms(2) show False by (simp add: days_before_def)
  qed
qed

text \<open>
  Parsing the printed form of an instant of years 1 to 9999 gives the instant back; the \<open>int64\<close>
  range of nanoseconds lies well inside.
\<close>

lemma rfc3339_roundtrip:
  assumes "- 62135596800000000000 \<le> t" "t < 253402300800000000000"
  shows "rfc3339_parse (rfc3339 t) = Some t"
proof -
  define n where "n = t div 86400000000000"
  define ns where "ns = t mod 86400000000000"
  obtain y mo d where c: "civil (n + 719162) = (y, mo, d)" by (cases "civil (n + 719162)")
  note v = civil_valid [OF c]
  have nr: "0 \<le> n + 719162" "n + 719162 \<le> 3652058"
    using div_sandwich [of 86400000000000 t] assms by (simp_all add: n_def)
  have yr: "0 \<le> y" "y \<le> 9999" using year_index_range [OF nr] v(6) by simp_all
  have dm: "d \<le> 31" using v(4) v(1,2) by (auto simp: days_in_month_def cum_days_def split: if_splits)
  have nsr: "0 \<le> ns" "ns < 86400000000000" by (simp_all add: ns_def)
  note k = clock_split [OF nsr]
  define sod where "sod = ns div 1000000000"
  have tt: "t = n * 86400000000000 + ns" by (simp add: n_def ns_def)
  have lay: "rfc3339 t = digits4 y @ CHR ''-'' # digits2 mo @ CHR ''-'' # digits2 d @ CHR ''T'' #
      digits2 (sod div 3600) @ CHR '':'' # digits2 (sod div 60 mod 60) @ CHR '':'' #
      digits2 (sod mod 60) @ (format_frac (ns mod 1000000000) @ ''Z'')"
    by (simp add: rfc3339_def Let_def n_def [symmetric] ns_def [symmetric] c sod_def)
  have fr: "parse_frac (format_frac (ns mod 1000000000) @ ''Z'') = (ns mod 1000000000, ''Z'')"
    by (rule parse_frac_format) simp_all
  have val: "((day_number y mo d - 719162) * 86400 + sod div 3600 * 3600 + sod div 60 mod 60 * 60
      + sod mod 60 - 0) * 1000000000 + ns mod 1000000000 = t"
    using k(9,10) v(5) by (simp add: sod_def [symmetric] tt algebra_simps)
  have le: "a < 100" if "a \<le> b" "b < 100" for a b :: int using that by simp
  have y4: "y < 10000" using yr by simp
  have u: "parse_uint (digits4 y) 0 9999 = Some y" "parse_uint (digits2 mo) 1 12 = Some mo"
    "parse_uint (digits2 d) 1 (days_in_month y mo) = Some d"
    by (intro parse_uint_digits4 parse_uint_digits2 yr y4 v le [OF v(2)] le [OF dm]
        order_trans [OF zero_le_one v(1)] order_trans [OF zero_le_one v(3)]; simp)+
  have w: "parse_uint (digits2 (sod div 3600)) 0 23 = Some (sod div 3600)"
    "parse_uint (digits2 (sod div 60 mod 60)) 0 59 = Some (sod div 60 mod 60)"
    "parse_uint (digits2 (sod mod 60)) 0 59 = Some (sod mod 60)"
    unfolding sod_def
    by (intro parse_uint_digits2 k(3,5,7) k(4,6,8) le [OF k(4)] le [OF k(6)] le [OF k(8)]; simp only: less_numeral_simps rel_simps)+
  show ?thesis
    unfolding rfc3339_parse_def lay layout_fields u w fr
    by (simp only: layout_fields(1) u parse_zone_def val if_True if_False simp_thms bind.simps Let_def prod.case)
qed

lemma i64_in_calendar: "in_i64 t \<Longrightarrow> rfc3339_parse (rfc3339 t) = Some t"
  by (rule rfc3339_roundtrip) (simp_all add: in_i64_def)

text \<open>The printed form uses digits and five punctuation characters only.\<close>

definition time_char :: "char \<Rightarrow> bool" where
  "time_char c \<longleftrightarrow> digit_val c \<noteq> None \<or> c \<in> set ''-T:.Z''"

lemma time_char_all_digits: "all_digits s \<Longrightarrow> list_all time_char s"
  by (auto simp: all_digits_def time_char_def list_all_iff)

lemma time_char_punct: "list_all time_char ''-T:.Z''"
  by (simp add: time_char_def)

lemma rfc3339_chars: "list_all time_char (rfc3339 t)"
  using time_char_punct
  by (simp add: rfc3339_def Let_def format_frac_def time_char_all_digits all_digits_trim)

lemma rfc3339_no_slash: "CHR ''/'' \<notin> set (rfc3339 t)"
  using rfc3339_chars [of t] by (auto simp: list_all_iff time_char_def digit_val_def)

lemma rfc3339_no_nul: "CHR 0x00 \<notin> set (rfc3339 t)"
  using rfc3339_chars [of t] by (auto simp: list_all_iff time_char_def digit_val_def)

lemma time_char_ascii: "time_char c \<Longrightarrow> of_char c < (128 :: nat)"
  by (auto simp: time_char_def digit_val_def Let_def split: if_splits)

end
