(* ===== verification/Window_Assign.thy ===== *)
theory Window_Assign
  imports Go_Time
begin

text \<open>
  The package \<open>window\<close>: windows, the three assigners behind the \<open>WindowAssigner\<close> interface, the
  alignment of a timestamp to a window start, and \<open>MergeSessions\<close>. A result \<open>None\<close> means that the
  call does not return: \<open>WindowStart\<close> divides by the size, which panics for zero, and the two loops
  of the sliding assigner run forever for a negative slide. The lemmas show that for every positive
  slide both loops end and that they collect exactly the aligned windows containing the timestamp.
\<close>

subsection \<open>Windows and assigners\<close>

record Window =
  Start :: gotime
  End :: gotime

datatype WindowAssigner =
    Tumbling duration duration
  | Sliding duration duration duration
  | Session duration

definition mk_window :: "gotime \<Rightarrow> duration \<Rightarrow> Window" where
  "mk_window st sz = \<lparr> Start = st, End = st + sz \<rparr>"

definition contains :: "Window \<Rightarrow> gotime \<Rightarrow> bool" where
  "contains w t \<longleftrightarrow> Start w \<le> t \<and> t < End w"

lemma mk_window_sel [simp]: "Start (mk_window s z) = s" "End (mk_window s z) = s + z"
  by (simp_all add: mk_window_def)

definition WindowStart :: "gotime \<Rightarrow> duration \<Rightarrow> duration \<Rightarrow> gotime option" where
  "WindowStart ts sz off =
     (let tsUnix = UnixNano ts; aligned = i64 (tsUnix - off)
      in if sz = 0 then None
         else (let start = i64 (i64 (go_quot aligned sz) * sz)
               in Some (Unix0 (i64 (start + off)))))"

definition AssignWindows_Tumbling :: "duration \<Rightarrow> duration \<Rightarrow> gotime \<Rightarrow> Window list option" where
  "AssignWindows_Tumbling sz off ts =
     (case WindowStart ts sz off of
        None \<Rightarrow> None
      | Some start \<Rightarrow> Some [mk_window start sz])"

text \<open>The backward and the forward loop of the sliding assigner.\<close>

partial_function (option) walk_back ::
  "gotime \<Rightarrow> duration \<Rightarrow> duration \<Rightarrow> gotime \<Rightarrow> Window list \<Rightarrow> Window list option" where
  [code]: "walk_back ts sz slide start ws =
     (if ts < start + sz
      then walk_back ts sz slide (start + i64 (- slide))
             (if \<not> ts < start then ws @ [mk_window start sz] else ws)
      else Some ws)"

partial_function (option) walk_forward ::
  "gotime \<Rightarrow> duration \<Rightarrow> duration \<Rightarrow> gotime \<Rightarrow> Window list \<Rightarrow> Window list option" where
  [code]: "walk_forward ts sz slide start ws =
     (if start < ts + sz
      then walk_forward ts sz slide (start + slide)
             (if \<not> ts < start \<and> ts < start + sz then ws @ [mk_window start sz] else ws)
      else Some ws)"

definition AssignWindows_Sliding ::
  "duration \<Rightarrow> duration \<Rightarrow> duration \<Rightarrow> gotime \<Rightarrow> Window list option" where
  "AssignWindows_Sliding sz slide off ts =
     do {
       lastStart \<leftarrow> WindowStart ts slide off;
       back \<leftarrow> walk_back ts sz slide lastStart [];
       ws \<leftarrow> walk_forward ts sz slide (lastStart + slide) back;
       Some (if length ws = 0 then [mk_window lastStart sz] else ws)
     }"

definition AssignWindows_Session :: "duration \<Rightarrow> gotime \<Rightarrow> Window list option" where
  "AssignWindows_Session gap ts = Some [mk_window ts gap]"

fun AssignWindows :: "WindowAssigner \<Rightarrow> gotime \<Rightarrow> Window list option" where
  "AssignWindows (Tumbling sz off) ts = AssignWindows_Tumbling sz off ts"
| "AssignWindows (Sliding sz slide off) ts = AssignWindows_Sliding sz slide off ts"
| "AssignWindows (Session gap) ts = AssignWindows_Session gap ts"

fun WindowSize :: "WindowAssigner \<Rightarrow> duration" where
  "WindowSize (Tumbling sz off) = sz"
| "WindowSize (Sliding sz slide off) = sz"
| "WindowSize (Session gap) = gap"

fun IsSession :: "WindowAssigner \<Rightarrow> bool" where
  "IsSession (Tumbling sz off) = False"
| "IsSession (Sliding sz slide off) = False"
| "IsSession (Session gap) = True"

definition MergeSessions :: "Window \<Rightarrow> Window \<Rightarrow> Window list" where
  "MergeSessions a b =
     (if End a > Start b \<and> Start a < End b
      then (let start = (if Start b < Start a then Start b else Start a);
                end = (if End b > End a then End b else End a)
            in [\<lparr> Start = start, End = end \<rparr>])
      else [a, b])"

subsection \<open>Alignment\<close>

text \<open>
  The timestamps for which no step of the alignment leaves the \<open>int64\<close> range: the instant, the
  offset and their difference are representable.
\<close>

definition representable :: "gotime \<Rightarrow> duration \<Rightarrow> bool" where
  "representable ts off \<longleftrightarrow> in_i64 ts \<and> in_i64 off \<and> in_i64 (ts - off)"

lemma in_i64_between: "in_i64 a \<Longrightarrow> in_i64 b \<Longrightarrow> a \<le> x \<Longrightarrow> x \<le> b \<Longrightarrow> in_i64 x"
  by (simp add: in_i64_def)

lemma go_quot_between:
  assumes "0 < b"
  shows "(0 \<le> go_quot a b * b \<and> go_quot a b * b \<le> a) \<or> (a \<le> go_quot a b * b \<and> go_quot a b * b \<le> 0)"
  using go_quot_mult_bounds [of a b] go_quot_mult_bounds_neg [of a b] assms by linarith

lemma go_quot_between_quot:
  assumes "0 < b"
  shows "(0 \<le> go_quot a b \<and> go_quot a b \<le> a) \<or> (a \<le> go_quot a b \<and> go_quot a b \<le> 0)"
proof -
  define q where "q = go_quot a b"
  have "0 \<le> q \<Longrightarrow> q * 1 \<le> q * b" by (rule mult_left_mono) (use assms in simp_all)
  moreover have "q \<le> 0 \<Longrightarrow> q * b \<le> q * 1" by (rule mult_left_mono_neg) (use assms in simp_all)
  moreover have "0 \<le> q * b \<longleftrightarrow> 0 \<le> q" "q * b \<le> 0 \<longleftrightarrow> q \<le> 0"
    using assms by (simp_all add: zero_le_mult_iff mult_le_0_iff)
  ultimately show ?thesis using go_quot_between [OF assms, of a] by (simp add: q_def) linarith
qed

lemma in_i64_go_quot: "in_i64 a \<Longrightarrow> 0 < b \<Longrightarrow> in_i64 (go_quot a b)"
  using go_quot_between_quot [of b a] by (auto simp: in_i64_def)

lemma WindowStart_eq:
  assumes "representable ts off" "0 < sz"
  shows "WindowStart ts sz off = Some (go_quot (ts - off) sz * sz + off)"
proof -
  define q where "q = go_quot (ts - off) sz"
  have r: "in_i64 ts" "in_i64 off" "in_i64 (ts - off)"
    using assms(1) by (simp_all add: representable_def)
  have b: "(0 \<le> q * sz \<and> q * sz \<le> ts - off) \<or> (ts - off \<le> q * sz \<and> q * sz \<le> 0)"
    unfolding q_def by (rule go_quot_between [OF assms(2)])
  have "in_i64 q" unfolding q_def by (rule in_i64_go_quot [OF r(3) assms(2)])
  moreover have "in_i64 (q * sz)" "in_i64 (q * sz + off)"
    using b r by (auto simp: in_i64_def)
  ultimately show ?thesis
    using assms(2) r by (simp add: WindowStart_def Let_def UnixNano_def Unix0_def i64_id q_def [symmetric])
qed

definition on_grid :: "duration \<Rightarrow> duration \<Rightarrow> gotime \<Rightarrow> bool" where
  "on_grid step off t \<longleftrightarrow> (t - off) mod step = 0"

lemma on_grid_iff: "on_grid step off t \<longleftrightarrow> (\<exists>k. t = off + k * step)"
  by (auto simp: on_grid_def mod_eq_0_iff_dvd dvd_def algebra_simps)

lemma on_grid_shift: "on_grid step off s \<Longrightarrow> on_grid step off t \<longleftrightarrow> (\<exists>k. t = s + k * step)"
  unfolding on_grid_iff by (metis add.assoc add_diff_cancel_left' diff_add_cancel distrib_right)

text \<open>Two grid points less than a step apart are the same.\<close>

lemma on_grid_unique:
  assumes "0 < step" "on_grid step off s" "on_grid step off t" "s \<le> x" "x < s + step" "t \<le> x" "x < t + step"
  shows "s = t"
proof -
  obtain k where k: "t = s + k * step" using assms(2,3) on_grid_shift by blast
  have "k * step < 1 * step" "-1 * step < k * step" using assms(4-7) k by linarith+
  then have "k = 0" using assms(1) by (simp only: mult_less_cancel_right) linarith
  then show ?thesis using k by simp
qed

lemma mk_window_iff: "w = mk_window s z \<longleftrightarrow> Start w = s \<and> End w = Start w + z"
  by (cases w) (auto simp: mk_window_def)

lemma mk_window_grid:
  assumes "on_grid step off s"
  shows "(\<exists>k. w = mk_window (s - k * step) sz) \<longleftrightarrow> on_grid step off (Start w) \<and> End w = Start w + sz"
proof -
  have "(\<exists>k. t = s - k * step) \<longleftrightarrow> (\<exists>k. t = s + k * step)" for t
    by (metis add_uminus_conv_diff minus_mult_left minus_minus)
  then show ?thesis
    unfolding on_grid_shift [OF assms] mk_window_iff by simp
qed

lemma grid_point_below:
  "0 < step \<Longrightarrow> \<exists>t. on_grid step off t \<and> t \<le> ts \<and> ts < t + step"
proof -
  assume "0 < step"
  then have "0 \<le> (ts - off) mod step" "(ts - off) mod step < step" by simp_all
  moreover have "ts - (ts - off) mod step - off = step * ((ts - off) div step)"
    using minus_mod_eq_mult_div [of "ts - off" step] by linarith
  then have "on_grid step off (ts - (ts - off) mod step)"
    by (simp only: on_grid_def mod_mult_self1_is_0)
  ultimately show ?thesis by (intro exI [of _ "ts - (ts - off) mod step"]) simp
qed

subsection \<open>The sliding loops\<close>

lemma nat_measure_less: "0 < c \<Longrightarrow> 0 < (a::int) \<Longrightarrow> nat (a - c) < nat a"
  by simp

lemma shift_down:
  "(\<exists>k\<ge>0. w = mk_window (start - k * slide) sz) \<longleftrightarrow>
    w = mk_window start sz \<or> (\<exists>k\<ge>0. w = mk_window (start - slide - k * slide) sz)"
proof -
  have e: "start - slide - k * slide = start - (k + 1) * slide" for k by (simp add: distrib_right)
  show ?thesis
  proof (intro iffI; elim exE disjE conjE)
    fix k assume k: "0 \<le> k" "w = mk_window (start - k * slide) sz"
    show "w = mk_window start sz \<or> (\<exists>k\<ge>0. w = mk_window (start - slide - k * slide) sz)"
      using k by (cases "k = 0") (auto simp: e intro: exI [of _ "k - 1"])
  next
    assume "w = mk_window start sz"
    then show "\<exists>k\<ge>0. w = mk_window (start - k * slide) sz" by (intro exI [of _ 0]) simp
  next
    fix k assume "0 \<le> k" "w = mk_window (start - slide - k * slide) sz"
    then show "\<exists>k\<ge>0. w = mk_window (start - k * slide) sz"
      by (intro exI [of _ "k + 1"]) (simp add: e)
  qed
qed

text \<open>Whatever the start, the backward loop ends for a positive slide and adds the windows below.\<close>

lemma walk_back_spec:
  assumes "0 < slide" "in_i64 slide"
  shows "\<exists>ws. walk_back ts sz slide start acc = Some (acc @ ws) \<and> distinct ws \<and>
    (\<forall>w. w \<in> set ws \<longleftrightarrow> (\<exists>k\<ge>0. w = mk_window (start - k * slide) sz) \<and> contains w ts)"
proof (induction "nat (start + sz - ts)" arbitrary: start acc rule: less_induct)
  case less
  have neg: "i64 (- slide) = - slide" using assms by (simp add: i64_id in_i64_def)
  show ?case
  proof (cases "ts < start + sz")
    case False
    have "\<not> contains (mk_window (start - k * slide) sz) ts" if "0 \<le> k" for k
    proof -
      have "0 \<le> k * slide" using that assms(1) by simp
      then show ?thesis using False by (simp add: contains_def)
    qed
    then show ?thesis using False by (subst walk_back.simps) auto
  next
    case True
    define here where "here = (if \<not> ts < start then [mk_window start sz] else [])"
    have hw: "w \<in> set here \<longleftrightarrow> w = mk_window start sz \<and> contains w ts" for w
      using True by (auto simp: here_def contains_def)
    have "nat (start - slide + sz - ts) < nat (start + sz - ts)" using True assms by simp
    from less [OF this, of "acc @ here"] obtain ws where
      ws: "walk_back ts sz slide (start - slide) (acc @ here) = Some (acc @ here @ ws)" "distinct ws"
      "\<And>w. w \<in> set ws \<longleftrightarrow> (\<exists>k\<ge>0. w = mk_window (start - slide - k * slide) sz) \<and> contains w ts"
      by auto
    have "walk_back ts sz slide start acc = Some (acc @ here @ ws)"
      using ws(1) True by (subst walk_back.simps) (auto simp: here_def neg)
    moreover have "mk_window start sz \<notin> set ws"
    proof
      assume "mk_window start sz \<in> set ws"
      then obtain k where "0 \<le> k" "mk_window start sz = mk_window (start - slide - k * slide) sz"
        using ws(3) by blast
      moreover from this(1) have "0 \<le> k * slide" using assms(1) by simp
      ultimately show False using assms(1) by (simp add: mk_window_def)
    qed
    moreover have "w \<in> set (here @ ws) \<longleftrightarrow>
        (\<exists>k\<ge>0. w = mk_window (start - k * slide) sz) \<and> contains w ts" for w
      unfolding set_append Un_iff hw [of w] ws(3) [of w] shift_down [of w start slide sz] by blast
    ultimately show ?thesis using ws(2) by (intro exI [of _ "here @ ws"]) (auto simp: here_def)
  qed
qed

lemma walk_forward_spec:
  assumes "0 < slide"
  shows "\<exists>ws. walk_forward ts sz slide start acc = Some (acc @ ws) \<and> distinct ws \<and>
    (\<forall>w. w \<in> set ws \<longleftrightarrow> (\<exists>k\<ge>0. w = mk_window (start - k * (- slide)) sz) \<and> contains w ts)"
proof (induction "nat (ts + sz - start)" arbitrary: start acc rule: less_induct)
  case less
  show ?case
  proof (cases "start < ts + sz")
    case False
    have "\<not> contains (mk_window (start - k * (- slide)) sz) ts" if "0 \<le> k" for k
    proof -
      have "0 \<le> k * slide" using that assms(1) by simp
      then show ?thesis using False by (simp add: contains_def)
    qed
    then show ?thesis using False by (subst walk_forward.simps) auto
  next
    case True
    define here where
      "here = (if \<not> ts < start \<and> ts < start + sz then [mk_window start sz] else [])"
    have hw: "w \<in> set here \<longleftrightarrow> w = mk_window start sz \<and> contains w ts" for w
      by (auto simp: here_def contains_def)
    have "nat (ts + sz - (start + slide)) < nat (ts + sz - start)" using True assms by simp
    from less [OF this, of "acc @ here"] obtain ws where
      ws: "walk_forward ts sz slide (start + slide) (acc @ here) = Some (acc @ here @ ws)" "distinct ws"
      "\<And>w. w \<in> set ws \<longleftrightarrow>
        (\<exists>k\<ge>0. w = mk_window (start - (- slide) - k * (- slide)) sz) \<and> contains w ts"
      by auto
    have "walk_forward ts sz slide start acc = Some (acc @ here @ ws)"
      using ws(1) True by (subst walk_forward.simps) (auto simp: here_def)
    moreover have "mk_window start sz \<notin> set ws"
    proof
      assume "mk_window start sz \<in> set ws"
      then obtain k where "0 \<le> k" "mk_window start sz = mk_window (start - (- slide) - k * (- slide)) sz"
        using ws(3) by blast
      moreover from this(1) have "0 \<le> k * slide" using assms(1) by simp
      ultimately show False using assms(1) by (simp add: mk_window_def)
    qed
    moreover have "w \<in> set (here @ ws) \<longleftrightarrow>
        (\<exists>k\<ge>0. w = mk_window (start - k * (- slide)) sz) \<and> contains w ts" for w
      unfolding set_append Un_iff hw [of w] ws(3) [of w] shift_down [of w start "- slide" sz] by blast
    ultimately show ?thesis using ws(2) by (intro exI [of _ "here @ ws"]) (auto simp: here_def)
  qed
qed

lemma int_split_sign: "(\<exists>k\<ge>0. P (k :: int)) \<or> (\<exists>k\<ge>0. P (- 1 - k)) \<longleftrightarrow> (\<exists>k. P k)"
proof
  assume "\<exists>k. P k"
  then obtain k where k: "P k" ..
  show "(\<exists>k\<ge>0. P k) \<or> (\<exists>k\<ge>0. P (- 1 - k))"
    using k by (cases "0 \<le> k") (auto intro: exI [of _ "- 1 - k"])
qed blast

text \<open>
  Both loops together, from any start: they return, and they collect every window of the grid
  through that start that contains the timestamp, once.
\<close>

lemma sliding_loops:
  assumes "0 < slide" "in_i64 slide"
  obtains bs ws where "walk_back ts sz slide start [] = Some bs"
    "walk_forward ts sz slide (start + slide) bs = Some ws" "distinct ws"
    "\<And>w. w \<in> set ws \<longleftrightarrow> (\<exists>k. w = mk_window (start - k * slide) sz) \<and> contains w ts"
proof -
  obtain b where b: "walk_back ts sz slide start [] = Some b" "distinct b"
    "\<And>w. w \<in> set b \<longleftrightarrow> (\<exists>k\<ge>0. w = mk_window (start - k * slide) sz) \<and> contains w ts"
    using walk_back_spec [OF assms, of ts sz start "[]"] by auto
  obtain f where f: "walk_forward ts sz slide (start + slide) b = Some (b @ f)" "distinct f"
    "\<And>w. w \<in> set f \<longleftrightarrow> (\<exists>k\<ge>0. w = mk_window (start + slide - k * (- slide)) sz) \<and> contains w ts"
    using walk_forward_spec [OF assms(1), of ts sz "start + slide" b] by auto
  have e: "start + slide - k * (- slide) = start - (- 1 - k) * slide" for k
    by (simp add: algebra_simps)
  have "set b \<inter> set f = {}"
  proof (rule ccontr)
    assume "set b \<inter> set f \<noteq> {}"
    then obtain w i k where "0 \<le> i" "w = mk_window (start - i * slide) sz" "0 \<le> k"
      "w = mk_window (start + slide - k * (- slide)) sz"
      using b(3) f(3) by blast
    moreover from this have "0 \<le> i * slide" "0 \<le> k * slide" using assms(1) by simp_all
    ultimately show False using assms(1) by (simp add: mk_window_def)
  qed
  moreover have "w \<in> set (b @ f) \<longleftrightarrow> (\<exists>k. w = mk_window (start - k * slide) sz) \<and> contains w ts" for w
    unfolding set_append Un_iff b(3) [of w] f(3) [of w] e
      int_split_sign [of "\<lambda>k. w = mk_window (start - k * slide) sz", symmetric] by blast
  ultimately show ?thesis using that [OF b(1) f(1)] b(2) f(2) by simp
qed

subsection \<open>Properties of the assigners\<close>

text \<open>
  C24. For an instant not before the alignment offset, a tumbling assigner of positive size yields
  exactly one window. The window starts on the grid \<open>offset + k * size\<close>, has that size and contains
  the timestamp, and no other window of the grid does.
\<close>

theorem tumbling_window_unique:
  assumes "representable ts off" "0 \<le> ts - off" "0 < sz"
  shows "\<exists>w. AssignWindows (Tumbling sz off) ts = Some [w] \<and> contains w ts \<and>
    on_grid sz off (Start w) \<and> End w = Start w + sz \<and>
    (\<forall>s. on_grid sz off s \<and> contains (mk_window s sz) ts \<longrightarrow> mk_window s sz = w)"
proof -
  define s where "s = go_quot (ts - off) sz * sz + off"
  have eq: "AssignWindows (Tumbling sz off) ts = Some [mk_window s sz]"
    by (simp add: AssignWindows_Tumbling_def WindowStart_eq [OF assms(1,3)] s_def)
  have g: "on_grid sz off s" by (auto simp: on_grid_def s_def)
  have c: "s \<le> ts" "ts < s + sz"
    using go_quot_mult_bounds [OF assms(2,3)] by (simp_all add: s_def)
  have u: "mk_window u sz = mk_window s sz" if "on_grid sz off u" "contains (mk_window u sz) ts" for u
    using on_grid_unique [OF assms(3) that(1) g _ _ c] that(2) by (simp add: contains_def)
  have "contains (mk_window s sz) ts" using c by (simp add: contains_def)
  then have "contains (mk_window s sz) ts \<and> on_grid sz off (Start (mk_window s sz)) \<and>
      End (mk_window s sz) = Start (mk_window s sz) + sz"
    using g by simp
  with eq u show ?thesis by blast
qed

theorem tumbling_window_unique_witness:
  "\<exists>w. AssignWindows (Tumbling 300 60) 1000 = Some [w] \<and> contains w 1000 \<and> on_grid 300 60 (Start w) \<and>
    End w = Start w + 300 \<and>
    (\<forall>s. on_grid 300 60 s \<and> contains (mk_window s 300) 1000 \<longrightarrow> mk_window s 300 = w)"
  by (rule tumbling_window_unique) (simp_all add: representable_def in_i64_def)



text \<open>
  C26. The truncating division of \<open>WindowStart\<close> rounds towards zero: for an instant before the
  alignment offset that is not itself on the grid, the one window a tumbling assigner yields starts
  after the timestamp, so the record is filed in a window that does not contain it.
\<close>

theorem tumbling_before_offset_misfiled:
  assumes "representable ts off" "ts - off < 0" "0 < sz" "\<not> on_grid sz off ts"
  shows "\<exists>w. AssignWindows (Tumbling sz off) ts = Some [w] \<and> ts < Start w \<and> \<not> contains w ts"
proof -
  define s where "s = go_quot (ts - off) sz * sz + off"
  have eq: "AssignWindows (Tumbling sz off) ts = Some [mk_window s sz]"
    by (simp add: AssignWindows_Tumbling_def WindowStart_eq [OF assms(1,3)] s_def)
  have "on_grid sz off s" by (auto simp: on_grid_def s_def)
  then have "s \<noteq> ts" using assms(4) by auto
  moreover have "ts \<le> s"
    using go_quot_mult_bounds_neg [of "ts - off" sz] assms(2,3) by (simp add: s_def)
  ultimately show ?thesis using eq by (auto simp: contains_def)
qed

theorem tumbling_before_offset_misfiled_witness:
  "\<exists>w. AssignWindows (Tumbling 300 0) (- 1) = Some [w] \<and> - 1 < Start w \<and> \<not> contains w (- 1)"
  by (rule tumbling_before_offset_misfiled) (simp_all add: representable_def in_i64_def on_grid_def)

end
