(* ===== verification/Stream_Record.thy ===== *)
theory Stream_Record
  imports Go_Time "HOL-Library.List_Lexorder" "HOL-Library.Char_ord"
begin

text \<open>
  \<open>types/record.go\<close>: the record that flows through a pipeline and its constructors, with the part
  of \<open>encoding/json\<close> that decides what survives a snapshot: object keys are written in sorted
  order, every byte that is not part of a valid UTF-8 sequence replaced by U+FFFD, and reading the
  object back into a Go map keeps the last of two equal keys.
\<close>

subsection \<open>Dynamically typed values\<close>

text \<open>
  A value of type \<open>any\<close> as the JSON decoder with \<open>UseNumber\<close> produces it; \<open>VOther\<close> stands for a
  value of some type of the user's program, which the engine only passes on.
\<close>

datatype any =
    VNil
  | VBool bool
  | VNumber string
  | VString bytes
  | VArray "any list"
  | VObject "(bytes \<times> any) list"
  | VOther nat

subsection \<open>Records\<close>

record Record =
  Key :: bytes
  Value :: bytes
  Timestamp :: gotime
  Offset :: int
  Partition :: int
  Headers :: "(bytes, bytes) gomap"
  Parsed :: any
  IsWatermark :: bool
  IsBarrier :: bool
  CheckpointID :: bytes

text \<open>The zero value of the struct; a composite literal sets some fields of it.\<close>

definition zeroRecord :: Record where
  "zeroRecord = \<lparr> Key = [], Value = [], Timestamp = zeroTime, Offset = 0, Partition = 0,
     Headers = [], Parsed = VNil, IsWatermark = False, IsBarrier = False, CheckpointID = [] \<rparr>"

definition NewRecord :: "gotime \<Rightarrow> bytes \<Rightarrow> bytes \<Rightarrow> Record" where
  "NewRecord now k v = zeroRecord\<lparr> Key := k, Value := v, Timestamp := now \<rparr>"

definition NewWatermark :: "gotime \<Rightarrow> Record" where
  "NewWatermark ts = zeroRecord\<lparr> Timestamp := ts, IsWatermark := True \<rparr>"

definition NewBarrier :: "bytes \<Rightarrow> Record" where
  "NewBarrier checkpointID = zeroRecord\<lparr> CheckpointID := checkpointID, IsBarrier := True \<rparr>"

definition WithTimestamp :: "gotime \<Rightarrow> Record \<Rightarrow> Record" where
  "WithTimestamp t r = r\<lparr> Timestamp := t \<rparr>"

definition WithOffset :: "int \<Rightarrow> Record \<Rightarrow> Record" where
  "WithOffset off r = r\<lparr> Offset := off \<rparr>"

definition WithHeader :: "bytes \<Rightarrow> bytes \<Rightarrow> Record \<Rightarrow> Record" where
  "WithHeader k v r = r\<lparr> Headers := map_put k v (Headers r) \<rparr>"

text \<open>A record that is neither a watermark nor a barrier.\<close>

definition is_data :: "Record \<Rightarrow> bool" where
  "is_data r \<longleftrightarrow> \<not> IsWatermark r \<and> \<not> IsBarrier r"

lemma record_kinds:
  "is_data (NewRecord now k v)" "\<not> is_data (NewWatermark ts)" "\<not> is_data (NewBarrier c)"
  "IsWatermark (NewWatermark ts)" "IsBarrier (NewBarrier c)" "\<not> IsBarrier (NewWatermark ts)"
  by (simp_all add: is_data_def NewRecord_def NewWatermark_def NewBarrier_def zeroRecord_def)

lemma WithHeader_lookup [simp]:
  "map_of (Headers (WithHeader k v r)) = (map_of (Headers r))(k \<mapsto> v)"
  by (simp add: WithHeader_def)

lemma WithHeader_fields [simp]:
  "Key (WithHeader k v r) = Key r" "Value (WithHeader k v r) = Value r"
  "is_data (WithHeader k v r) = is_data r"
  by (simp_all add: WithHeader_def is_data_def)

subsection \<open>UTF-8 as encoding/json sees it\<close>

definition byte_in :: "nat \<Rightarrow> nat \<Rightarrow> string \<Rightarrow> nat \<Rightarrow> bool" where
  "byte_in lo hi s i \<longleftrightarrow> i < length s \<and> lo \<le> of_char (s ! i) \<and> of_char (s ! i) \<le> hi"

definition is_rune2 :: "string \<Rightarrow> bool" where
  "is_rune2 s \<longleftrightarrow> byte_in 194 223 s 0 \<and> byte_in 128 191 s 1"

definition is_rune3 :: "string \<Rightarrow> bool" where
  "is_rune3 s \<longleftrightarrow>
     (byte_in 224 224 s 0 \<and> byte_in 160 191 s 1 \<or> byte_in 225 236 s 0 \<and> byte_in 128 191 s 1 \<or>
      byte_in 237 237 s 0 \<and> byte_in 128 159 s 1 \<or> byte_in 238 239 s 0 \<and> byte_in 128 191 s 1) \<and>
     byte_in 128 191 s 2"

definition is_rune4 :: "string \<Rightarrow> bool" where
  "is_rune4 s \<longleftrightarrow>
     (byte_in 240 240 s 0 \<and> byte_in 144 191 s 1 \<or> byte_in 241 243 s 0 \<and> byte_in 128 191 s 1 \<or>
      byte_in 244 244 s 0 \<and> byte_in 128 143 s 1) \<and> byte_in 128 191 s 2 \<and> byte_in 128 191 s 3"

text \<open>Length of the well-formed sequence at the front of \<open>s\<close>, zero when there is none.\<close>

definition rune_len :: "string \<Rightarrow> nat" where
  "rune_len s =
     (if byte_in 0 127 s 0 then 1 else if is_rune2 s then 2 else if is_rune3 s then 3
      else if is_rune4 s then 4 else 0)"

definition replacement_char :: string where
  "replacement_char = [CHR 0xEF, CHR 0xBF, CHR 0xBD]"

function utf8_coerce :: "string \<Rightarrow> string" where
  "utf8_coerce s =
     (if s = [] then []
      else if rune_len s = 0 then replacement_char @ utf8_coerce (drop 1 s)
      else take (rune_len s) s @ utf8_coerce (drop (rune_len s) s))"
  by pat_completeness auto
termination by (relation "measure length") auto

declare utf8_coerce.simps [simp del]

function valid_utf8 :: "string \<Rightarrow> bool" where
  "valid_utf8 s =
     (if s = [] then True
      else if rune_len s = 0 then False
      else valid_utf8 (drop (rune_len s) s))"
  by pat_completeness auto
termination by (relation "measure length") auto

declare valid_utf8.simps [simp del]

lemma utf8_Nil [simp]: "utf8_coerce [] = []" "valid_utf8 []"
  by (simp_all add: utf8_coerce.simps valid_utf8.simps)

lemma utf8_coerce_valid: "valid_utf8 s \<Longrightarrow> utf8_coerce s = s"
proof (induction s rule: valid_utf8.induct)
  case (1 s)
  then show ?case
    by (cases "s = []") (auto simp: utf8_coerce.simps [of s] valid_utf8.simps [of s] split: if_splits)
qed

lemma byte_in_append: "i < length s \<Longrightarrow> byte_in lo hi (s @ t) i = byte_in lo hi s i"
  by (simp add: byte_in_def nth_append)

lemma is_rune_length:
  "byte_in lo hi s 0 \<Longrightarrow> 1 \<le> length s" "is_rune2 s \<Longrightarrow> 2 \<le> length s"
  "is_rune3 s \<Longrightarrow> 3 \<le> length s" "is_rune4 s \<Longrightarrow> 4 \<le> length s"
  by (simp_all add: is_rune2_def is_rune3_def is_rune4_def byte_in_def Suc_le_eq)

lemma is_rune_append:
  "2 \<le> length s \<Longrightarrow> is_rune2 (s @ t) = is_rune2 s"
  "3 \<le> length s \<Longrightarrow> is_rune3 (s @ t) = is_rune3 s"
  "4 \<le> length s \<Longrightarrow> is_rune4 (s @ t) = is_rune4 s"
  by (simp_all add: is_rune2_def is_rune3_def is_rune4_def byte_in_append del: length_greater_0_conv)

lemma rune_len_le: "rune_len s \<le> length s"
  using is_rune_length(1) [of 0 127 s] is_rune_length(2-) [of s] by (simp add: rune_len_def)

lemma rune_len_append:
  assumes "rune_len s \<noteq> 0"
  shows "rune_len (s @ t) = rune_len s"
proof -
  have b: "byte_in lo hi (s @ t) 0 = byte_in lo hi s 0" for lo hi
    using rune_len_le [of s] assms by (intro byte_in_append) linarith
  consider "byte_in 0 127 s 0" | "\<not> byte_in 0 127 s 0" "is_rune2 s"
    | "\<not> byte_in 0 127 s 0" "\<not> is_rune2 s" "is_rune3 s"
    | "\<not> byte_in 0 127 s 0" "\<not> is_rune2 s" "\<not> is_rune3 s" "is_rune4 s"
    using assms by (auto simp: rune_len_def split: if_splits)
  then show ?thesis
    by cases (use is_rune_length(2-) [of s] in \<open>simp_all add: rune_len_def b is_rune_append\<close>)
qed

lemma valid_utf8_append: "valid_utf8 s \<Longrightarrow> valid_utf8 t \<Longrightarrow> valid_utf8 (s @ t)"
proof (induction s rule: valid_utf8.induct)
  case (1 s)
  show ?case
  proof (cases "s = []")
    case False
    then have "rune_len s \<noteq> 0" "valid_utf8 (drop (rune_len s) s)"
      using "1.prems"(1) by (auto simp: valid_utf8.simps [of s] split: if_splits)
    then show ?thesis
      using False "1.IH" "1.prems"(2) rune_len_le [of s]
      by (simp add: valid_utf8.simps [of "s @ t"] rune_len_append)
  qed (use "1.prems" in simp)
qed

lemma rune_len_ascii: "of_char c < (128 :: nat) \<Longrightarrow> rune_len (c # s) = 1"
  by (simp add: rune_len_def byte_in_def)

lemma valid_utf8_ascii: "list_all (\<lambda>c. of_char c < (128 :: nat)) s \<Longrightarrow> valid_utf8 s"
  by (induction s) (simp_all add: valid_utf8.simps [of "[]"] valid_utf8.simps [of "_ # _"] rune_len_ascii)

subsection \<open>A Go map through JSON and back\<close>

definition json_map :: "(bytes, 'v) gomap \<Rightarrow> (bytes, 'v) gomap" where
  "json_map m = sort_key fst (fold (\<lambda>(k, v) acc. map_put (utf8_coerce k) v acc) (sort_key fst m) [])"

lemma fold_put_append_map_of:
  "map_of (fold (\<lambda>(k, v) acc. map_put k v acc) xs m) = map_of m ++ map_of (rev xs)"
  by (induction xs arbitrary: m) (auto simp: map_add_def fun_eq_iff split: option.splits)

lemma fold_put_wf: "map_wf m \<Longrightarrow> map_wf (fold (\<lambda>(k, v) acc. map_put k v acc) xs m)"
  by (induction xs arbitrary: m) auto

lemma map_of_mset_eq:
  assumes "map_wf xs" "mset xs = mset ys"
  shows "map_of xs = map_of ys"
proof -
  have "mset (map fst ys) = mset (map fst xs)" using assms(2) by simp
  then have "map_wf ys" using assms(1) by (metis mset_eq_imp_distinct_iff)
  moreover have "set xs = set ys" using assms(2) by (metis set_mset_mset)
  ultimately show ?thesis using assms(1) by (metis map_of_inject_set)
qed

text \<open>Maps whose keys are valid UTF-8 come back unchanged.\<close>

lemma map_wf_sort_key [simp]: "map_wf (sort_key f m) = map_wf m"
  by (metis mset_eq_imp_distinct_iff mset_map mset_sort)

lemma map_of_sort_key: "map_wf m \<Longrightarrow> map_of (sort_key f m) = map_of m"
  by (rule map_of_mset_eq) simp_all

lemma json_map_wf: "map_wf (json_map m)"
proof -
  have "map_wf acc \<Longrightarrow> map_wf (fold (\<lambda>(k, v) acc. map_put (utf8_coerce k) v acc) xs acc)" for xs and acc :: "(bytes, 'a) gomap"
    by (induction xs arbitrary: acc) auto
  then show ?thesis by (simp add: json_map_def)
qed

lemma json_map_valid:
  assumes "map_wf m" "\<forall>k\<in>fst ` set m. valid_utf8 k"
  shows "map_of (json_map m) = map_of m" "map_wf (json_map m)"
proof -
  have eq: "fold (\<lambda>(k, v) acc. map_put (utf8_coerce k) v acc) (sort_key fst m) acc =
      fold (\<lambda>(k, v) acc. map_put k v acc) (sort_key fst m) acc" for acc
    by (rule fold_cong) (use assms(2) in \<open>auto simp: utf8_coerce_valid\<close>)
  have "map_of (rev (sort_key fst m)) = map_of m"
    by (rule map_of_mset_eq [symmetric]) (use assms(1) in simp_all)
  then show "map_of (json_map m) = map_of m"
    by (simp add: json_map_def eq fold_put_append_map_of map_of_sort_key fold_put_wf)
  show "map_wf (json_map m)" by (rule json_map_wf)
qed

text \<open>What JSON produced is not changed by JSON again.\<close>

lemma rune_len_replacement: "rune_len (replacement_char @ s) = 3"
  by (simp add: rune_len_def replacement_char_def byte_in_def is_rune2_def is_rune3_def)

lemma rune_len_take:
  assumes "rune_len s \<noteq> 0"
  shows "rune_len (take (rune_len s) s) = rune_len s"
proof -
  have b: "byte_in lo hi (take n s) i = byte_in lo hi s i" if "i < n" for lo hi n i
    using that by (auto simp: byte_in_def)
  consider "byte_in 0 127 s 0" "rune_len s = 1" | "\<not> byte_in 0 127 s 0" "is_rune2 s" "rune_len s = 2"
    | "\<not> byte_in 0 127 s 0" "\<not> is_rune2 s" "is_rune3 s" "rune_len s = 3"
    | "\<not> byte_in 0 127 s 0" "\<not> is_rune2 s" "\<not> is_rune3 s" "is_rune4 s" "rune_len s = 4"
    using assms by (auto simp: rune_len_def split: if_splits)
  then show ?thesis
    by cases (simp_all add: rune_len_def b is_rune2_def is_rune3_def is_rune4_def)
qed

lemma valid_utf8_coerce [simp]: "valid_utf8 (utf8_coerce s)"
proof (induction s rule: utf8_coerce.induct)
  case (1 s)
  have rune: "valid_utf8 (take (rune_len s) s)" if "rune_len s \<noteq> 0"
    using rune_len_take [OF that] by (simp add: valid_utf8.simps [of "take (rune_len s) s"])
  have repl: "valid_utf8 replacement_char"
    using rune_len_replacement [of "[]"] by (simp add: valid_utf8.simps [of replacement_char]) (simp add: replacement_char_def)
  show ?case
    using 1 rune repl by (subst utf8_coerce.simps) (auto intro!: valid_utf8_append)
qed

lemma json_map_keys: "k \<in> fst ` set (json_map m) \<Longrightarrow> valid_utf8 k"
proof -
  have "\<forall>k\<in>fst ` set acc. valid_utf8 k \<Longrightarrow>
    \<forall>k\<in>fst ` set (fold (\<lambda>(k, v) acc. map_put (utf8_coerce k) v acc) xs acc). valid_utf8 k" for xs and acc :: "(bytes, 'a) gomap"
  proof (induction xs arbitrary: acc)
    case (Cons x xs)
    obtain k v where x: "x = (k, v)" by (cases x)
    have "\<forall>k\<in>fst ` set (map_put (utf8_coerce k) v acc). valid_utf8 k"
      using Cons.prems by (auto simp: dom_update)
    then show ?case using Cons.IH by (simp add: x)
  qed simp
  from this [of "[]" "sort_key fst m"]
  show "k \<in> fst ` set (json_map m) \<Longrightarrow> valid_utf8 k" by (auto simp: json_map_def)
qed

lemma fold_put_fresh:
  "map_wf (m @ xs) \<Longrightarrow> fold (\<lambda>(k, v) acc. map_put k v acc) xs m = m @ xs"
proof (induction xs arbitrary: m)
  case (Cons x xs)
  have "fst x \<notin> fst ` set m" using Cons.prems by auto
  then have "map_put (fst x) (snd x) m = m @ [x]" by (induction m) auto
  then show ?case using Cons.IH [of "m @ [x]"] Cons.prems by (simp add: case_prod_beta)
qed simp

lemma json_map_id:
  assumes "map_wf m" "sorted (map fst m)" "\<forall>k\<in>fst ` set m. valid_utf8 k"
  shows "json_map m = m"
proof -
  have "sort_key fst m = m" using assms(2) by (rule sort_key_id_if_sorted)
  moreover have "fold (\<lambda>(k, v) acc. map_put (utf8_coerce k) v acc) m acc =
      fold (\<lambda>(k, v) acc. map_put k v acc) m acc" for acc
    by (rule fold_cong) (use assms(3) in \<open>auto simp: utf8_coerce_valid\<close>)
  moreover have "fold (\<lambda>(k, v) acc. map_put k v acc) m [] = m"
    using fold_put_fresh [of "[]" m] assms(1) by simp
  ultimately show ?thesis by (simp add: json_map_def)
qed

lemma json_map_idem: "json_map (json_map m) = json_map m"
proof (rule json_map_id)
  show "sorted (map fst (json_map m))" by (simp add: json_map_def)
qed (use json_map_wf json_map_keys in blast)+

end
