(* ===== verification/Operators.thy ===== *)
theory Operators
  imports Stream_Record
begin

text \<open>
  The stateless operators of the package \<open>operator\<close> (\<open>map.go\<close>, \<open>filter.go\<close>, \<open>flatmap.go\<close>,
  \<open>process.go\<close>) in both of their forms, one record at a time (\<open>ProcessOne\<close>) and as a loop over a
  channel (\<open>Process\<close>), and the \<open>KeyBy\<close> router of \<open>keyby.go\<close>. A channel that is read to its end is
  the list of its records. The user's functions are parameters. A result \<open>None\<close> is a panic, which
  only a \<open>Process\<close> operator with the policy \<open>ProcFailureFail\<close> raises.
\<close>

subsection \<open>Operators\<close>

datatype ProcFailurePolicy = ProcFailureDrop | ProcFailureDLQ | ProcFailureFail

text \<open>The user function returns an error text or a record; the queue, when set, may refuse a write.\<close>

record ProcessOperator =
  ProcFn :: "Record \<Rightarrow> bytes + Record"
  FailurePolicy :: ProcFailurePolicy
  DLQ :: "(Record \<Rightarrow> bool) option"

datatype StatelessOp =
    MapOperator "Record \<Rightarrow> Record"
  | FilterOperator "Record \<Rightarrow> bool"
  | FlatMapOperator "Record \<Rightarrow> Record list"
  | ProcessOp ProcessOperator

text \<open>Records handed to the dead-letter queue by a failure; \<open>None\<close> is the panic of \<open>ProcFailureFail\<close>.\<close>

definition handleFailure :: "ProcessOperator \<Rightarrow> Record \<Rightarrow> bytes \<Rightarrow> Record list option" where
  "handleFailure op r err =
     (case FailurePolicy op of
        ProcFailureDrop \<Rightarrow> Some []
      | ProcFailureDLQ \<Rightarrow>
          (case DLQ op of
             None \<Rightarrow> Some []
           | Some accepts \<Rightarrow>
               (let r' = WithHeader ''_error'' err r in Some (if accepts r' then [r'] else [])))
      | ProcFailureFail \<Rightarrow> None)"

text \<open>Output records and dead letters of one call.\<close>

definition ProcessOne_Process :: "ProcessOperator \<Rightarrow> Record \<Rightarrow> (Record list \<times> Record list) option" where
  "ProcessOne_Process op r =
     (case ProcFn op r of
        Inl err \<Rightarrow> (case handleFailure op r err of None \<Rightarrow> None | Some dl \<Rightarrow> Some ([], dl))
      | Inr result \<Rightarrow> Some ([result], []))"

fun ProcessOne :: "StatelessOp \<Rightarrow> Record \<Rightarrow> Record list option" where
  "ProcessOne (MapOperator f) r = Some [f r]"
| "ProcessOne (FilterOperator f) r = (if f r then Some [r] else Some [])"
| "ProcessOne (FlatMapOperator f) r = Some (f r)"
| "ProcessOne (ProcessOp op) r = map_option fst (ProcessOne_Process op r)"

definition is_marker :: "Record \<Rightarrow> bool" where
  "is_marker r \<longleftrightarrow> IsBarrier r \<or> IsWatermark r"

lemma is_data_marker: "is_data r \<longleftrightarrow> \<not> is_marker r"
  by (auto simp: is_data_def is_marker_def)

text \<open>The channel loops of the four operators; markers pass through unchanged.\<close>

fun Process_Map :: "(Record \<Rightarrow> Record) \<Rightarrow> Record list \<Rightarrow> Record list" where
  "Process_Map f [] = []"
| "Process_Map f (r # rs) = (if IsWatermark r \<or> IsBarrier r then r else f r) # Process_Map f rs"

fun Process_Filter :: "(Record \<Rightarrow> bool) \<Rightarrow> Record list \<Rightarrow> Record list" where
  "Process_Filter f [] = []"
| "Process_Filter f (r # rs) =
     (if IsWatermark r \<or> IsBarrier r then r # Process_Filter f rs
      else if f r then r # Process_Filter f rs else Process_Filter f rs)"

fun Process_FlatMap :: "(Record \<Rightarrow> Record list) \<Rightarrow> Record list \<Rightarrow> Record list" where
  "Process_FlatMap f [] = []"
| "Process_FlatMap f (r # rs) =
     (if IsWatermark r \<or> IsBarrier r then r # Process_FlatMap f rs else f r @ Process_FlatMap f rs)"

fun Process_Process :: "ProcessOperator \<Rightarrow> Record list \<Rightarrow> Record list option" where
  "Process_Process op [] = Some []"
| "Process_Process op (r # rs) =
     (if IsWatermark r \<or> IsBarrier r then map_option ((#) r) (Process_Process op rs)
      else (case ProcFn op r of
              Inl err \<Rightarrow> (case handleFailure op r err of
                            None \<Rightarrow> None
                          | Some dl \<Rightarrow> Process_Process op rs)
            | Inr result \<Rightarrow> map_option ((#) result) (Process_Process op rs)))"

fun Process_channel :: "StatelessOp \<Rightarrow> Record list \<Rightarrow> Record list option" where
  "Process_channel (MapOperator f) rs = Some (Process_Map f rs)"
| "Process_channel (FilterOperator f) rs = Some (Process_Filter f rs)"
| "Process_channel (FlatMapOperator f) rs = Some (Process_FlatMap f rs)"
| "Process_channel (ProcessOp op) rs = Process_Process op rs"

subsection \<open>Mapping with failure\<close>

text \<open>Apply a fallible function to each element and concatenate; the first failure is the result.\<close>

fun ocollect :: "('a \<Rightarrow> 'b list option) \<Rightarrow> 'a list \<Rightarrow> 'b list option" where
  "ocollect f [] = Some []"
| "ocollect f (x # xs) = do { ys \<leftarrow> f x; zs \<leftarrow> ocollect f xs; Some (ys @ zs) }"

lemma ocollect_append:
  "ocollect f (xs @ ys) = do { a \<leftarrow> ocollect f xs; b \<leftarrow> ocollect f ys; Some (a @ b) }"
  by (induction xs) (auto split: bind_splits)

lemma ocollect_bind:
  "ocollect f xs \<bind> ocollect g = ocollect (\<lambda>x. f x \<bind> ocollect g) xs"
  by (induction xs) (auto simp: ocollect_append split: bind_splits)

lemma ocollect_single [simp]: "ocollect (\<lambda>x. Some [x]) xs = Some xs"
  by (induction xs) auto

lemma ocollect_one [simp]: "ocollect f [x] = f x"
  by (cases "f x") auto

lemma ocollect_cong: "(\<And>x. x \<in> set xs \<Longrightarrow> f x = g x) \<Longrightarrow> ocollect f xs = ocollect g xs"
  by (induction xs) auto

lemma ocollect_Some_set: "ocollect f xs = Some ys \<Longrightarrow> y \<in> set ys \<Longrightarrow> \<exists>x\<in>set xs. \<exists>zs. f x = Some zs \<and> y \<in> set zs"
  by (induction xs arbitrary: ys) (auto split: bind_splits)

definition through_markers :: "(Record \<Rightarrow> Record list option) \<Rightarrow> Record \<Rightarrow> Record list option" where
  "through_markers f r = (if is_marker r then Some [r] else f r)"

text \<open>The channel loop of an operator is its one-record form applied between the markers.\<close>

lemma Process_channel_ocollect:
  "Process_channel op rs = ocollect (through_markers (ProcessOne op)) rs"
proof (cases op)
  case (MapOperator f)
  have "Some (Process_Map f rs) = ocollect (through_markers (ProcessOne op)) rs"
    by (induction rs) (auto simp: through_markers_def is_marker_def MapOperator split: bind_splits)
  then show ?thesis by (simp add: MapOperator)
next
  case (FilterOperator f)
  have "Some (Process_Filter f rs) = ocollect (through_markers (ProcessOne op)) rs"
    by (induction rs) (auto simp: through_markers_def is_marker_def FilterOperator split: bind_splits)
  then show ?thesis by (simp add: FilterOperator)
next
  case (FlatMapOperator f)
  have "Some (Process_FlatMap f rs) = ocollect (through_markers (ProcessOne op)) rs"
    by (induction rs) (auto simp: through_markers_def is_marker_def FlatMapOperator split: bind_splits)
  then show ?thesis by (simp add: FlatMapOperator)
next
  case (ProcessOp p)
  have "Process_Process p rs = ocollect (through_markers (ProcessOne op)) rs"
    by (induction rs) (auto simp: through_markers_def is_marker_def ProcessOp ProcessOne_Process_def
        map_option_case split: bind_splits sum.splits option.splits)
  then show ?thesis by (simp add: ProcessOp)
qed

subsection \<open>KeyBy\<close>

record KeyByOperator =
  KeySelector :: "Record \<Rightarrow> bytes"
  Partitions :: int

definition KeyBy :: "(Record \<Rightarrow> bytes) \<Rightarrow> KeyByOperator" where
  "KeyBy fn = \<lparr> KeySelector = fn, Partitions = 16 \<rparr>"

definition SelectKey :: "KeyByOperator \<Rightarrow> Record \<Rightarrow> bytes" where
  "SelectKey op r = KeySelector op r"

unbundle bit_operations_syntax

text \<open>FNV-1a on 32-bit words.\<close>

fun fnv1a :: "32 word \<Rightarrow> bytes \<Rightarrow> 32 word" where
  "fnv1a h [] = h"
| "fnv1a h (b # bs) = fnv1a ((h XOR of_char b) * 16777619) bs"

definition RouteKey :: "KeyByOperator \<Rightarrow> bytes \<Rightarrow> int" where
  "RouteKey op key =
     (if length key = 0 \<or> Partitions op \<le> 1 then 0
      else uint (fnv1a 2166136261 key) mod Partitions op)"

definition Route :: "KeyByOperator \<Rightarrow> Record \<Rightarrow> int" where
  "Route op r = RouteKey op (SelectKey op r)"

lemma RouteKey_bounds: "0 < Partitions op \<Longrightarrow> 0 \<le> RouteKey op key \<and> RouteKey op key < Partitions op"
  by (simp add: RouteKey_def)

end
