(* ===== verification/State_Backend.thy ===== *)
theory State_Backend
  imports Stream_Record
begin

text \<open>
  The interfaces of \<open>state/state.go\<close> and the in-memory backend of \<open>state/memory.go\<close>. A handle
  returned by \<open>ValueState\<close> or \<open>ListState\<close> is a namespace with the key last given to \<open>SetKey\<close>; the
  operations of a handle act on the backend behind it. An operator of the engine is written against
  the record of operations below. The locales state what a backend promises through an abstraction
  of its contents (a value or a list for each namespace and key); the in-memory backend is an
  interpretation of both. Entries are of a type parameter, the bytes that are stored.
\<close>

subsection \<open>Handles and operations\<close>

record StateHandle =
  hname :: bytes
  hkey :: bytes

definition SetKey :: "bytes \<Rightarrow> StateHandle \<Rightarrow> StateHandle" where
  "SetKey k h = h\<lparr> hkey := k \<rparr>"

definition new_handle :: "bytes \<Rightarrow> StateHandle" where
  "new_handle name = \<lparr> hname = name, hkey = [] \<rparr>"

definition at_key :: "bytes \<Rightarrow> bytes \<Rightarrow> StateHandle" where
  "at_key name k = \<lparr> hname = name, hkey = k \<rparr>"

lemma handle_simps [simp]:
  "hname (SetKey k h) = hname h" "hkey (SetKey k h) = k" "SetKey k (new_handle n) = at_key n k"
  "SetKey k (at_key n k') = at_key n k" "hname (at_key n k) = n" "hkey (at_key n k) = k"
  "hname (new_handle n) = n" "hkey (new_handle n) = []" "SetKey k (SetKey k' h) = SetKey k h"
  by (simp_all add: SetKey_def new_handle_def at_key_def)

record ('b, 'e) StateBackend =
  ValueState :: "bytes \<Rightarrow> 'b \<Rightarrow> 'b"
  vs_Get :: "StateHandle \<Rightarrow> 'b \<Rightarrow> 'e option"
  vs_Set :: "StateHandle \<Rightarrow> 'e \<Rightarrow> 'b \<Rightarrow> 'b"
  vs_Clear :: "StateHandle \<Rightarrow> 'b \<Rightarrow> 'b"
  vs_Keys :: "StateHandle \<Rightarrow> 'b \<Rightarrow> bytes list"
  vs_SnapshotAll :: "StateHandle \<Rightarrow> 'b \<Rightarrow> (bytes, 'e) gomap"
  vs_RestoreAll :: "StateHandle \<Rightarrow> (bytes, 'e) gomap \<Rightarrow> 'b \<Rightarrow> 'b"
  ListState :: "bytes \<Rightarrow> 'b \<Rightarrow> 'b"
  ls_Append :: "StateHandle \<Rightarrow> 'e \<Rightarrow> 'b \<Rightarrow> 'b"
  ls_GetAll :: "StateHandle \<Rightarrow> 'b \<Rightarrow> 'e list"
  ls_Clear :: "StateHandle \<Rightarrow> 'b \<Rightarrow> 'b"
  ls_Keys :: "StateHandle \<Rightarrow> 'b \<Rightarrow> bytes list"

subsection \<open>What a backend promises\<close>

locale value_state =
  fixes ops :: "('b, 'e) StateBackend"
    and inv :: "'b \<Rightarrow> bool"
    and ok_ns :: "bytes \<Rightarrow> bool"
    and val :: "'b \<Rightarrow> bytes \<Rightarrow> bytes \<Rightarrow> 'e option"
  assumes open_value: "inv b \<Longrightarrow> ok_ns n \<Longrightarrow> inv (ValueState ops n b) \<and> val (ValueState ops n b) = val b"
    and get_value: "inv b \<Longrightarrow> ok_ns (hname h) \<Longrightarrow> vs_Get ops h b = val b (hname h) (hkey h)"
    and set_value: "inv b \<Longrightarrow> ok_ns (hname h) \<Longrightarrow> inv (vs_Set ops h e b) \<and>
      val (vs_Set ops h e b) = (val b)(hname h := (val b (hname h))(hkey h \<mapsto> e))"
    and clear_value: "inv b \<Longrightarrow> ok_ns (hname h) \<Longrightarrow> inv (vs_Clear ops h b) \<and>
      val (vs_Clear ops h b) = (val b)(hname h := (val b (hname h))(hkey h := None))"
    and keys_value: "inv b \<Longrightarrow> ok_ns (hname h) \<Longrightarrow>
      distinct (vs_Keys ops h b) \<and> set (vs_Keys ops h b) = dom (val b (hname h))"
    and snapshot_value: "inv b \<Longrightarrow> ok_ns (hname h) \<Longrightarrow>
      map_wf (vs_SnapshotAll ops h b) \<and> map_of (vs_SnapshotAll ops h b) = val b (hname h)"
    and restore_value: "inv b \<Longrightarrow> ok_ns (hname h) \<Longrightarrow> map_wf m \<Longrightarrow> inv (vs_RestoreAll ops h m b) \<and>
      val (vs_RestoreAll ops h m b) = (val b)(hname h := map_of m)"
begin

text \<open>Clearing a list of keys one after the other.\<close>

lemma clear_keys:
  assumes "inv b" "ok_ns n"
  shows "inv (fold (\<lambda>k. vs_Clear ops (at_key n k)) ks b) \<and>
    val (fold (\<lambda>k. vs_Clear ops (at_key n k)) ks b) =
      (val b)(n := (\<lambda>k. if k \<in> set ks then None else val b n k))"
  using assms(1)
proof (induction ks arbitrary: b)
  case (Cons k ks)
  then show ?case
    using clear_value [of b "at_key n k"] assms(2) by (auto simp: fun_eq_iff)
qed auto

end

locale list_state =
  fixes ops :: "('b, 'e) StateBackend"
    and inv :: "'b \<Rightarrow> bool"
    and ok_ns :: "bytes \<Rightarrow> bool"
    and ok_key :: "bytes \<Rightarrow> bool"
    and room :: "StateHandle \<Rightarrow> 'b \<Rightarrow> bool"
    and lst :: "'b \<Rightarrow> bytes \<Rightarrow> bytes \<Rightarrow> 'e list"
  assumes open_list: "inv b \<Longrightarrow> ok_ns n \<Longrightarrow> inv (ListState ops n b) \<and> lst (ListState ops n b) = lst b"
    and get_list: "inv b \<Longrightarrow> ok_ns (hname h) \<Longrightarrow> ok_key (hkey h) \<Longrightarrow>
      ls_GetAll ops h b = lst b (hname h) (hkey h)"
    and append_list: "inv b \<Longrightarrow> ok_ns (hname h) \<Longrightarrow> ok_key (hkey h) \<Longrightarrow> room h b \<Longrightarrow>
      inv (ls_Append ops h e b) \<and> lst (ls_Append ops h e b) =
        (lst b)(hname h := (lst b (hname h))(hkey h := lst b (hname h) (hkey h) @ [e]))"
    and clear_list: "inv b \<Longrightarrow> ok_ns (hname h) \<Longrightarrow> ok_key (hkey h) \<Longrightarrow> inv (ls_Clear ops h b) \<and>
      lst (ls_Clear ops h b) = (lst b)(hname h := (lst b (hname h))(hkey h := []))"
    and keys_list: "inv b \<Longrightarrow> ok_ns (hname h) \<Longrightarrow>
      distinct (ls_Keys ops h b) \<and> set (ls_Keys ops h b) = {k. lst b (hname h) k \<noteq> []}"

text \<open>A backend whose lists never run out of sequence numbers and take every key.\<close>

locale list_state_total = list_state ops inv ok_ns ok_key room lst
  for ops :: "('b, 'e) StateBackend" and inv ok_ns ok_key room lst +
  assumes has_room: "inv b \<Longrightarrow> room h b"
    and any_key: "ok_key k"
begin

lemma append_entries:
  assumes "inv b" "ok_ns n"
  shows "inv (fold (ls_Append ops (at_key n k)) es b) \<and>
    lst (fold (ls_Append ops (at_key n k)) es b) = (lst b)(n := (lst b n)(k := lst b n k @ es))"
  using assms(1)
proof (induction es arbitrary: b)
  case (Cons e es)
  have a: "inv (ls_Append ops (at_key n k) e b)"
    and l: "lst (ls_Append ops (at_key n k) e b) = (lst b)(n := (lst b n)(k := lst b n k @ [e]))"
    using append_list [of b "at_key n k" e] Cons.prems assms(2) has_room any_key by simp_all
  show ?case using Cons.IH [OF a] by (auto simp: l fun_eq_iff)
qed simp

lemma clear_lists:
  assumes "inv b" "ok_ns n"
  shows "inv (fold (\<lambda>k. ls_Clear ops (at_key n k)) ks b) \<and>
    lst (fold (\<lambda>k. ls_Clear ops (at_key n k)) ks b) =
      (lst b)(n := (\<lambda>k. if k \<in> set ks then [] else lst b n k))"
  using assms(1)
proof (induction ks arbitrary: b)
  case (Cons k ks)
  then show ?case
    using clear_list [of b "at_key n k"] assms(2) any_key by (auto simp: fun_eq_iff)
qed auto

end

subsection \<open>The in-memory backend\<close>

record 'e MemoryBackend =
  mvalue :: "(bytes, (bytes, 'e) gomap) gomap"
  mlist :: "(bytes, (bytes, 'e list) gomap) gomap"

definition NewMemoryBackend :: "'e MemoryBackend" where
  "NewMemoryBackend = \<lparr> mvalue = [], mlist = [] \<rparr>"

text \<open>The map of a namespace; a missing namespace reads as Go's nil map.\<close>

definition submap :: "(bytes, (bytes, 'a) gomap) gomap \<Rightarrow> bytes \<Rightarrow> (bytes, 'a) gomap" where
  "submap m n = (case map_of m n of Some s \<Rightarrow> s | None \<Rightarrow> [])"

definition mem_ValueState :: "bytes \<Rightarrow> 'e MemoryBackend \<Rightarrow> 'e MemoryBackend" where
  "mem_ValueState name m =
     (if map_of (mvalue m) name = None then m\<lparr> mvalue := map_put name [] (mvalue m) \<rparr> else m)"

definition mem_ListState :: "bytes \<Rightarrow> 'e MemoryBackend \<Rightarrow> 'e MemoryBackend" where
  "mem_ListState name m =
     (if map_of (mlist m) name = None then m\<lparr> mlist := map_put name [] (mlist m) \<rparr> else m)"

definition mem_Get :: "StateHandle \<Rightarrow> 'e MemoryBackend \<Rightarrow> 'e option" where
  "mem_Get vs m =
     (case map_of (mvalue m) (hname vs) of None \<Rightarrow> None | Some data \<Rightarrow> map_of data (hkey vs))"

definition mem_Set :: "StateHandle \<Rightarrow> 'e \<Rightarrow> 'e MemoryBackend \<Rightarrow> 'e MemoryBackend" where
  "mem_Set vs v m =
     m\<lparr> mvalue := map_put (hname vs) (map_put (hkey vs) v (submap (mvalue m) (hname vs))) (mvalue m) \<rparr>"

definition mem_Clear :: "StateHandle \<Rightarrow> 'e MemoryBackend \<Rightarrow> 'e MemoryBackend" where
  "mem_Clear vs m =
     (case map_of (mvalue m) (hname vs) of
        None \<Rightarrow> m
      | Some data \<Rightarrow> m\<lparr> mvalue := map_put (hname vs) (map_del (hkey vs) data) (mvalue m) \<rparr>)"

definition mem_Keys ::
  "(bytes \<times> 'e) range_ord \<Rightarrow> StateHandle \<Rightarrow> 'e MemoryBackend \<Rightarrow> bytes list" where
  "mem_Keys ord vs m = map fst (visit ord (submap (mvalue m) (hname vs)))"

definition mem_SnapshotAll :: "StateHandle \<Rightarrow> 'e MemoryBackend \<Rightarrow> (bytes, 'e) gomap" where
  "mem_SnapshotAll vs m =
     (case map_of (mvalue m) (hname vs) of
        None \<Rightarrow> []
      | Some data \<Rightarrow> fold (\<lambda>(k, v) snapshot. map_put k v snapshot) data [])"

definition mem_RestoreAll ::
  "StateHandle \<Rightarrow> (bytes, 'e) gomap \<Rightarrow> 'e MemoryBackend \<Rightarrow> 'e MemoryBackend" where
  "mem_RestoreAll vs entries m =
     m\<lparr> mvalue := map_put (hname vs) (fold (\<lambda>(k, v) fresh. map_put k v fresh) entries []) (mvalue m) \<rparr>"

definition mem_Append :: "StateHandle \<Rightarrow> 'e \<Rightarrow> 'e MemoryBackend \<Rightarrow> 'e MemoryBackend" where
  "mem_Append ls v m =
     (let data = submap (mlist m) (hname ls);
          old = (case map_of data (hkey ls) of Some es \<Rightarrow> es | None \<Rightarrow> [])
      in m\<lparr> mlist := map_put (hname ls) (map_put (hkey ls) (old @ [v]) data) (mlist m) \<rparr>)"

definition mem_GetAll :: "StateHandle \<Rightarrow> 'e MemoryBackend \<Rightarrow> 'e list" where
  "mem_GetAll ls m =
     (case map_of (mlist m) (hname ls) of
        None \<Rightarrow> []
      | Some data \<Rightarrow> (case map_of data (hkey ls) of Some es \<Rightarrow> es | None \<Rightarrow> []))"

definition mem_ClearList :: "StateHandle \<Rightarrow> 'e MemoryBackend \<Rightarrow> 'e MemoryBackend" where
  "mem_ClearList ls m =
     (case map_of (mlist m) (hname ls) of
        None \<Rightarrow> m
      | Some data \<Rightarrow> m\<lparr> mlist := map_put (hname ls) (map_del (hkey ls) data) (mlist m) \<rparr>)"

definition mem_ListKeys ::
  "(bytes \<times> 'e list) range_ord \<Rightarrow> StateHandle \<Rightarrow> 'e MemoryBackend \<Rightarrow> bytes list" where
  "mem_ListKeys ord ls m = map fst (visit ord (submap (mlist m) (hname ls)))"

text \<open>The backend as an implementation of the interface; \<open>ord\<close> is the iteration order of maps.\<close>

definition memory_backend ::
  "(bytes \<times> 'e) range_ord \<Rightarrow> (bytes \<times> 'e list) range_ord \<Rightarrow>
    ('e MemoryBackend, 'e) StateBackend" where
  "memory_backend ordv ordl =
     \<lparr> ValueState = mem_ValueState, vs_Get = mem_Get, vs_Set = mem_Set, vs_Clear = mem_Clear,
       vs_Keys = mem_Keys ordv, vs_SnapshotAll = mem_SnapshotAll, vs_RestoreAll = mem_RestoreAll,
       ListState = mem_ListState, ls_Append = mem_Append, ls_GetAll = mem_GetAll,
       ls_Clear = mem_ClearList, ls_Keys = mem_ListKeys ordl \<rparr>"

subsection \<open>The in-memory backend keeps the promises\<close>

definition mem_inv :: "'e MemoryBackend \<Rightarrow> bool" where
  "mem_inv m \<longleftrightarrow>
     (\<forall>n d. map_of (mvalue m) n = Some d \<longrightarrow> map_wf d) \<and>
     (\<forall>n d. map_of (mlist m) n = Some d \<longrightarrow> map_wf d \<and> (\<forall>k es. map_of d k = Some es \<longrightarrow> es \<noteq> []))"

definition mem_val :: "'e MemoryBackend \<Rightarrow> bytes \<Rightarrow> bytes \<Rightarrow> 'e option" where
  "mem_val m n = map_of (submap (mvalue m) n)"

definition mem_lst :: "'e MemoryBackend \<Rightarrow> bytes \<Rightarrow> bytes \<Rightarrow> 'e list" where
  "mem_lst m n k = (case map_of (submap (mlist m) n) k of Some es \<Rightarrow> es | None \<Rightarrow> [])"

lemma submap_put [simp]: "submap (map_put n d m) n' = (if n' = n then d else submap m n')"
  by (simp add: submap_def)

lemma mem_inv_wf:
  "mem_inv m \<Longrightarrow> map_wf (submap (mvalue m) n)" "mem_inv m \<Longrightarrow> map_wf (submap (mlist m) n)"
  by (auto simp: mem_inv_def submap_def split: option.splits)

lemma mem_inv_nonempty: "mem_inv m \<Longrightarrow> map_of (submap (mlist m) n) k \<noteq> Some []"
  unfolding mem_inv_def submap_def by (cases "map_of (mlist m) n") (simp, metis option.simps(5))

lemma mem_inv_put_value:
  "mem_inv m \<Longrightarrow> map_wf d \<Longrightarrow> mem_inv (m\<lparr> mvalue := map_put n d (mvalue m) \<rparr>)"
  by (simp add: mem_inv_def)

lemma mem_inv_put_list:
  "mem_inv m \<Longrightarrow> map_wf d \<Longrightarrow> (\<And>k. map_of d k \<noteq> Some []) \<Longrightarrow>
    mem_inv (m\<lparr> mlist := map_put n d (mlist m) \<rparr>)"
  by (auto simp: mem_inv_def)

lemma rebuild_map:
  "map_wf d \<Longrightarrow> map_of (fold (\<lambda>(k, v) acc. map_put k v acc) d []) = map_of d"
  using map_of_mset_eq [of d "rev d"] by (simp add: fold_put_append_map_of)

lemmas mem_ops_defs = memory_backend_def mem_ValueState_def mem_Get_def mem_Set_def mem_Clear_def
  mem_Keys_def mem_SnapshotAll_def mem_RestoreAll_def mem_ListState_def mem_Append_def
  mem_GetAll_def mem_ClearList_def mem_ListKeys_def

lemma submap_cases:
  "map_of m n = None \<Longrightarrow> submap m n = []" "map_of m n = Some d \<Longrightarrow> submap m n = d"
  by (simp_all add: submap_def)

interpretation mem: value_state "memory_backend ordv ordl" mem_inv "\<lambda>_. True" mem_val
proof unfold_locales
  fix b :: "'a MemoryBackend" and h :: StateHandle and e :: 'a and n and m :: "(bytes, 'a) gomap"
  assume inv: "mem_inv b"
  note wf = mem_inv_wf [OF inv]
  show "mem_inv (ValueState (memory_backend ordv ordl) n b) \<and>
      mem_val (ValueState (memory_backend ordv ordl) n b) = mem_val b"
    using inv by (auto simp: mem_ops_defs mem_inv_put_value mem_val_def submap_cases fun_eq_iff)
  show "vs_Get (memory_backend ordv ordl) h b = mem_val b (hname h) (hkey h)"
    by (simp add: mem_ops_defs mem_val_def submap_def split: option.split)
  show "mem_inv (vs_Set (memory_backend ordv ordl) h e b) \<and> mem_val (vs_Set (memory_backend ordv ordl) h e b) =
      (mem_val b)(hname h := (mem_val b (hname h))(hkey h \<mapsto> e))"
    using inv wf by (auto simp: mem_ops_defs mem_val_def intro!: mem_inv_put_value)
  show "mem_inv (vs_Clear (memory_backend ordv ordl) h b) \<and> mem_val (vs_Clear (memory_backend ordv ordl) h b) =
      (mem_val b)(hname h := (mem_val b (hname h))(hkey h := None))"
    using inv wf(1) [of "hname h"]
    by (auto simp: mem_ops_defs mem_val_def submap_cases fun_eq_iff
        intro!: mem_inv_put_value split: option.splits)
  show "distinct (vs_Keys (memory_backend ordv ordl) h b) \<and>
      set (vs_Keys (memory_backend ordv ordl) h b) = dom (mem_val b (hname h))"
    using wf by (simp add: mem_ops_defs mem_val_def keys_are_dom)
  show "map_wf (vs_SnapshotAll (memory_backend ordv ordl) h b) \<and>
      map_of (vs_SnapshotAll (memory_backend ordv ordl) h b) = mem_val b (hname h)"
    using wf(1) [of "hname h"]
    by (auto simp: mem_ops_defs mem_val_def submap_cases rebuild_map fold_put_wf split: option.split)
  show "mem_inv (vs_RestoreAll (memory_backend ordv ordl) h m b) \<and>
      mem_val (vs_RestoreAll (memory_backend ordv ordl) h m b) = (mem_val b)(hname h := map_of m)"
    if "map_wf m"
    using inv that by (auto simp: mem_ops_defs mem_val_def rebuild_map fold_put_wf intro!: mem_inv_put_value)
qed

interpretation mem: list_state_total "memory_backend ordv ordl" mem_inv "\<lambda>_. True" "\<lambda>_. True" "\<lambda>_ _. True" mem_lst
proof unfold_locales
  fix b :: "'a MemoryBackend" and h :: StateHandle and e :: 'a and n
  assume inv: "mem_inv b"
  note wf = mem_inv_wf [OF inv]
  note ne = mem_inv_nonempty [OF inv]
  show "mem_inv (ListState (memory_backend ordv ordl) n b) \<and>
      mem_lst (ListState (memory_backend ordv ordl) n b) = mem_lst b"
    using inv by (auto simp: mem_ops_defs mem_inv_put_list mem_lst_def submap_cases fun_eq_iff)
  show "ls_GetAll (memory_backend ordv ordl) h b = mem_lst b (hname h) (hkey h)"
    by (simp add: mem_ops_defs mem_lst_def submap_def split: option.split)
  show "mem_inv (ls_Append (memory_backend ordv ordl) h e b) \<and> mem_lst (ls_Append (memory_backend ordv ordl) h e b) =
      (mem_lst b)(hname h := (mem_lst b (hname h))(hkey h := mem_lst b (hname h) (hkey h) @ [e]))"
    using inv wf(2) [of "hname h"] ne
    by (auto simp: mem_ops_defs Let_def mem_lst_def fun_eq_iff simp del: map_of_eq_Some_iff
        intro!: mem_inv_put_list split: if_splits)
  show "mem_inv (ls_Clear (memory_backend ordv ordl) h b) \<and> mem_lst (ls_Clear (memory_backend ordv ordl) h b) =
      (mem_lst b)(hname h := (mem_lst b (hname h))(hkey h := []))"
    using inv wf(2) [of "hname h"] ne [of "hname h"]
    by (auto simp: mem_ops_defs mem_lst_def submap_cases fun_eq_iff simp del: map_of_eq_Some_iff
        intro!: mem_inv_put_list split: option.splits if_splits)
  show "distinct (ls_Keys (memory_backend ordv ordl) h b) \<and>
      set (ls_Keys (memory_backend ordv ordl) h b) = {k. mem_lst b (hname h) k \<noteq> []}"
    using wf(2) [of "hname h"] ne [of "hname h"]
    by (auto simp: mem_ops_defs mem_lst_def keys_are_dom simp del: map_of_eq_Some_iff
        split: option.splits)
qed simp_all

lemma mem_inv_new [simp]: "mem_inv NewMemoryBackend"
  by (simp add: mem_inv_def NewMemoryBackend_def)

end
