(* ===== verification/Go_Binary.thy ===== *)
theory Go_Binary
  imports Weibo_Prelude "HOL-Library.List_Lexorder" "HOL-Library.Char_ord" "HOL-Library.Sublist"
begin

text \<open>
  \<open>encoding/binary\<close> big-endian integers and the bytewise lexicographic order of keys: the encoding
  round-trips, and it is monotone, which is what makes a numbered list come back in order from a
  sorted key-value store.
\<close>

subsection \<open>Big-endian encoding\<close>

fun be :: "nat \<Rightarrow> nat \<Rightarrow> bytes" where
  "be 0 n = []"
| "be (Suc m) n = be m (n div 256) @ [char_of n]"

definition from_be :: "bytes \<Rightarrow> nat" where
  "from_be s = foldl (\<lambda>a c. a * 256 + of_char c) 0 s"

text \<open>\<open>binary.BigEndian.PutUint64\<close> and \<open>Uint64\<close>.\<close>

definition PutUint64 :: "64 word \<Rightarrow> bytes" where
  "PutUint64 w = be 8 (unat w)"

definition Uint64 :: "bytes \<Rightarrow> 64 word" where
  "Uint64 s = word_of_nat (from_be s)"

lemma length_be [simp]: "length (be m n) = m"
  by (induction m arbitrary: n) auto

lemma length_PutUint64 [simp]: "length (PutUint64 w) = 8"
  by (simp add: PutUint64_def)

lemma from_be_append: "from_be (s @ [c]) = from_be s * 256 + of_char c"
  by (simp add: from_be_def)

lemma from_be_be: "n < 256 ^ m \<Longrightarrow> from_be (be m n) = n"
proof (induction m arbitrary: n)
  case (Suc m)
  then have "n div 256 < 256 ^ m" by (simp add: less_mult_imp_div_less mult.commute)
  with Suc.IH [of "n div 256"] show ?case by (simp add: from_be_append of_char_of)
qed (simp add: from_be_def)

lemma unat_less_256: "unat (w :: 64 word) < 256 ^ 8"
proof -
  have "unat w < 2 ^ LENGTH(64)" by (rule unsigned_less)
  then show ?thesis by simp
qed

lemma Uint64_PutUint64 [simp]: "Uint64 (PutUint64 w) = w"
  by (simp add: Uint64_def PutUint64_def from_be_be [OF unat_less_256])

lemma sint_word_i64: "sint (word_of_int x :: 64 word) = i64 x"
  by (rule i64_sint [symmetric])

subsection \<open>Lexicographic order\<close>

lemma less_append_same_length:
  fixes xs ys :: "'a :: order list"
  shows "length xs = length ys \<Longrightarrow> xs < ys \<Longrightarrow> xs @ us < ys @ vs"
  by (induction xs ys rule: list_induct2) auto

lemma less_append_left [simp]:
  fixes us vs :: "'a :: order list"
  shows "xs @ us < xs @ vs \<longleftrightarrow> us < vs"
  by (induction xs) auto

lemma be_mono: "a < b \<Longrightarrow> b < 256 ^ m \<Longrightarrow> be m a < be m b"
proof (induction m arbitrary: a b)
  case (Suc m)
  have b: "b div 256 < 256 ^ m" using Suc.prems by (simp add: less_mult_imp_div_less mult.commute)
  have le: "a div 256 \<le> b div 256" using Suc.prems by (simp add: div_le_mono)
  show ?case
  proof (cases "a div 256 = b div 256")
    case True
    then have "a mod 256 < b mod 256"
      using Suc.prems(1) div_mult_mod_eq [of a 256] div_mult_mod_eq [of b 256] by linarith
    then have "char_of a < (char_of b :: char)"
      by (simp add: less_char_def of_char_of)
    then show ?thesis using True by simp
  next
    case False
    then have "be m (a div 256) < be m (b div 256)" using Suc.IH le b by simp
    then show ?thesis using less_append_same_length [of "be m (a div 256)" "be m (b div 256)"] by simp
  qed
qed simp

lemma PutUint64_mono: "v < w \<Longrightarrow> PutUint64 v < PutUint64 w"
  unfolding PutUint64_def by (intro be_mono unat_less_256) (simp add: word_less_nat_alt)

lemma PutUint64_inj [simp]: "PutUint64 v = PutUint64 w \<longleftrightarrow> v = w"
  by (metis Uint64_PutUint64)

subsection \<open>The keys with a given prefix\<close>

text \<open>The keys from a prefix that ends in NUL up to the one that ends in SOH.\<close>

lemma char_between: "CHR 0x00 \<le> c \<and> c < CHR 0x01 \<longleftrightarrow> c = CHR 0x00"
proof -
  have "of_char c = (of_char (CHR 0x00) :: nat) \<longleftrightarrow> c = CHR 0x00" by (rule of_char_eq_iff)
  moreover have "of_char (CHR 0x00) = (0 :: nat)" "of_char (CHR 0x01) = (1 :: nat)" by simp_all
  ultimately show ?thesis unfolding less_char_def less_eq_char_def by linarith
qed

lemma nul_range: "q @ [CHR 0x00] \<le> k \<and> k < q @ [CHR 0x01] \<longleftrightarrow> prefix (q @ [CHR 0x00]) k"
proof (induction q arbitrary: k)
  case Nil
  show ?case
  proof (cases k)
    case (Cons c s)
    then show ?thesis using char_between [of c] by (auto simp: less_le)
  qed simp
next
  case (Cons a q)
  then show ?case by (cases k) (use less_asym in auto)
qed

lemma prefix_split_at:
  assumes "prefix (k @ [c]) (k' @ c # r)" "c \<notin> set k" "c \<notin> set k'"
  shows "k = k'"
  using assms
proof (induction k arbitrary: k')
  case Nil
  then show ?case by (cases k') auto
next
  case (Cons a k)
  then show ?case by (cases k') auto
qed

lemma append_split_at:
  assumes "k @ c # r = k' @ c # r'" "c \<notin> set k" "c \<notin> set k'"
  shows "k = k' \<and> r = r'"
  using assms
proof (induction k arbitrary: k')
  case Nil
  then show ?case by (cases k') auto
next
  case (Cons a k)
  then show ?case by (cases k') auto
qed

text \<open>A strictly sorted association list is determined by its entries.\<close>

lemma sorted_entries_unique:
  fixes xs ys :: "('k :: linorder \<times> 'v) list"
  assumes "sorted_wrt (<) (map fst xs)" "sorted_wrt (<) (map fst ys)" "set xs = set ys"
  shows "xs = ys"
proof -
  have d: "distinct (map fst xs)" "distinct (map fst ys)"
    using assms(1,2) by (simp_all add: strict_sorted_iff)
  have "map fst xs = map fst ys"
    using assms by (intro sorted_distinct_set_unique) (auto simp: strict_sorted_iff)
  moreover have "map_of xs = map_of ys" using d assms(3) by (metis map_of_inject_set)
  ultimately show ?thesis
    using d by (metis map_of_zip_inject length_map zip_map_fst_snd)
qed

end
