(* ===== verification/State_Pebble.thy ===== *)
theory State_Pebble
  imports State_Backend Go_Binary
begin

text \<open>
  \<open>state/pebble.go\<close>: the durable backend on the Pebble key-value store. The store itself is a
  library outside the repository; it is a parameter, a record of its operations, and
  \<open>pebble_laws\<close> states the documented behaviour the code relies on: an ordered map from byte keys
  to values, read back by range scans in key order, whose checkpoints reopen with the same contents.
  An I/O error of the store, on which the code panics, is outside the model. The backend encodes a
  value entry as \<open>v\<close>, NUL, namespace, NUL, key and a list entry as \<open>l\<close>, NUL, namespace, NUL, key,
  NUL and an eight-byte sequence number.
\<close>

subsection \<open>The store\<close>

datatype 'e batch_op = BDeleteRange bytes bytes | BSet bytes 'e

record ('d, 's, 'e) pebble =
  db_Get :: "'d \<Rightarrow> bytes \<Rightarrow> 'e option"
  db_Set :: "bytes \<Rightarrow> 'e \<Rightarrow> 'd \<Rightarrow> 'd"
  db_Delete :: "bytes \<Rightarrow> 'd \<Rightarrow> 'd"
  db_DeleteRange :: "bytes \<Rightarrow> bytes \<Rightarrow> 'd \<Rightarrow> 'd"
  db_Scan :: "'d \<Rightarrow> bytes \<Rightarrow> bytes \<Rightarrow> (bytes \<times> 'e) list"
  db_Apply :: "'e batch_op list \<Rightarrow> 'd \<Rightarrow> 'd"
  db_Checkpoint :: "'d \<Rightarrow> 's"
  db_Open :: "'s \<Rightarrow> 'd"

definition drop_range :: "bytes \<Rightarrow> bytes \<Rightarrow> (bytes \<rightharpoonup> 'e) \<Rightarrow> (bytes \<rightharpoonup> 'e)" where
  "drop_range lo hi m = (\<lambda>k. if lo \<le> k \<and> k < hi then None else m k)"

fun batch_step :: "'e batch_op \<Rightarrow> (bytes \<rightharpoonup> 'e) \<Rightarrow> (bytes \<rightharpoonup> 'e)" where
  "batch_step (BDeleteRange lo hi) m = drop_range lo hi m"
| "batch_step (BSet k v) m = m(k \<mapsto> v)"

definition pebble_laws :: "('d, 's, 'e) pebble \<Rightarrow> ('d \<Rightarrow> bytes \<rightharpoonup> 'e) \<Rightarrow> bool" where
  "pebble_laws api kv \<longleftrightarrow>
     (\<forall>d k. db_Get api d k = kv d k) \<and>
     (\<forall>d k v. kv (db_Set api k v d) = (kv d)(k \<mapsto> v)) \<and>
     (\<forall>d k. kv (db_Delete api k d) = (kv d)(k := None)) \<and>
     (\<forall>d lo hi. kv (db_DeleteRange api lo hi d) = drop_range lo hi (kv d)) \<and>
     (\<forall>d lo hi. sorted_wrt (<) (map fst (db_Scan api d lo hi)) \<and>
        set (db_Scan api d lo hi) = {(k, v). kv d k = Some v \<and> lo \<le> k \<and> k < hi}) \<and>
     (\<forall>d bs. kv (db_Apply api bs d) = fold batch_step bs (kv d)) \<and>
     (\<forall>d. kv (db_Open api (db_Checkpoint api d)) = kv d)"

subsection \<open>Key encoding\<close>

abbreviation NUL :: char where
  "NUL \<equiv> CHR 0x00"

definition valueUserKey :: "bytes \<Rightarrow> bytes \<Rightarrow> bytes" where
  "valueUserKey namespace key = [CHR ''v'', NUL] @ namespace @ [NUL] @ key"

definition valuePrefixBytes :: "bytes \<Rightarrow> bytes" where
  "valuePrefixBytes namespace = valueUserKey namespace []"

definition valueUserKeyFromFull :: "bytes \<Rightarrow> bytes \<Rightarrow> bytes" where
  "valueUserKeyFromFull namespace fullKey =
     (let expected = valuePrefixBytes namespace
      in if length fullKey > length expected then drop (length expected) fullKey else [])"

definition listEntryKey :: "bytes \<Rightarrow> bytes \<Rightarrow> 64 word \<Rightarrow> bytes" where
  "listEntryKey namespace key seq =
     [CHR ''l'', NUL] @ namespace @ [NUL] @ key @ [NUL] @ PutUint64 seq"

definition listPrefixBytes :: "bytes \<Rightarrow> bytes \<Rightarrow> bytes" where
  "listPrefixBytes namespace key =
     take (length (listEntryKey namespace key 0) - 8) (listEntryKey namespace key 0)"

definition listNamespacePrefix :: "bytes \<Rightarrow> bytes" where
  "listNamespacePrefix namespace = [CHR ''l'', NUL] @ namespace @ [NUL]"

definition prefixStart :: "bytes \<Rightarrow> bytes" where
  "prefixStart namespace = valueUserKey namespace []"

text \<open>The loop from the last byte down that looks for one below \<open>0xff\<close>.\<close>

fun bump_from :: "bytes \<Rightarrow> nat \<Rightarrow> bytes option" where
  "bump_from upper 0 = None"
| "bump_from upper (Suc i) =
     (if of_char (upper ! i) < (255 :: nat)
      then Some (take (Suc i) (upper[i := char_of (of_char (upper ! i) + 1 :: nat)]))
      else bump_from upper i)"

definition prefixUpperBound :: "bytes \<Rightarrow> bytes" where
  "prefixUpperBound pre =
     (case bump_from pre (length pre) of
        Some upper \<Rightarrow> upper
      | None \<Rightarrow> pre @ [CHR 0xFF])"

definition prefixEnd :: "bytes \<Rightarrow> bytes" where
  "prefixEnd namespace = prefixUpperBound (valueUserKey namespace [])"

subsection \<open>The backend\<close>

record 'd PebbleBackend =
  pdb :: 'd
  seqs :: "(bytes \<times> bytes, 64 word) gomap"
  closed :: bool

definition OpenPebble :: "('d, 's, 'e) pebble \<Rightarrow> 's \<Rightarrow> 'd PebbleBackend" where
  "OpenPebble api dir = \<lparr> pdb = db_Open api dir, seqs = [], closed = False \<rparr>"

definition Close :: "'d PebbleBackend \<Rightarrow> 'd PebbleBackend" where
  "Close p = (if closed p then p else p\<lparr> closed := True \<rparr>)"

text \<open>\<open>CheckpointTo\<close> yields the contents of the directory, or the error of a closed backend.\<close>

definition CheckpointTo :: "('d, 's, 'e) pebble \<Rightarrow> 'd PebbleBackend \<Rightarrow> 's option" where
  "CheckpointTo api p = (if closed p then None else Some (db_Checkpoint api (pdb p)))"

definition RestoreFrom :: "('d, 's, 'e) pebble \<Rightarrow> 's \<Rightarrow> 'd PebbleBackend \<Rightarrow> 'd PebbleBackend" where
  "RestoreFrom api dir p = p\<lparr> pdb := db_Open api dir, seqs := [], closed := False \<rparr>"

definition peb_Get :: "('d, 's, 'e) pebble \<Rightarrow> StateHandle \<Rightarrow> 'd PebbleBackend \<Rightarrow> 'e option" where
  "peb_Get api vs p =
     (if closed p then None else db_Get api (pdb p) (valueUserKey (hname vs) (hkey vs)))"

definition peb_Set :: "('d, 's, 'e) pebble \<Rightarrow> StateHandle \<Rightarrow> 'e \<Rightarrow> 'd PebbleBackend \<Rightarrow> 'd PebbleBackend" where
  "peb_Set api vs v p =
     (if closed p then p
      else p\<lparr> pdb := db_Set api (valueUserKey (hname vs) (hkey vs)) v (pdb p) \<rparr>)"

definition peb_Clear :: "('d, 's, 'e) pebble \<Rightarrow> StateHandle \<Rightarrow> 'd PebbleBackend \<Rightarrow> 'd PebbleBackend" where
  "peb_Clear api vs p =
     (if closed p then p
      else p\<lparr> pdb := db_Delete api (valueUserKey (hname vs) (hkey vs)) (pdb p) \<rparr>)"

definition peb_Keys :: "('d, 's, 'e) pebble \<Rightarrow> StateHandle \<Rightarrow> 'd PebbleBackend \<Rightarrow> bytes list" where
  "peb_Keys api vs p =
     (if closed p then []
      else (let pre = valuePrefixBytes (hname vs)
            in map (\<lambda>kv. valueUserKeyFromFull (hname vs) (fst kv))
                 (db_Scan api (pdb p) pre (prefixUpperBound pre))))"

definition peb_SnapshotAll ::
  "('d, 's, 'e) pebble \<Rightarrow> StateHandle \<Rightarrow> 'd PebbleBackend \<Rightarrow> (bytes, 'e) gomap" where
  "peb_SnapshotAll api vs p =
     (if closed p then []
      else (let pre = valuePrefixBytes (hname vs)
            in fold (\<lambda>(key, v) out. map_put (valueUserKeyFromFull (hname vs) key) v out)
                 (db_Scan api (pdb p) pre (prefixUpperBound pre)) []))"

text \<open>On a closed backend \<open>RestoreAll\<close> returns an error and changes nothing.\<close>

definition peb_RestoreAll ::
  "('d, 's, 'e) pebble \<Rightarrow> StateHandle \<Rightarrow> (bytes, 'e) gomap \<Rightarrow> 'd PebbleBackend \<Rightarrow> 'd PebbleBackend" where
  "peb_RestoreAll api vs entries p =
     (if closed p then p
      else p\<lparr> pdb := db_Apply api
             (BDeleteRange (prefixStart (hname vs)) (prefixEnd (hname vs)) #
              map (\<lambda>(k, v). BSet (valueUserKey (hname vs) k) v) entries) (pdb p) \<rparr>)"

definition next_seq :: "'d PebbleBackend \<Rightarrow> bytes \<Rightarrow> bytes \<Rightarrow> 64 word" where
  "next_seq p n k = (case map_of (seqs p) (n, k) of Some s \<Rightarrow> s | None \<Rightarrow> 0)"

definition peb_Append ::
  "('d, 's, 'e) pebble \<Rightarrow> StateHandle \<Rightarrow> 'e \<Rightarrow> 'd PebbleBackend \<Rightarrow> 'd PebbleBackend" where
  "peb_Append api ls v p =
     (if closed p then p
      else (let sk = (hname ls, hkey ls); seq = next_seq p (hname ls) (hkey ls)
            in p\<lparr> seqs := map_put sk (seq + 1) (seqs p),
                  pdb := db_Set api (listEntryKey (hname ls) (hkey ls) seq) v (pdb p) \<rparr>))"

definition peb_GetAll :: "('d, 's, 'e) pebble \<Rightarrow> StateHandle \<Rightarrow> 'd PebbleBackend \<Rightarrow> 'e list" where
  "peb_GetAll api ls p =
     (if closed p then []
      else (let pre = listPrefixBytes (hname ls) (hkey ls)
            in map snd (db_Scan api (pdb p) pre (prefixUpperBound pre))))"

definition peb_ClearList ::
  "('d, 's, 'e) pebble \<Rightarrow> StateHandle \<Rightarrow> 'd PebbleBackend \<Rightarrow> 'd PebbleBackend" where
  "peb_ClearList api ls p =
     (if closed p then p
      else (let start = listPrefixBytes (hname ls) (hkey ls)
            in p\<lparr> pdb := db_DeleteRange api start (prefixUpperBound start) (pdb p) \<rparr>))"

definition peb_ListKeys :: "('d, 's, 'e) pebble \<Rightarrow> StateHandle \<Rightarrow> 'd PebbleBackend \<Rightarrow> bytes list" where
  "peb_ListKeys api ls p =
     (if closed p then []
      else (let pre = listNamespacePrefix (hname ls)
            in fold (\<lambda>(full, v) keys.
                       if length full < length pre + 9 then keys
                       else (let k = take (length full - 9 - length pre) (drop (length pre) full)
                             in if k \<in> set keys then keys else keys @ [k]))
                 (db_Scan api (pdb p) pre (prefixUpperBound pre)) []))"

definition pebble_backend :: "('d, 's, 'e) pebble \<Rightarrow> ('d PebbleBackend, 'e) StateBackend" where
  "pebble_backend api =
     \<lparr> ValueState = \<lambda>name p. p, vs_Get = peb_Get api, vs_Set = peb_Set api, vs_Clear = peb_Clear api,
       vs_Keys = peb_Keys api, vs_SnapshotAll = peb_SnapshotAll api,
       vs_RestoreAll = peb_RestoreAll api, ListState = \<lambda>name p. p, ls_Append = peb_Append api,
       ls_GetAll = peb_GetAll api, ls_Clear = peb_ClearList api, ls_Keys = peb_ListKeys api \<rparr>"

subsection \<open>Facts on the encoding\<close>

lemma at_key_eta [simp]: "at_key (hname h) (hkey h) = h"
  by (simp add: at_key_def)

definition nul_free :: "bytes \<Rightarrow> bool" where
  "nul_free s \<longleftrightarrow> NUL \<notin> set s"

lemma prefixUpperBound_nul: "prefixUpperBound (q @ [NUL]) = q @ [CHR 0x01]"
proof -
  have "char_of (1 :: nat) = CHR 0x01" by code_simp
  then show ?thesis by (simp add: prefixUpperBound_def list_update_append)
qed

lemma value_key_prefix: "valueUserKey n k = valuePrefixBytes n @ k"
  by (simp add: valueUserKey_def valuePrefixBytes_def)

lemma value_key_from_full [simp]: "valueUserKeyFromFull n (valuePrefixBytes n @ k) = k"
  by (simp add: valueUserKeyFromFull_def Let_def)

lemma valuePrefixBytes_snoc: "valuePrefixBytes n = (CHR ''v'' # NUL # n) @ [NUL]"
  by (simp add: valuePrefixBytes_def valueUserKey_def)

lemma value_prefix_iff:
  assumes "nul_free n" "nul_free n'"
  shows "prefix (valuePrefixBytes n) (valueUserKey n' k) \<longleftrightarrow> n = n'"
  using prefix_split_at [of n NUL n' k] assms
  by (auto simp: valuePrefixBytes_snoc valueUserKey_def nul_free_def)

lemma value_key_eq:
  assumes "nul_free n" "nul_free n'"
  shows "valueUserKey n k = valueUserKey n' k' \<longleftrightarrow> n = n' \<and> k = k'"
  using append_split_at [of n NUL k n' k'] assms by (auto simp: valueUserKey_def nul_free_def)

lemma listPrefixBytes_snoc: "listPrefixBytes n k = (CHR ''l'' # NUL # n @ NUL # k) @ [NUL]"
  by (simp add: listPrefixBytes_def listEntryKey_def eval_nat_numeral)

lemma list_key_prefix: "listEntryKey n k s = listPrefixBytes n k @ PutUint64 s"
  by (simp add: listPrefixBytes_snoc listEntryKey_def)

lemma listNamespacePrefix_snoc: "listNamespacePrefix n = (CHR ''l'' # NUL # n) @ [NUL]"
  by (simp add: listNamespacePrefix_def)

lemma list_prefix_iff:
  assumes "nul_free n" "nul_free n'" "nul_free k" "nul_free k'"
  shows "prefix (listPrefixBytes n k) (listEntryKey n' k' s) \<longleftrightarrow> n = n' \<and> k = k'"
proof
  assume "prefix (listPrefixBytes n k) (listEntryKey n' k' s)"
  then have p: "prefix (n @ NUL # k @ [NUL]) (n' @ NUL # k' @ NUL # PutUint64 s)"
    by (simp add: listPrefixBytes_snoc listEntryKey_def)
  then have "prefix (n @ [NUL]) (n' @ NUL # k' @ NUL # PutUint64 s)"
    by (metis append_Cons append_Nil append_assoc prefix_def)
  then have n: "n = n'" using assms prefix_split_at by (auto simp: nul_free_def)
  then have "prefix (k @ [NUL]) (k' @ NUL # PutUint64 s)" using p by simp
  then show "n = n' \<and> k = k'" using n assms prefix_split_at by (auto simp: nul_free_def)
qed (auto simp: list_key_prefix)

lemma list_ns_prefix_iff:
  assumes "nul_free n" "nul_free n'"
  shows "prefix (listNamespacePrefix n) (listEntryKey n' k s) \<longleftrightarrow> n = n'"
  using prefix_split_at [of n NUL n'] assms
  by (auto simp: listNamespacePrefix_snoc listEntryKey_def nul_free_def)

lemma list_key_eq:
  assumes "nul_free n" "nul_free n'" "nul_free k" "nul_free k'"
  shows "listEntryKey n k s = listEntryKey n' k' s' \<longleftrightarrow> n = n' \<and> k = k' \<and> s = s'"
  using list_prefix_iff [OF assms, of s'] by (auto simp: list_key_prefix)

lemma list_key_decode:
  "\<not> length (listEntryKey n k s) < length (listNamespacePrefix n) + 9"
  "take (length (listEntryKey n k s) - 9 - length (listNamespacePrefix n))
     (drop (length (listNamespacePrefix n)) (listEntryKey n k s)) = k"
  by (simp_all add: listEntryKey_def listNamespacePrefix_def)

lemma fold_BSet:
  assumes "inj f" "map_wf es"
  shows "fold batch_step (map (\<lambda>(k, v). BSet (f k) v) es) m =
    (\<lambda>x. if \<exists>k v. map_of es k = Some v \<and> x = f k then map_of es (inv f x) else m x)"
  using assms(2)
proof (induction es arbitrary: m)
  case (Cons e es)
  obtain k v where e: "e = (k, v)" by (cases e)
  have new: "map_of es k = None" using Cons.prems by (simp add: e map_of_eq_None_fst)
  show ?case
    using Cons new assms(1)
    by (auto simp: e fun_eq_iff inv_f_f inj_eq split: if_splits)
qed simp

subsection \<open>The backend over a lawful store\<close>

definition peb_val :: "('d \<Rightarrow> bytes \<rightharpoonup> 'e) \<Rightarrow> 'd PebbleBackend \<Rightarrow> bytes \<Rightarrow> bytes \<Rightarrow> 'e option" where
  "peb_val kv p n k = (if nul_free n then kv (pdb p) (valueUserKey n k) else None)"

definition peb_lst :: "('d, 's, 'e) pebble \<Rightarrow> 'd PebbleBackend \<Rightarrow> bytes \<Rightarrow> bytes \<Rightarrow> 'e list" where
  "peb_lst api p n k = (if nul_free n \<and> nul_free k then peb_GetAll api (at_key n k) p else [])"

text \<open>
  Every list entry of the store belongs to a namespace and a key without NUL, and its number is
  below the counter of that list.
\<close>

definition peb_list_inv :: "('d \<Rightarrow> bytes \<rightharpoonup> 'e) \<Rightarrow> 'd PebbleBackend \<Rightarrow> bool" where
  "peb_list_inv kv p \<longleftrightarrow> \<not> closed p \<and>
     (\<forall>x\<in>dom (kv (pdb p)). prefix [CHR ''l'', NUL] x \<longrightarrow>
        (\<exists>n k s. nul_free n \<and> nul_free k \<and> x = listEntryKey n k s \<and> s < next_seq p n k))"

definition peb_room :: "StateHandle \<Rightarrow> 'd PebbleBackend \<Rightarrow> bool" where
  "peb_room h p \<longleftrightarrow> next_seq p (hname h) (hkey h) < - 1"

lemma word_less_own: "w < - 1 \<Longrightarrow> w < w + (1 :: 64 word)"
proof -
  assume "w < - 1"
  then have "1 + w \<noteq> 0" using max_word_wrap [of w] by (auto simp: add.commute)
  then show ?thesis using unatSuc [of w] by (simp add: word_less_nat_alt add.commute)
qed

locale pebble_env =
  fixes api :: "('d, 's, 'e) pebble" and kv :: "'d \<Rightarrow> bytes \<rightharpoonup> 'e"
  assumes laws: "pebble_laws api kv"
begin

lemma store [simp]:
  "db_Get api d x = kv d x" "kv (db_Set api x v d) = (kv d)(x \<mapsto> v)"
  "kv (db_Delete api x d) = (kv d)(x := None)"
  "kv (db_DeleteRange api lo hi d) = drop_range lo hi (kv d)"
  "kv (db_Apply api bs d) = fold batch_step bs (kv d)"
  "kv (db_Open api (db_Checkpoint api d)) = kv d"
  using laws by (simp_all add: pebble_laws_def)

lemma scan:
  "sorted_wrt (<) (map fst (db_Scan api d (q @ [NUL]) (q @ [CHR 0x01])))"
  "set (db_Scan api d (q @ [NUL]) (q @ [CHR 0x01])) = {(k, v). kv d k = Some v \<and> prefix (q @ [NUL]) k}"
  using laws unfolding pebble_laws_def by (simp_all add: nul_range)

lemma scan_eq:
  assumes "sorted_wrt (<) (map fst xs)" "set xs = {(k, v). kv d k = Some v \<and> prefix (q @ [NUL]) k}"
  shows "db_Scan api d (q @ [NUL]) (q @ [CHR 0x01]) = xs"
  by (rule sorted_entries_unique) (simp_all add: scan assms)

lemma drop_prefix: "drop_range (q @ [NUL]) (q @ [CHR 0x01]) m x = (if prefix (q @ [NUL]) x then None else m x)"
  by (simp add: drop_range_def nul_range)

lemma value_entries:
  assumes "nul_free n"
  shows "map_wf (map (\<lambda>(x, v). (valueUserKeyFromFull n x, v))
      (db_Scan api d (valuePrefixBytes n) (prefixUpperBound (valuePrefixBytes n))))"
    "map_of (map (\<lambda>(x, v). (valueUserKeyFromFull n x, v))
      (db_Scan api d (valuePrefixBytes n) (prefixUpperBound (valuePrefixBytes n)))) k = kv d (valueUserKey n k)"
proof -
  define xs where "xs = db_Scan api d (valuePrefixBytes n) (prefixUpperBound (valuePrefixBytes n))"
  have xs: "sorted_wrt (<) (map fst xs)" "set xs = {(x, v). kv d x = Some v \<and> prefix (valuePrefixBytes n) x}"
    by (simp_all only: xs_def valuePrefixBytes_snoc prefixUpperBound_nul scan)
  have "inj_on (valueUserKeyFromFull n) (fst ` set xs)"
    by (auto simp: inj_on_def xs(2) prefix_def)
  moreover have "distinct (map fst xs)" using xs(1) by (simp add: strict_sorted_iff)
  ultimately have "distinct (map (valueUserKeyFromFull n) (map fst xs))" by (simp add: distinct_map comp_inj_on)
  then show wf: "map_wf (map (\<lambda>(x, v). (valueUserKeyFromFull n x, v)) xs)"
    by (simp add: comp_def case_prod_beta)
  have mem: "(k, v) \<in> set (map (\<lambda>(x, v). (valueUserKeyFromFull n x, v)) xs) \<longleftrightarrow>
      kv d (valueUserKey n k) = Some v" for v
    by (force simp: xs(2) value_key_prefix prefix_def)
  show "map_of (map (\<lambda>(x, v). (valueUserKeyFromFull n x, v)) xs) k = kv d (valueUserKey n k)"
    using mem wf by (metis (no_types, lifting) map_of_eq_Some_iff not_None_eq)
qed

lemma restore_values:
  assumes "map_wf m" "nul_free n" "nul_free n'"
  shows "fold batch_step (BDeleteRange (prefixStart n) (prefixEnd n) #
      map (\<lambda>(k, v). BSet (valueUserKey n k) v) m) f (valueUserKey n' k) =
    (if n' = n then map_of m k else f (valueUserKey n' k))"
proof -
  have inj: "inj (valueUserKey n)" by (simp add: inj_def value_key_prefix)
  have d: "drop_range (prefixStart n) (prefixEnd n) f (valueUserKey n' k) =
      (if n' = n then None else f (valueUserKey n' k))"
    using value_prefix_iff [OF assms(2,3), of k]
    by (auto simp: prefixStart_def prefixEnd_def drop_prefix prefixUpperBound_nul
        valuePrefixBytes_def [symmetric] valuePrefixBytes_snoc simp del: append_Cons)
  have s: "drop_range (prefixStart n) (prefixEnd n) f (valueUserKey n' k) = None" if "n' = n"
    using d that by simp
  show ?thesis
    using assms inj s
    by (auto simp: fold_BSet value_key_eq d inv_f_f map_of_eq_None_fst [symmetric] simp del: map_of_eq_Some_iff)
qed

end

sublocale pebble_env \<subseteq> pv: value_state "pebble_backend api" "\<lambda>p. \<not> closed p" nul_free "peb_val kv"
proof unfold_locales
  fix b :: "'d PebbleBackend" and h :: StateHandle and e :: 'e and n and m :: "(bytes, 'e) gomap"
  assume c: "\<not> closed b"
  show "\<not> closed (ValueState (pebble_backend api) n b) \<and>
      peb_val kv (ValueState (pebble_backend api) n b) = peb_val kv b"
    using c by (simp add: pebble_backend_def)
  assume ok: "nul_free (hname h)"
  show "vs_Get (pebble_backend api) h b = peb_val kv b (hname h) (hkey h)"
    using c ok by (simp add: pebble_backend_def peb_Get_def peb_val_def)
  show "\<not> closed (vs_Set (pebble_backend api) h e b) \<and> peb_val kv (vs_Set (pebble_backend api) h e b) =
      (peb_val kv b)(hname h := (peb_val kv b (hname h))(hkey h \<mapsto> e))"
    using c ok by (auto simp: pebble_backend_def peb_Set_def peb_val_def value_key_eq fun_eq_iff)
  show "\<not> closed (vs_Clear (pebble_backend api) h b) \<and> peb_val kv (vs_Clear (pebble_backend api) h b) =
      (peb_val kv b)(hname h := (peb_val kv b (hname h))(hkey h := None))"
    using c ok by (auto simp: pebble_backend_def peb_Clear_def peb_val_def value_key_eq fun_eq_iff)
  define xs where "xs = map (\<lambda>(x, v). (valueUserKeyFromFull (hname h) x, v)) (db_Scan api (pdb b)
      (valuePrefixBytes (hname h)) (prefixUpperBound (valuePrefixBytes (hname h))))"
  have wf: "map_wf xs" and of: "map_of xs = peb_val kv b (hname h)"
    using value_entries [OF ok, of "pdb b"] ok by (simp_all add: xs_def peb_val_def fun_eq_iff)
  have "vs_Keys (pebble_backend api) h b = map fst xs"
    using c by (simp add: pebble_backend_def peb_Keys_def Let_def xs_def comp_def case_prod_beta)
  then show "distinct (vs_Keys (pebble_backend api) h b) \<and>
      set (vs_Keys (pebble_backend api) h b) = dom (peb_val kv b (hname h))"
    using wf by (simp add: keys_are_dom of)
  have "vs_SnapshotAll (pebble_backend api) h b = fold (\<lambda>(k, v) acc. map_put k v acc) xs []"
    using c by (auto simp: pebble_backend_def peb_SnapshotAll_def Let_def xs_def fold_map intro!: fold_cong)
  then show "map_wf (vs_SnapshotAll (pebble_backend api) h b) \<and>
      map_of (vs_SnapshotAll (pebble_backend api) h b) = peb_val kv b (hname h)"
    using wf by (simp add: rebuild_map of fold_put_wf)
  show "\<not> closed (vs_RestoreAll (pebble_backend api) h m b) \<and>
      peb_val kv (vs_RestoreAll (pebble_backend api) h m b) = (peb_val kv b)(hname h := map_of m)"
    if "map_wf m"
    using c ok restore_values [OF that ok, of _ "kv (pdb b)"]
    by (auto simp: pebble_backend_def peb_RestoreAll_def peb_val_def fun_eq_iff)
qed

context pebble_env
begin

lemma list_scan:
  "sorted_wrt (<) (map fst (db_Scan api d (listPrefixBytes n k) (prefixUpperBound (listPrefixBytes n k))))"
  "set (db_Scan api d (listPrefixBytes n k) (prefixUpperBound (listPrefixBytes n k))) =
     {(x, v). kv d x = Some v \<and> prefix (listPrefixBytes n k) x}"
  by (simp_all only: listPrefixBytes_snoc prefixUpperBound_nul scan)

lemma list_scan_eq:
  assumes "sorted_wrt (<) (map fst xs)" "set xs = {(x, v). kv d x = Some v \<and> prefix (listPrefixBytes n k) x}"
  shows "db_Scan api d (listPrefixBytes n k) (prefixUpperBound (listPrefixBytes n k)) = xs"
  by (rule sorted_entries_unique) (simp_all add: list_scan assms)

lemma list_entry_any:
  assumes "peb_list_inv kv p" "kv (pdb p) x = Some v" "prefix [CHR ''l'', NUL] x"
  obtains n k s where "nul_free n" "nul_free k" "x = listEntryKey n k s" "s < next_seq p n k"
  using assms unfolding peb_list_inv_def by (metis domI)

lemma list_entry:
  assumes "peb_list_inv kv p" "kv (pdb p) x = Some v" "prefix (listPrefixBytes n k) x" "nul_free n" "nul_free k"
  shows "\<exists>s. x = listEntryKey n k s \<and> s < next_seq p n k"
proof -
  have "prefix [CHR ''l'', NUL] x" using assms(3) by (auto simp: listPrefixBytes_snoc prefix_def)
  with assms(1,2) obtain n' k' s where "nul_free n'" "nul_free k'" "x = listEntryKey n' k' s" "s < next_seq p n' k'"
    by (rule list_entry_any)
  then show ?thesis using assms(3-5) list_prefix_iff [of n n' k k' s] by auto
qed

lemma next_seq_append:
  "\<not> closed p \<Longrightarrow> next_seq (peb_Append api h e p) n k =
    (if n = hname h \<and> k = hkey h then next_seq p n k + 1 else next_seq p n k)"
  by (auto simp: peb_Append_def next_seq_def Let_def)

lemma peb_Append_scan:
  assumes "peb_list_inv kv p" "nul_free n" "nul_free k"
  shows "db_Scan api (pdb (peb_Append api (at_key n k) e p)) (listPrefixBytes n k)
      (prefixUpperBound (listPrefixBytes n k)) =
    db_Scan api (pdb p) (listPrefixBytes n k) (prefixUpperBound (listPrefixBytes n k)) @
      [(listEntryKey n k (next_seq p n k), e)]"
proof (rule list_scan_eq)
  define xs where "xs = db_Scan api (pdb p) (listPrefixBytes n k) (prefixUpperBound (listPrefixBytes n k))"
  have xs: "set xs = {(x, v). kv (pdb p) x = Some v \<and> prefix (listPrefixBytes n k) x}"
    by (simp add: xs_def list_scan)
  have c: "\<not> closed p" using assms(1) by (simp add: peb_list_inv_def)
  have less: "x < listEntryKey n k (next_seq p n k)" if "(x, v) \<in> set xs" for x v
    using list_entry [OF assms(1) _ _ assms(2,3), of x v] that
    by (auto simp: xs list_key_prefix PutUint64_mono)
  have new: "kv (pdb p) (listEntryKey n k (next_seq p n k)) = None"
    using less [of "listEntryKey n k (next_seq p n k)"]
    by (cases "kv (pdb p) (listEntryKey n k (next_seq p n k))") (auto simp: xs list_key_prefix)
  show "sorted_wrt (<) (map fst (xs @ [(listEntryKey n k (next_seq p n k), e)]))"
    using less by (auto simp: sorted_wrt_append xs_def list_scan(1))
  show "set (xs @ [(listEntryKey n k (next_seq p n k), e)]) =
      {(x, v). kv (pdb (peb_Append api (at_key n k) e p)) x = Some v \<and> prefix (listPrefixBytes n k) x}"
    using new c by (auto simp: xs peb_Append_def Let_def list_key_prefix split: if_splits)
qed

lemma append_keeps_inv:
  assumes "peb_list_inv kv p" "nul_free (hname h)" "nul_free (hkey h)" "peb_room h p"
  shows "peb_list_inv kv (peb_Append api h e p)"
proof -
  have c: "\<not> closed p" using assms(1) by (simp add: peb_list_inv_def)
  have step: "s < next_seq (peb_Append api h e p) n k" if "s < next_seq p n k" for s n k
    using that assms(4) less_trans [OF that word_less_own]
    by (auto simp: next_seq_append [OF c] peb_room_def)
  have own: "next_seq p (hname h) (hkey h) < next_seq (peb_Append api h e p) (hname h) (hkey h)"
    using assms(4) by (simp add: next_seq_append [OF c] peb_room_def word_less_own)
  have "\<exists>n k s. nul_free n \<and> nul_free k \<and> x = listEntryKey n k s \<and> s < next_seq (peb_Append api h e p) n k"
    if x: "kv (pdb (peb_Append api h e p)) x = Some v" "prefix [CHR ''l'', NUL] x" for x v
  proof (cases "x = listEntryKey (hname h) (hkey h) (next_seq p (hname h) (hkey h))")
    case True
    then show ?thesis using own assms(2,3) by blast
  next
    case False
    then have "kv (pdb p) x = Some v" using x(1) c by (simp add: peb_Append_def Let_def)
    with assms(1) obtain n k s where "nul_free n" "nul_free k" "x = listEntryKey n k s" "s < next_seq p n k"
      using x(2) by (rule list_entry_any)
    then show ?thesis using step by blast
  qed
  moreover have "\<not> closed (peb_Append api h e p)" using c by (simp add: peb_Append_def Let_def)
  ultimately show ?thesis by (auto simp: peb_list_inv_def)
qed

lemma peb_Append_scan_other:
  assumes "\<not> closed p" "nul_free n" "nul_free k" "nul_free n'" "nul_free k'" "(n', k') \<noteq> (n, k)"
  shows "db_Scan api (pdb (peb_Append api (at_key n k) e p)) (listPrefixBytes n' k')
      (prefixUpperBound (listPrefixBytes n' k')) =
    db_Scan api (pdb p) (listPrefixBytes n' k') (prefixUpperBound (listPrefixBytes n' k'))"
  using assms list_prefix_iff [of n' n k' k]
  by (intro list_scan_eq) (auto simp: list_scan peb_Append_def Let_def split: if_splits)

lemma peb_ClearList_scan:
  assumes "\<not> closed p" "nul_free n" "nul_free k" "nul_free n'" "nul_free k'" "peb_list_inv kv p"
  shows "db_Scan api (pdb (peb_ClearList api (at_key n k) p)) (listPrefixBytes n' k')
      (prefixUpperBound (listPrefixBytes n' k')) =
    (if n' = n \<and> k' = k then []
     else db_Scan api (pdb p) (listPrefixBytes n' k') (prefixUpperBound (listPrefixBytes n' k')))"
proof -
  have kv: "kv (pdb (peb_ClearList api (at_key n k) p)) x =
      (if prefix (listPrefixBytes n k) x then None else kv (pdb p) x)" for x
    using assms(1) by (simp add: peb_ClearList_def Let_def listPrefixBytes_snoc prefixUpperBound_nul drop_prefix
        del: append_Cons)
  have "\<not> prefix (listPrefixBytes n k) x"
    if "kv (pdb p) x = Some v" "prefix (listPrefixBytes n' k') x" "\<not> (n' = n \<and> k' = k)" for x v
    using list_entry [OF assms(6) that(1,2) assms(4,5)] that(3) list_prefix_iff assms by metis
  then show ?thesis
    by (intro list_scan_eq) (auto simp: list_scan kv split: if_splits)
qed

lemma dedup_fold:
  assumes "\<forall>e\<in>set es. f e = g e"
  shows "distinct acc \<Longrightarrow>
    distinct (fold (\<lambda>e keys. if f e \<in> set keys then keys else keys @ [g e]) es acc) \<and>
    set (fold (\<lambda>e keys. if f e \<in> set keys then keys else keys @ [g e]) es acc) = set acc \<union> f ` set es"
  using assms by (induction es arbitrary: acc) auto

lemma peb_ListKeys_spec:
  assumes inv: "peb_list_inv kv p" and ok: "nul_free n"
  shows "distinct (peb_ListKeys api (at_key n k0) p)"
    "set (peb_ListKeys api (at_key n k0) p) = {k. peb_lst api p n k \<noteq> []}"
proof -
  define pre where "pre = listNamespacePrefix n"
  define xs where "xs = db_Scan api (pdb p) pre (prefixUpperBound pre)"
  define dec where "dec full = take (length full - 9 - length pre) (drop (length pre) full)" for full :: bytes
  have dec_key: "dec (listEntryKey n k s) = k" for k s by (simp only: dec_def pre_def list_key_decode)
  have c: "\<not> closed p" using inv by (simp add: peb_list_inv_def)
  have xs: "set xs = {(x, v). kv (pdb p) x = Some v \<and> prefix pre x}"
    by (simp only: xs_def pre_def listNamespacePrefix_snoc prefixUpperBound_nul scan)
  have entry: "\<exists>k s. nul_free k \<and> x = listEntryKey n k s" if "(x, v) \<in> set xs" for x v
  proof -
    have x: "kv (pdb p) x = Some v" "prefix pre x" using that by (simp_all add: xs)
    then have "prefix [CHR ''l'', NUL] x" by (auto simp: pre_def listNamespacePrefix_snoc prefix_def)
    with inv x(1) obtain n' k' s where e: "nul_free n'" "nul_free k'" "x = listEntryKey n' k' s"
      by (rule list_entry_any)
    then have "n' = n" using x(2) list_ns_prefix_iff [OF ok e(1)] by (simp add: pre_def)
    then show ?thesis using e by blast
  qed
  have "peb_ListKeys api (at_key n k0) p =
      fold (\<lambda>e keys. if dec (fst e) \<in> set keys then keys else keys @ [dec (fst e)]) xs []"
    unfolding peb_ListKeys_def Let_def using c
    by (auto simp: pre_def [symmetric] xs_def [symmetric] dec_def intro!: fold_cong
        dest!: entry simp: list_key_decode [of n, folded pre_def])
  moreover note dedup_fold [of xs "\<lambda>e. dec (fst e)" "\<lambda>e. dec (fst e)" "[]"]
  moreover have "dec ` fst ` set xs = {k. peb_lst api p n k \<noteq> []}"
  proof (intro set_eqI iffI; (elim imageE)?)
    fix k x e assume "k = dec x" "x = fst e" "e \<in> set xs"
    then obtain s v where e: "e = (listEntryKey n k s, v)" "nul_free k"
      using entry [of "fst e" "snd e"] by (cases e) (auto simp: dec_key)
    then have "e \<in> set (db_Scan api (pdb p) (listPrefixBytes n k) (prefixUpperBound (listPrefixBytes n k)))"
      using \<open>e \<in> set xs\<close> by (simp add: list_scan xs list_key_prefix)
    then show "k \<in> {k. peb_lst api p n k \<noteq> []}"
      using e ok c by (auto simp: peb_lst_def peb_GetAll_def Let_def)
  next
    fix k assume "k \<in> {k. peb_lst api p n k \<noteq> []}"
    then have nk: "nul_free k" and "db_Scan api (pdb p) (listPrefixBytes n k) (prefixUpperBound (listPrefixBytes n k)) \<noteq> []"
      using c by (auto simp: peb_lst_def peb_GetAll_def Let_def split: if_splits)
    then have "set (db_Scan api (pdb p) (listPrefixBytes n k) (prefixUpperBound (listPrefixBytes n k))) \<noteq> {}"
      by simp
    then obtain x v where xv: "kv (pdb p) x = Some v" "prefix (listPrefixBytes n k) x"
      unfolding list_scan(2) by auto
    then obtain s where s: "x = listEntryKey n k s" using list_entry [OF inv] ok nk by blast
    have "(x, v) \<in> set xs" using xv s by (simp add: xs pre_def list_ns_prefix_iff [OF ok ok])
    then show "k \<in> dec ` fst ` set xs"
      using s by (force simp: dec_key)
  qed
  ultimately show "distinct (peb_ListKeys api (at_key n k0) p)"
    "set (peb_ListKeys api (at_key n k0) p) = {k. peb_lst api p n k \<noteq> []}"
    by (simp_all add: image_image)
qed

end

sublocale pebble_env \<subseteq> pl: list_state "pebble_backend api" "peb_list_inv kv" nul_free nul_free peb_room "peb_lst api"
proof unfold_locales
  fix b :: "'d PebbleBackend" and h :: StateHandle and e :: 'e and n
  assume inv: "peb_list_inv kv b"
  then have c: "\<not> closed b" by (simp add: peb_list_inv_def)
  show "peb_list_inv kv (ListState (pebble_backend api) n b) \<and>
      peb_lst api (ListState (pebble_backend api) n b) = peb_lst api b"
    using inv by (simp add: pebble_backend_def)
  assume n: "nul_free (hname h)"
  show "distinct (ls_Keys (pebble_backend api) h b) \<and>
      set (ls_Keys (pebble_backend api) h b) = {k. peb_lst api b (hname h) k \<noteq> []}"
    using peb_ListKeys_spec [OF inv n, of "hkey h"] by (simp add: pebble_backend_def)
  assume k: "nul_free (hkey h)"
  show "ls_GetAll (pebble_backend api) h b = peb_lst api b (hname h) (hkey h)"
    using n k by (simp add: pebble_backend_def peb_lst_def)
  have kv: "kv (pdb (peb_ClearList api h b)) x = Some v \<Longrightarrow> kv (pdb b) x = Some v" for x v
    using c by (auto simp: peb_ClearList_def Let_def drop_range_def split: if_splits)
  have "next_seq (peb_ClearList api h b) = next_seq b" "\<not> closed (peb_ClearList api h b)"
    using c by (simp_all add: peb_ClearList_def Let_def next_seq_def fun_eq_iff)
  then have "peb_list_inv kv (peb_ClearList api h b)"
    using inv kv by (auto simp: peb_list_inv_def dom_def)
  then show "peb_list_inv kv (ls_Clear (pebble_backend api) h b) \<and> peb_lst api (ls_Clear (pebble_backend api) h b) =
      (peb_lst api b)(hname h := (peb_lst api b (hname h))(hkey h := []))"
    using peb_ClearList_scan [OF c n k _ _ inv] c n k
    by (auto simp: pebble_backend_def peb_lst_def peb_GetAll_def fun_eq_iff Let_def peb_ClearList_def)
  assume room: "peb_room h b"
  have "peb_list_inv kv (peb_Append api h e b)"
    using append_keeps_inv [OF inv n k room] .
  then show "peb_list_inv kv (ls_Append (pebble_backend api) h e b) \<and> peb_lst api (ls_Append (pebble_backend api) h e b) =
      (peb_lst api b)(hname h := (peb_lst api b (hname h))(hkey h := peb_lst api b (hname h) (hkey h) @ [e]))"
    using peb_Append_scan [OF inv n k, of e] peb_Append_scan_other [OF c n k, of _ _ e] c n k
    by (auto simp: pebble_backend_def peb_lst_def peb_GetAll_def fun_eq_iff Let_def peb_Append_def)
qed

subsection \<open>A store that obeys the laws\<close>

text \<open>An association list, scanned in key order; a checkpoint is a copy.\<close>

fun alist_batch :: "'e batch_op \<Rightarrow> (bytes \<times> 'e) list \<Rightarrow> (bytes \<times> 'e) list" where
  "alist_batch (BDeleteRange lo hi) d = filter (\<lambda>(k, v). \<not> (lo \<le> k \<and> k < hi)) d"
| "alist_batch (BSet k v) d = map_put k v d"

definition alist_store :: "((bytes \<times> 'e) list, (bytes \<times> 'e) list, 'e) pebble" where
  "alist_store =
     \<lparr> db_Get = map_of, db_Set = map_put, db_Delete = map_del,
       db_DeleteRange = \<lambda>lo hi. filter (\<lambda>(k, v). \<not> (lo \<le> k \<and> k < hi)),
       db_Scan = \<lambda>d lo hi. sort_key fst (filter (\<lambda>(k, v). lo \<le> k \<and> k < hi) (AList.clearjunk d)),
       db_Apply = fold alist_batch, db_Checkpoint = \<lambda>d. d, db_Open = \<lambda>s. s \<rparr>"

lemma map_of_filter_range:
  "map_of (filter (\<lambda>(k, v). \<not> (lo \<le> k \<and> k < hi)) d) = drop_range lo hi (map_of d)"
  by (induction d) (auto simp: drop_range_def fun_eq_iff)

lemma alist_batch_map_of: "map_of (alist_batch b d) = batch_step b (map_of d)"
  by (cases b) (simp_all only: alist_batch.simps batch_step.simps map_of_filter_range map_of_put)

lemma alist_store_laws: "pebble_laws alist_store map_of"
  unfolding pebble_laws_def
proof (intro conjI allI)
  fix d :: "(bytes \<times> 'a) list" and lo hi bs
  define xs where "xs = filter (\<lambda>(k, v). lo \<le> k \<and> k < hi) (AList.clearjunk d)"
  have mem: "(k, v) \<in> set (AList.clearjunk d) \<longleftrightarrow> map_of d k = Some v" for k v
    by (metis distinct_clearjunk map_of_clearjunk map_of_eq_Some_iff)
  have wf: "map_wf xs" by (auto simp: xs_def distinct_clearjunk intro: distinct_map_filter)
  have "distinct (map fst (sort_key fst xs))" using wf by (metis distinct_map_visit mset_map mset_sort mset_eq_imp_distinct_iff)
  then show "sorted_wrt (<) (map fst (db_Scan alist_store d lo hi))"
    by (simp add: alist_store_def xs_def [symmetric] strict_sorted_iff)
  show "set (db_Scan alist_store d lo hi) = {(k, v). map_of d k = Some v \<and> lo \<le> k \<and> k < hi}"
    using mem by (auto simp: alist_store_def)
  show "map_of (db_DeleteRange alist_store lo hi d) = drop_range lo hi (map_of d)"
    by (simp only: alist_store_def pebble.simps map_of_filter_range)
  have "map_of (fold alist_batch bs d) = fold batch_step bs (map_of d)"
    by (induction bs arbitrary: d) (simp_all add: alist_batch_map_of)
  then show "map_of (db_Apply alist_store bs d) = fold batch_step bs (map_of d)"
    by (simp add: alist_store_def)
qed (simp_all add: alist_store_def)

interpretation alist: pebble_env alist_store map_of
  by unfold_locales (rule alist_store_laws)

subsection \<open>Properties\<close>

context pebble_env
begin

lemma value_map:
  assumes "\<not> closed p" "nul_free (hname h)" "nul_free (hname h')" "map_wf m"
  shows "peb_Get api h' (peb_Set api h e p) = (if h' = h then Some e else peb_Get api h' p)"
    "peb_Get api h' (peb_Clear api h p) = (if h' = h then None else peb_Get api h' p)"
    "map_of (peb_SnapshotAll api h p) (hkey h) = peb_Get api h p"
    "peb_Get api h' (peb_RestoreAll api h m p) =
      (if hname h' = hname h then map_of m (hkey h') else peb_Get api h' p)"
proof -
  have eq: "h' = h \<longleftrightarrow> hname h' = hname h \<and> hkey h' = hkey h" by (metis at_key_eta)
  note v = pv.get_value pv.set_value [OF assms(1,2)] pv.clear_value [OF assms(1,2)]
    pv.restore_value [OF assms(1,2,4)] pv.snapshot_value [OF assms(1,2)]
  note v = v [unfolded pebble_backend_def, simplified]
  show "peb_Get api h' (peb_Set api h e p) = (if h' = h then Some e else peb_Get api h' p)"
    "peb_Get api h' (peb_Clear api h p) = (if h' = h then None else peb_Get api h' p)"
    "map_of (peb_SnapshotAll api h p) (hkey h) = peb_Get api h p"
    "peb_Get api h' (peb_RestoreAll api h m p) =
      (if hname h' = hname h then map_of m (hkey h') else peb_Get api h' p)"
    using v assms by (simp_all add: eq)
qed

lemma append_entries:
  assumes "nul_free n" "nul_free k"
  shows "peb_list_inv kv p \<Longrightarrow> unat (next_seq p n k) + length es < 2 ^ 64 \<Longrightarrow>
    peb_list_inv kv (fold (peb_Append api (at_key n k)) es p) \<and>
    peb_lst api (fold (peb_Append api (at_key n k)) es p) =
      (peb_lst api p)(n := (peb_lst api p n)(k := peb_lst api p n k @ es))"
proof (induction es arbitrary: p)
  case (Cons e es)
  define q where "q = peb_Append api (at_key n k) e p"
  have c: "\<not> closed p" using Cons.prems(1) by (simp add: peb_list_inv_def)
  have "unat (- 1 :: 64 word) = 2 ^ 64 - 1" by (simp add: unsigned_minus_1_eq_mask mask_eq_exp_minus_1)
  then have room: "next_seq p n k < - 1" using Cons.prems(2) by (simp add: word_less_nat_alt)
  then have "1 + next_seq p n k \<noteq> 0" using max_word_wrap [of "next_seq p n k"] by (auto simp: add.commute)
  then have "unat (next_seq q n k) = Suc (unat (next_seq p n k))"
    using unatSuc [of "next_seq p n k"] next_seq_append [OF c, of "at_key n k" e n k]
    by (simp add: q_def add.commute)
  moreover have "peb_list_inv kv q" and l: "peb_lst api q = (peb_lst api p)(n := (peb_lst api p n)(k := peb_lst api p n k @ [e]))"
    using pl.append_list [OF Cons.prems(1), of "at_key n k" e] assms room
    by (simp_all add: peb_room_def pebble_backend_def q_def)
  ultimately show ?case
    using Cons.IH [of q] Cons.prems(2) by (auto simp: q_def [symmetric] fun_eq_iff)
qed simp

lemma append_GetAll:
  assumes "nul_free n" "nul_free k" "nul_free k'" "peb_list_inv kv p"
    "unat (next_seq p n k) + length es < 2 ^ 64"
  shows "peb_GetAll api (at_key n k') (fold (peb_Append api (at_key n k)) es p) =
    (if k' = k then peb_GetAll api (at_key n k) p @ es else peb_GetAll api (at_key n k') p)"
  using append_entries [OF assms(1,2,4,5), THEN conjunct2, THEN fun_cong [of _ _ n],
      THEN fun_cong [of _ _ k']] assms(1-3)
  by (simp add: peb_lst_def split: if_splits)

lemma empty_inv: "kv (pdb p) = Map.empty \<Longrightarrow> \<not> closed p \<Longrightarrow> peb_list_inv kv p"
  by (simp add: peb_list_inv_def)

lemma restore_append:
  fixes n k :: bytes and e1 e2 e3 :: 'e
  assumes "kv d = Map.empty"
  defines "p \<equiv> fold (peb_Append api (at_key n k)) [e1, e2] \<lparr> pdb = d, seqs = [], closed = False \<rparr>"
  shows "peb_GetAll api (at_key n k) (peb_Append api (at_key n k) e3
    (RestoreFrom api (db_Checkpoint api (pdb p)) p)) = [e3, e2]"
proof -
  define q where "q = peb_Append api (at_key n k) e3 (RestoreFrom api (db_Checkpoint api (pdb p)) p)"
  have kv: "kv (pdb q) = [listEntryKey n k 0 \<mapsto> e3, listEntryKey n k 1 \<mapsto> e2]" and c: "\<not> closed q"
    by (simp_all add: q_def p_def peb_Append_def RestoreFrom_def next_seq_def Let_def assms(1) list_key_prefix fun_upd_twist)
  have "db_Scan api (pdb q) (listPrefixBytes n k) (prefixUpperBound (listPrefixBytes n k)) =
      [(listEntryKey n k 0, e3), (listEntryKey n k 1, e2)]"
    by (rule list_scan_eq) (auto simp: kv list_key_prefix PutUint64_mono split: if_splits)
  then show ?thesis using c by (simp add: q_def [symmetric] peb_GetAll_def Let_def)
qed

lemma nul_key_leaks:
  assumes "kv d = Map.empty"
  shows "peb_GetAll api (at_key n k) (peb_Append api (at_key n (k @ NUL # k')) e
    \<lparr> pdb = d, seqs = [], closed = False \<rparr>) = [e]"
proof -
  define x where "x = listEntryKey n (k @ NUL # k') 0"
  have "prefix (listPrefixBytes n k) x" by (simp add: x_def listPrefixBytes_snoc listEntryKey_def)
  moreover define q where "q = db_Set api x e d"
  moreover have "kv q = [x \<mapsto> e]" by (simp add: q_def assms)
  ultimately have "db_Scan api q (listPrefixBytes n k) (prefixUpperBound (listPrefixBytes n k)) = [(x, e)]"
    by (intro list_scan_eq) (auto split: if_splits)
  then show ?thesis by (simp add: peb_GetAll_def peb_Append_def Let_def next_seq_def x_def q_def)
qed

end

text \<open>
  C16. On a lawful store the Pebble value state is a map for each namespace: a value that was set is
  read back and a cleared one is gone, no other key or namespace is disturbed, a snapshot holds the
  current entry of every key, and restoring a map replaces the namespace by it.
\<close>

theorem pebble_value_state_is_map:
  assumes "pebble_laws api kv" "\<not> closed p" "nul_free (hname h)" "nul_free (hname h')" "map_wf m"
  shows "peb_Get api h' (peb_Set api h e p) = (if h' = h then Some e else peb_Get api h' p) \<and>
    peb_Get api h' (peb_Clear api h p) = (if h' = h then None else peb_Get api h' p) \<and>
    map_of (peb_SnapshotAll api h p) (hkey h) = peb_Get api h p \<and>
    peb_Get api h' (peb_RestoreAll api h m p) =
      (if hname h' = hname h then map_of m (hkey h') else peb_Get api h' p)"
  using pebble_env.value_map [OF pebble_env.intro [OF assms(1)] assms(2-5)] by blast

definition empty_backend :: "(bytes \<times> 'e) list PebbleBackend" where
  "empty_backend = \<lparr> pdb = [], seqs = [], closed = False \<rparr>"

theorem pebble_value_state_is_map_witness:
  "peb_Get alist_store (at_key ''reduce'' ''b'')
     (peb_RestoreAll alist_store (at_key ''reduce'' ''a'') [(''b'', ''2'')] empty_backend) = Some ''2''"
  using pebble_value_state_is_map [OF alist_store_laws, of empty_backend "at_key ''reduce'' ''a''"
      "at_key ''reduce'' ''b''" "[(''b'', ''2'')]" "''1''"]
  by (simp add: empty_backend_def nul_free_def)



text \<open>
  C27. Restoring a checkpoint forgets the sequence counters: after two appends to a list, a checkpoint
  and its restore, the next append takes sequence number zero again and overwrites the first entry,
  so the list of three appended entries reads back as two.
\<close>

theorem pebble_restore_overwrites:
  assumes "pebble_laws api kv" "kv d = Map.empty"
    and "p = fold (peb_Append api (at_key n k)) [e1, e2] \<lparr> pdb = d, seqs = [], closed = False \<rparr>"
    and "CheckpointTo api p = Some snap"
  shows "peb_GetAll api (at_key n k) (peb_Append api (at_key n k) e3 (RestoreFrom api snap p)) = [e3, e2]"
proof -
  have "snap = db_Checkpoint api (pdb p)" using assms(4) by (simp add: CheckpointTo_def split: if_splits)
  then show ?thesis
    using pebble_env.restore_append [OF pebble_env.intro [OF assms(1)] assms(2), where n = n and k = k]
    by (simp only: assms(3))
qed

theorem pebble_restore_overwrites_witness:
  "peb_GetAll alist_store (at_key ''w'' ''k'')
     (peb_Append alist_store (at_key ''w'' ''k'') ''c''
       (RestoreFrom alist_store
         (pdb (fold (peb_Append alist_store (at_key ''w'' ''k'')) [''a'', ''b''] empty_backend))
         (fold (peb_Append alist_store (at_key ''w'' ''k'')) [''a'', ''b''] empty_backend))) = [''c'', ''b'']"
  by (rule pebble_restore_overwrites [OF alist_store_laws, where d = "[]"])
    (simp_all add: empty_backend_def CheckpointTo_def alist_store_def peb_Append_def Let_def)

text \<open>
  C28. A list key that contains a NUL byte leaks into the list of its prefix: the range scanned for a
  key also covers the entries of every key that continues it after a NUL.
\<close>

theorem pebble_nul_key_leaks:
  assumes "pebble_laws api kv" "kv d = Map.empty"
  shows "peb_GetAll api (at_key n k) (peb_Append api (at_key n (k @ NUL # k')) e
    \<lparr> pdb = d, seqs = [], closed = False \<rparr>) = [e]"
  by (rule pebble_env.nul_key_leaks [OF pebble_env.intro [OF assms(1)] assms(2)])

theorem pebble_nul_key_leaks_witness:
  "peb_GetAll alist_store (at_key ''w'' ''k'')
     (peb_Append alist_store (at_key ''w'' (''k'' @ NUL # ''x'')) ''e'' empty_backend) = [''e'']"
  unfolding empty_backend_def by (rule pebble_nul_key_leaks [OF alist_store_laws]) simp

end
