(* ===== verification/Reduce_Op.thy ===== *)
theory Reduce_Op
  imports Operators State_Pebble
begin

text \<open>
  \<open>operator/reduce.go\<close>: the keyed reduce. The operator is written against the state interface, so
  the model takes the record of backend operations as an argument. An abstract specification keeps
  the accumulators in a plain map; on every backend that honours the \<open>value_state\<close> contract the
  operator refines it, which is what makes the in-memory and the Pebble backend interchangeable.
  A checkpoint snapshot is the JSON document with the entries of the namespace.
\<close>

subsection \<open>State keys\<close>

definition StateKey :: "Record \<Rightarrow> bytes" where
  "StateKey r =
     (case map_of (Headers r) ''window_start'' of
        Some ws \<Rightarrow>
          (let we = (case map_of (Headers r) ''window_end'' of Some w \<Rightarrow> w | None \<Rightarrow> [])
           in Key r @ ''/'' @ ws @ ''/'' @ we)
      | None \<Rightarrow> Key r)"

definition stateKeyWindowEnd :: "bytes \<Rightarrow> gotime option" where
  "stateKeyWindowEnd sk =
     (case last_index (CHR ''/'') sk of
        None \<Rightarrow> None
      | Some lastSlash \<Rightarrow>
          (case last_index (CHR ''/'') (take lastSlash sk) of
             None \<Rightarrow> None
           | Some prevSlash \<Rightarrow>
               (case rfc3339_parse (drop (prevSlash + 1) (take lastSlash sk)) of
                  None \<Rightarrow> None
                | Some _ \<Rightarrow> rfc3339_parse (drop (lastSlash + 1) sk))))"

subsection \<open>The operator\<close>

type_synonym ReduceFn = "bytes option \<Rightarrow> Record \<Rightarrow> bytes"

record 'b ReduceOperator =
  rbackend :: 'b
  windowFrontier :: gotime

abbreviation reduceNS :: bytes where
  "reduceNS \<equiv> ''reduce''"

definition Reduce :: "'b \<Rightarrow> 'b ReduceOperator" where
  "Reduce b = \<lparr> rbackend = b, windowFrontier = zeroTime \<rparr>"

definition evictClosedWindows :: "('b, bytes) StateBackend \<Rightarrow> gotime \<Rightarrow> 'b \<Rightarrow> 'b" where
  "evictClosedWindows ops frontier b =
     (let vs = new_handle reduceNS;
          stale = filter (\<lambda>k. case stateKeyWindowEnd k of Some end \<Rightarrow> end < frontier | None \<Rightarrow> False)
                    (vs_Keys ops vs b)
      in fold (\<lambda>k. vs_Clear ops (SetKey k vs)) stale b)"

definition advanceWindowFrontier ::
  "('b, bytes) StateBackend \<Rightarrow> Record \<Rightarrow> 'b ReduceOperator \<Rightarrow> 'b ReduceOperator" where
  "advanceWindowFrontier ops r op =
     (case map_of (Headers r) ''window_end'' of
        None \<Rightarrow> op
      | Some raw \<Rightarrow>
          (case rfc3339_parse raw of
             None \<Rightarrow> op
           | Some end \<Rightarrow>
               if \<not> windowFrontier op < end then op
               else \<lparr> rbackend = evictClosedWindows ops end (rbackend op), windowFrontier = end \<rparr>))"

text \<open>A serialized snapshot, taken when a barrier passes.\<close>

definition Snapshot :: "('b, bytes) StateBackend \<Rightarrow> 'b ReduceOperator \<Rightarrow> (bytes, bytes) gomap" where
  "Snapshot ops op =
     vs_SnapshotAll ops (new_handle reduceNS) (ValueState ops reduceNS (rbackend op))"

text \<open>What survives as the text of the snapshot is read back: the map through JSON.\<close>

definition Restore ::
  "('b, bytes) StateBackend \<Rightarrow> (bytes, bytes) gomap \<Rightarrow> 'b ReduceOperator \<Rightarrow> 'b ReduceOperator" where
  "Restore ops snap op =
     op\<lparr> rbackend := vs_RestoreAll ops (new_handle reduceNS) (json_map snap)
           (ValueState ops reduceNS (rbackend op)) \<rparr>"

text \<open>One iteration of the loop: the new state, the records sent on, the snapshots reported.\<close>

definition reduce_step ::
  "('b, bytes) StateBackend \<Rightarrow> ReduceFn \<Rightarrow> Record \<Rightarrow> 'b ReduceOperator \<Rightarrow>
    'b ReduceOperator \<times> Record list \<times> (bytes \<times> (bytes, bytes) gomap) list" where
  "reduce_step ops fn r op =
     (if IsWatermark r then (op, [r], [])
      else if IsBarrier r then (op, [r], [(CheckpointID r, Snapshot ops op)])
      else (let vs = SetKey (StateKey r) (new_handle reduceNS);
                accum = vs_Get ops vs (rbackend op);
                newAccum = fn accum r;
                b' = vs_Set ops vs newAccum (rbackend op);
                result = zeroRecord\<lparr> Key := Key r, Value := newAccum, Timestamp := Timestamp r,
                           Offset := Offset r, Headers := Headers r \<rparr>
            in (advanceWindowFrontier ops r (op\<lparr> rbackend := b' \<rparr>), [result], [])))"

fun reduce_loop ::
  "('b, bytes) StateBackend \<Rightarrow> ReduceFn \<Rightarrow> Record list \<Rightarrow> 'b ReduceOperator \<Rightarrow>
    'b ReduceOperator \<times> Record list \<times> (bytes \<times> (bytes, bytes) gomap) list" where
  "reduce_loop ops fn [] op = (op, [], [])"
| "reduce_loop ops fn (r # rs) op =
     (let (op1, out1, snap1) = reduce_step ops fn r op;
          (op2, out2, snap2) = reduce_loop ops fn rs op1
      in (op2, out1 @ out2, snap1 @ snap2))"

definition Process_Reduce ::
  "('b, bytes) StateBackend \<Rightarrow> ReduceFn \<Rightarrow> Record list \<Rightarrow> 'b ReduceOperator \<Rightarrow>
    'b ReduceOperator \<times> Record list \<times> (bytes \<times> (bytes, bytes) gomap) list" where
  "Process_Reduce ops fn rs op =
     reduce_loop ops fn rs (op\<lparr> rbackend := ValueState ops reduceNS (rbackend op) \<rparr>)"

subsection \<open>The specification\<close>

record ReduceSpec =
  accums :: "bytes \<rightharpoonup> bytes"
  frontier :: gotime

definition stale_key :: "gotime \<Rightarrow> bytes \<Rightarrow> bool" where
  "stale_key f k \<longleftrightarrow> (case stateKeyWindowEnd k of Some e \<Rightarrow> e < f | None \<Rightarrow> False)"

definition record_window_end :: "Record \<Rightarrow> gotime option" where
  "record_window_end r = map_of (Headers r) ''window_end'' \<bind> rfc3339_parse"

definition spec_step :: "ReduceFn \<Rightarrow> Record \<Rightarrow> ReduceSpec \<Rightarrow> ReduceSpec \<times> Record list" where
  "spec_step fn r s =
     (if is_marker r then (s, [r])
      else (let v = fn (accums s (StateKey r)) r;
                m = (accums s)(StateKey r \<mapsto> v);
                s' = (case record_window_end r of
                        Some e \<Rightarrow>
                          if frontier s < e then \<lparr> accums = m |` {k. \<not> stale_key e k}, frontier = e \<rparr>
                          else s\<lparr> accums := m \<rparr>
                      | None \<Rightarrow> s\<lparr> accums := m \<rparr>)
            in (s', [zeroRecord\<lparr> Key := Key r, Value := v, Timestamp := Timestamp r,
                       Offset := Offset r, Headers := Headers r \<rparr>])))"

fun spec_loop :: "ReduceFn \<Rightarrow> Record list \<Rightarrow> ReduceSpec \<Rightarrow> ReduceSpec \<times> Record list" where
  "spec_loop fn [] s = (s, [])"
| "spec_loop fn (r # rs) s =
     (let (s1, out1) = spec_step fn r s; (s2, out2) = spec_loop fn rs s1 in (s2, out1 @ out2))"

definition reduce_view :: "('b \<Rightarrow> bytes \<Rightarrow> bytes \<Rightarrow> bytes option) \<Rightarrow> 'b ReduceOperator \<Rightarrow> ReduceSpec" where
  "reduce_view val op = \<lparr> accums = val (rbackend op) reduceNS, frontier = windowFrontier op \<rparr>"

text \<open>The client of the interface: the operator on any backend that keeps the contract.\<close>

locale reduce_backend = value_state ops inv ok_ns val
  for ops :: "('b, bytes) StateBackend" and inv ok_ns val +
  assumes ns_ok: "ok_ns reduceNS"
begin

lemma evict_view:
  assumes "inv b"
  shows "inv (evictClosedWindows ops f b)"
    "val (evictClosedWindows ops f b) reduceNS = val b reduceNS |` {k. \<not> stale_key f k}"
proof -
  let ?stale = "filter (stale_key f) (vs_Keys ops (new_handle reduceNS) b)"
  have e: "evictClosedWindows ops f b = fold (\<lambda>k. vs_Clear ops (at_key reduceNS k)) ?stale b"
    by (simp add: evictClosedWindows_def Let_def stale_key_def [abs_def])
  show "inv (evictClosedWindows ops f b)" using clear_keys [OF assms ns_ok] by (simp add: e)
  have "set (vs_Keys ops (new_handle reduceNS) b) = dom (val b reduceNS)"
    using keys_value [OF assms, of "new_handle reduceNS"] ns_ok by simp
  then show "val (evictClosedWindows ops f b) reduceNS = val b reduceNS |` {k. \<not> stale_key f k}"
    using clear_keys [OF assms ns_ok, of ?stale] by (auto simp: e fun_eq_iff restrict_map_def)
qed

lemma advance_view:
  assumes "inv (rbackend op)"
  shows "inv (rbackend (advanceWindowFrontier ops r op))"
    "reduce_view val (advanceWindowFrontier ops r op) =
      (case record_window_end r of
         Some e \<Rightarrow> if windowFrontier op < e
           then \<lparr> accums = val (rbackend op) reduceNS |` {k. \<not> stale_key e k}, frontier = e \<rparr>
           else reduce_view val op
       | None \<Rightarrow> reduce_view val op)"
  using assms
  by (auto simp: advanceWindowFrontier_def record_window_end_def reduce_view_def evict_view
      split: option.splits bind_splits)

lemma step_view:
  assumes "inv (rbackend op)"
  shows "inv (rbackend (fst (reduce_step ops fn r op)))"
    "(reduce_view val (fst (reduce_step ops fn r op)), fst (snd (reduce_step ops fn r op))) =
      spec_step fn r (reduce_view val op)"
proof -
  let ?h = "at_key reduceNS (StateKey r)"
  have g: "vs_Get ops ?h (rbackend op) = val (rbackend op) reduceNS (StateKey r)"
    using get_value [OF assms, of ?h] ns_ok by simp
  note s = set_value [OF assms, of ?h "fn (val (rbackend op) reduceNS (StateKey r)) r", simplified, OF ns_ok]
  note a = advance_view [of "op\<lparr> rbackend := vs_Set ops ?h (fn (val (rbackend op) reduceNS (StateKey r)) r) (rbackend op) \<rparr>",
      simplified, OF s [THEN conjunct1]]
  show "inv (rbackend (fst (reduce_step ops fn r op)))"
    using assms a(1) by (simp add: reduce_step_def g Let_def)
  show "(reduce_view val (fst (reduce_step ops fn r op)), fst (snd (reduce_step ops fn r op))) =
      spec_step fn r (reduce_view val op)"
    using a(2) s by (auto simp: reduce_step_def spec_step_def is_marker_def g Let_def reduce_view_def
        split: option.split)
qed

lemma loop_view:
  assumes "inv (rbackend op)"
  shows "inv (rbackend (fst (reduce_loop ops fn rs op))) \<and>
    (reduce_view val (fst (reduce_loop ops fn rs op)), fst (snd (reduce_loop ops fn rs op))) =
      spec_loop fn rs (reduce_view val op)"
  using assms
proof (induction rs arbitrary: op)
  case (Cons r rs)
  obtain op1 o1 s1 where st: "reduce_step ops fn r op = (op1, o1, s1)" by (cases "reduce_step ops fn r op")
  have v: "inv (rbackend op1)" "spec_step fn r (reduce_view val op) = (reduce_view val op1, o1)"
    using step_view [OF Cons.prems, of fn r] by (simp_all add: st)
  show ?case using Cons.IH [OF v(1)] v(2) by (auto simp: st split: prod.splits)
qed simp

lemma process_view:
  assumes "inv (rbackend op)"
  shows "fst (snd (Process_Reduce ops fn rs op)) = snd (spec_loop fn rs (reduce_view val op))"
    "reduce_view val (fst (Process_Reduce ops fn rs op)) = fst (spec_loop fn rs (reduce_view val op))"
proof -
  let ?op = "op\<lparr> rbackend := ValueState ops reduceNS (rbackend op) \<rparr>"
  have o: "inv (rbackend ?op)" "reduce_view val ?op = reduce_view val op"
    using open_value [OF assms ns_ok] by (simp_all add: reduce_view_def)
  show "fst (snd (Process_Reduce ops fn rs op)) = snd (spec_loop fn rs (reduce_view val op))"
    "reduce_view val (fst (Process_Reduce ops fn rs op)) = fst (spec_loop fn rs (reduce_view val op))"
    using loop_view [OF o(1), of fn rs] by (simp_all add: Process_Reduce_def o(2) prod_eq_iff)
qed

lemma restore_view:
  assumes "inv (rbackend op)" "inv (rbackend op')" "\<forall>k\<in>dom (val (rbackend op) reduceNS). valid_utf8 k"
  shows "reduce_view val (Restore ops (Snapshot ops op) op') =
    \<lparr> accums = val (rbackend op) reduceNS, frontier = windowFrontier op' \<rparr>"
proof -
  have "inv (ValueState ops reduceNS (rbackend op))" "val (ValueState ops reduceNS (rbackend op)) = val (rbackend op)"
    using open_value [OF assms(1) ns_ok] by auto
  then have s: "map_wf (Snapshot ops op)" "map_of (Snapshot ops op) = val (rbackend op) reduceNS"
    using snapshot_value [of _ "new_handle reduceNS"] ns_ok by (simp_all add: Snapshot_def)
  then have j: "map_of (json_map (Snapshot ops op)) = val (rbackend op) reduceNS" "map_wf (json_map (Snapshot ops op))"
    using json_map_valid [of "Snapshot ops op"] assms(3) by (simp_all add: keys_are_dom)
  have "inv (ValueState ops reduceNS (rbackend op'))" using open_value [OF assms(2) ns_ok] by simp
  from restore_value [OF this _ j(2), of "new_handle reduceNS"] show ?thesis
    using ns_ok j(1) by (simp add: Restore_def reduce_view_def)
qed

end

interpretation mem: reduce_backend "memory_backend ordv ordl" mem_inv "\<lambda>_. True" mem_val
  by unfold_locales simp

definition the_default :: "'a \<Rightarrow> 'a option \<Rightarrow> 'a" where
  "the_default d x = (case x of Some v \<Rightarrow> v | None \<Rightarrow> d)"

locale pebble_bytes = pebble_env api kv for api :: "('d, 's, bytes) pebble" and kv

sublocale pebble_bytes \<subseteq> pr: reduce_backend "pebble_backend api" "\<lambda>p. \<not> closed p" nul_free "peb_val kv"
  by unfold_locales (simp add: nul_free_def)

context pebble_bytes
begin

lemma process_reduce:
  "\<not> closed (rbackend op) \<Longrightarrow>
    fst (snd (Process_Reduce (pebble_backend api) fn rs op)) = snd (spec_loop fn rs (reduce_view (peb_val kv) op))"
  by (rule pr.process_view)

end

interpretation alist_bytes: pebble_bytes alist_store map_of
  by unfold_locales

subsection \<open>Facts on the specification\<close>

definition key_accum :: "ReduceFn \<Rightarrow> bytes \<Rightarrow> Record list \<Rightarrow> bytes option" where
  "key_accum fn k rs =
     foldl (\<lambda>a r. Some (fn a r)) None (filter (\<lambda>r. \<not> is_marker r \<and> StateKey r = k) rs)"

lemma spec_loop_append:
  "spec_loop fn (rs @ rs') s =
    (let (s1, out1) = spec_loop fn rs s; (s2, out2) = spec_loop fn rs' s1 in (s2, out1 @ out2))"
  by (induction rs arbitrary: s) (auto split: prod.splits)

lemma spec_loop_plain:
  assumes "\<forall>r\<in>set rs. record_window_end r = None" "accums s = Map.empty"
  shows "accums (fst (spec_loop fn rs s)) = (\<lambda>k. key_accum fn k rs)"
  using assms
proof (induction rs rule: rev_induct)
  case (snoc r rs)
  then show ?case
    by (auto simp: spec_loop_append spec_step_def key_accum_def fun_eq_iff Let_def split: prod.splits)
qed (auto simp: key_accum_def)

lemma stateKeyWindowEnd_bounds:
  assumes "in_i64 s" "in_i64 e"
  shows "stateKeyWindowEnd (k @ ''/'' @ rfc3339 s @ ''/'' @ rfc3339 e) = Some e"
proof -
  have "last_index (CHR ''/'') ((k @ ''/'' @ rfc3339 s) @ CHR ''/'' # rfc3339 e) = Some (length (k @ ''/'' @ rfc3339 s))"
    by (rule last_index_append) (rule rfc3339_no_slash)
  moreover have "last_index (CHR ''/'') (k @ CHR ''/'' # rfc3339 s) = Some (length k)"
    by (rule last_index_append) (rule rfc3339_no_slash)
  ultimately show ?thesis
    using assms by (simp add: stateKeyWindowEnd_def i64_in_calendar)
qed

subsection \<open>Properties\<close>

lemmas pebble_process = pebble_bytes.process_reduce [OF pebble_bytes.intro, OF pebble_env.intro]

lemma mem_val_new [simp]: "mem_val NewMemoryBackend n = Map.empty"
  by (simp add: mem_val_def NewMemoryBackend_def submap_def)

text \<open>
  C15. The choice of the state backend is invisible: on every input stream a reduce over the in-memory
  backend and one over an empty Pebble store emit the same records, whatever order the run time
  iterates maps in.
\<close>

theorem reduce_backend_independent:
  assumes "pebble_laws api kv" "kv d = Map.empty"
  shows "fst (snd (Process_Reduce (memory_backend ordv ordl) fn rs (Reduce NewMemoryBackend))) =
    fst (snd (Process_Reduce (pebble_backend api) fn rs (Reduce \<lparr> pdb = d, seqs = [], closed = False \<rparr>)))"
proof -
  have "reduce_view mem_val (Reduce NewMemoryBackend) =
      reduce_view (peb_val kv) (Reduce \<lparr> pdb = d, seqs = [], closed = False \<rparr>)"
    by (simp add: reduce_view_def Reduce_def peb_val_def assms(2) fun_eq_iff)
  then show ?thesis
    using mem.process_view(1) [of "Reduce NewMemoryBackend"] pebble_process [OF assms(1)]
    by (simp add: Reduce_def)
qed

theorem reduce_backend_independent_witness:
  "fst (snd (Process_Reduce (memory_backend in_order in_order) (\<lambda>a r. Value r) [NewRecord 1 ''k'' ''v'']
     (Reduce NewMemoryBackend))) =
   fst (snd (Process_Reduce (pebble_backend alist_store) (\<lambda>a r. Value r) [NewRecord 1 ''k'' ''v'']
     (Reduce empty_backend)))"
  unfolding empty_backend_def by (rule reduce_backend_independent [OF alist_store_laws]) simp




definition windowed :: "gotime \<Rightarrow> gotime \<Rightarrow> Record" where
  "windowed s e = WithHeader ''window_end'' (rfc3339 e) (WithHeader ''window_start'' (rfc3339 s) (NewRecord s ''k'' ''v''))"


text \<open>
  C31. A checkpoint of a reduce restores the accumulators: for keys that are valid UTF-8, restoring the
  snapshot of one operator into any other, on the in-memory backend, leaves exactly the
  accumulators of the first.
\<close>

theorem reduce_snapshot_roundtrip:
  assumes "mem_inv (rbackend op)" "mem_inv (rbackend op')"
    and "\<forall>k\<in>dom (mem_val (rbackend op) reduceNS). valid_utf8 k"
  shows "mem_val (rbackend (Restore (memory_backend ordv ordl) (Snapshot (memory_backend ordv ordl) op) op')) reduceNS =
    mem_val (rbackend op) reduceNS"
  using mem.restore_view [OF assms, of ordv ordl] by (simp add: reduce_view_def)

definition one_key :: "bytes MemoryBackend ReduceOperator" where
  "one_key = Reduce (mem_Set (at_key reduceNS ''k'') ''1'' NewMemoryBackend)"

theorem reduce_snapshot_roundtrip_witness:
  "mem_val (rbackend (Restore (memory_backend in_order in_order)
     (Snapshot (memory_backend in_order in_order) one_key) (Reduce NewMemoryBackend))) reduceNS =
   mem_val (rbackend one_key) reduceNS"
  by (rule reduce_snapshot_roundtrip)
    (auto simp: one_key_def Reduce_def mem_inv_def mem_val_def mem_Set_def NewMemoryBackend_def submap_def
      intro!: valid_utf8_ascii)

definition binary_keys :: "bytes MemoryBackend ReduceOperator" where
  "binary_keys = Reduce (mem_Set (at_key reduceNS [CHR 0xFF]) ''1''
     (mem_Set (at_key reduceNS [CHR 0xFE]) ''2'' NewMemoryBackend))"


end
