(* ===== verification/Window_Op.thy ===== *)
theory Window_Op
  imports Window_Assign Reduce_Op
begin

text \<open>
  \<open>operator/window.go\<close>: the window operator. Records are buffered in a list state under the printed
  window key \<open>key/start/end\<close>; a watermark fires every window whose end it has passed. A list entry
  holds the JSON text of a \<open>recordJSON\<close>; the model stores the document that text denotes, with the
  header map as it is read back. The operator is written against the state interface; \<open>None\<close> means
  that assigning a window does not return (see \<open>Window_Assign\<close>).
\<close>

subsection \<open>Record documents\<close>

record recordJSON =
  jKey :: bytes
  jValue :: bytes
  jTimestamp :: int
  jOffset :: int
  jHeaders :: "(bytes, bytes) gomap"

datatype stored = Raw bytes | Doc recordJSON

definition recordToJSON :: "Record \<Rightarrow> recordJSON" where
  "recordToJSON r = \<lparr> jKey = Key r, jValue = Value r, jTimestamp = UnixNano (Timestamp r),
     jOffset = Offset r, jHeaders = Headers r \<rparr>"

definition recordFromJSON :: "recordJSON \<Rightarrow> Record" where
  "recordFromJSON r = zeroRecord\<lparr> Key := jKey r, Value := jValue r, Timestamp := Unix0 (jTimestamp r),
     Offset := jOffset r, Headers := jHeaders r \<rparr>"

definition encodeRecordJSON :: "recordJSON \<Rightarrow> stored" where
  "encodeRecordJSON r = Doc (r\<lparr> jHeaders := json_map (jHeaders r) \<rparr>)"

definition encodeRecord :: "Record \<Rightarrow> stored" where
  "encodeRecord r = encodeRecordJSON (recordToJSON r)"

text \<open>Bytes that are not such a document leave the zero value: the error is ignored.\<close>

fun decodeRecordJSON :: "stored \<Rightarrow> recordJSON" where
  "decodeRecordJSON (Doc r) = r"
| "decodeRecordJSON (Raw b) = \<lparr> jKey = [], jValue = [], jTimestamp = 0, jOffset = 0, jHeaders = [] \<rparr>"

definition decodeRecord :: "stored \<Rightarrow> Record" where
  "decodeRecord b = recordFromJSON (decodeRecordJSON b)"

subsection \<open>Window keys\<close>

record windowKey =
  wkKey :: bytes
  wkStart :: int
  wkEnd :: int

definition toWindowKey :: "bytes \<Rightarrow> Window \<Rightarrow> windowKey" where
  "toWindowKey key win = \<lparr> wkKey = key, wkStart = UnixNano (Start win), wkEnd = UnixNano (End win) \<rparr>"

definition windowKey_String :: "windowKey \<Rightarrow> bytes" where
  "windowKey_String k = wkKey k @ ''/'' @ rfc3339 (Unix0 (wkStart k)) @ ''/'' @ rfc3339 (Unix0 (wkEnd k))"

text \<open>A failed parse leaves the zero time.\<close>

definition parse_nano :: "bytes \<Rightarrow> int" where
  "parse_nano s = UnixNano (case rfc3339_parse s of Some t \<Rightarrow> t | None \<Rightarrow> zeroTime)"

definition parseWindowKey :: "bytes \<Rightarrow> windowKey" where
  "parseWindowKey s =
     (case last_index (CHR ''/'') s of
        None \<Rightarrow> \<lparr> wkKey = [], wkStart = 0, wkEnd = 0 \<rparr>
      | Some lastSlash \<Rightarrow>
          (case last_index (CHR ''/'') (take lastSlash s) of
             None \<Rightarrow> \<lparr> wkKey = [], wkStart = 0, wkEnd = 0 \<rparr>
           | Some secondLastSlash \<Rightarrow>
               \<lparr> wkKey = take secondLastSlash s,
                 wkStart = parse_nano (drop (secondLastSlash + 1) (take lastSlash s)),
                 wkEnd = parse_nano (drop (lastSlash + 1) s) \<rparr>))"

definition tagWithWindow :: "Record \<Rightarrow> Window \<Rightarrow> Record" where
  "tagWithWindow r win =
     zeroRecord\<lparr> Key := Key r, Value := Value r, Timestamp := Timestamp r, Offset := Offset r,
       Headers := map_put ''window_end'' (rfc3339 (End win))
                    (map_put ''window_start'' (rfc3339 (Start win)) (Headers r)) \<rparr>"

subsection \<open>The operator\<close>

record 'b WindowOperator =
  wbackend :: 'b
  currentWatermark :: gotime

abbreviation windowRecordsNS :: bytes where
  "windowRecordsNS \<equiv> ''window_records''"

abbreviation windowWatermarkNS :: bytes where
  "windowWatermarkNS \<equiv> ''window_wm''"

abbreviation rec_key :: "bytes \<Rightarrow> StateHandle" where
  "rec_key k \<equiv> at_key windowRecordsNS k"

definition loadWatermark :: "('b, stored) StateBackend \<Rightarrow> 'b \<Rightarrow> gotime" where
  "loadWatermark ops b =
     (case vs_Get ops (at_key windowWatermarkNS ''wm'') (ValueState ops windowWatermarkNS b) of
        Some (Raw s) \<Rightarrow> if length s \<noteq> 8 then zeroTime else Unix0 (sint (Uint64 s))
      | _ \<Rightarrow> zeroTime)"

definition storeWatermark :: "('b, stored) StateBackend \<Rightarrow> 'b WindowOperator \<Rightarrow> 'b WindowOperator" where
  "storeWatermark ops op =
     op\<lparr> wbackend := vs_Set ops (at_key windowWatermarkNS ''wm'')
           (Raw (PutUint64 (word_of_int (UnixNano (currentWatermark op)))))
           (ValueState ops windowWatermarkNS (wbackend op)) \<rparr>"

text \<open>The scan for sessions of the key that overlap the new window: bounds, records, keys to remove.\<close>

definition session_scan ::
  "('b, stored) StateBackend \<Rightarrow> 'b \<Rightarrow> bytes \<Rightarrow> Window \<Rightarrow> bytes \<Rightarrow>
    gotime \<times> gotime \<times> stored list \<times> bytes list \<Rightarrow> gotime \<times> gotime \<times> stored list \<times> bytes list" where
  "session_scan ops b key win existingStr acc =
     (let (newStart, newEnd, mergedRecords, toRemove) = acc;
          ek = parseWindowKey existingStr; eStart = Unix0 (wkStart ek); eEnd = Unix0 (wkEnd ek)
      in if wkKey ek \<noteq> key then acc
         else if \<not> Start win < eEnd \<or> \<not> eStart < End win then acc
         else (if eStart < newStart then eStart else newStart,
               if newEnd < eEnd then eEnd else newEnd,
               mergedRecords @ ls_GetAll ops (rec_key existingStr) b,
               toRemove @ [existingStr]))"

definition assignToWindow ::
  "('b, stored) StateBackend \<Rightarrow> WindowAssigner \<Rightarrow> bytes \<Rightarrow> Window \<Rightarrow> stored \<Rightarrow> 'b \<Rightarrow> 'b" where
  "assignToWindow ops assigner key win recBytes b =
     (let wk = windowKey_String (toWindowKey key win);
          (newStart, newEnd, mergedRecords, toRemove) =
            (if IsSession assigner
             then fold (session_scan ops b key win) (ls_Keys ops (new_handle windowRecordsNS) b)
                    (Start win, End win, [], [])
             else (Start win, End win, [], []))
      in if toRemove \<noteq> []
         then (let mergedStr = windowKey_String (toWindowKey key \<lparr> Start = newStart, End = newEnd \<rparr>);
                   b1 = fold (\<lambda>oldKey. ls_Clear ops (rec_key oldKey)) toRemove b;
                   b2 = fold (ls_Append ops (rec_key mergedStr)) mergedRecords b1
               in ls_Append ops (rec_key mergedStr) recBytes b2)
         else ls_Append ops (rec_key wk) recBytes b)"

definition handleDataRecord ::
  "('b, stored) StateBackend \<Rightarrow> WindowAssigner \<Rightarrow> Record \<Rightarrow> 'b WindowOperator \<Rightarrow> 'b WindowOperator option" where
  "handleDataRecord ops assigner r op =
     (case AssignWindows assigner (Timestamp r) of
        None \<Rightarrow> None
      | Some wins \<Rightarrow>
          Some (op\<lparr> wbackend := fold (\<lambda>win. assignToWindow ops assigner (Key r) win (encodeRecord r))
                       wins (wbackend op) \<rparr>))"

text \<open>The records a window emits when it fires; with a reducer, one aggregate.\<close>

fun reduce_entries :: "ReduceFn \<Rightarrow> stored list \<Rightarrow> bytes option \<times> Record \<Rightarrow> bytes option \<times> Record" where
  "reduce_entries f [] acc = acc"
| "reduce_entries f (rb # rbs) acc =
     (let last = decodeRecord rb in reduce_entries f rbs (Some (f (fst acc) last), last))"

definition window_result :: "ReduceFn option \<Rightarrow> Window \<Rightarrow> stored list \<Rightarrow> Record list" where
  "window_result reducer win entries =
     (case reducer of
        Some f \<Rightarrow>
          if length entries > 0
          then (let (accum, last) = reduce_entries f entries (None, zeroRecord)
                in [tagWithWindow (zeroRecord\<lparr> Key := Key last, Value := the accum,
                      Timestamp := Timestamp last, Offset := Offset last, Headers := Headers last \<rparr>) win])
          else []
      | None \<Rightarrow> map (\<lambda>rb. tagWithWindow (decodeRecord rb) win) entries)"

definition key_window :: "bytes \<Rightarrow> Window" where
  "key_window keyStr = \<lparr> Start = Unix0 (wkStart (parseWindowKey keyStr)), End = Unix0 (wkEnd (parseWindowKey keyStr)) \<rparr>"

definition fireWindow ::
  "('b, stored) StateBackend \<Rightarrow> ReduceFn option \<Rightarrow> bytes \<Rightarrow> 'b \<times> Record list \<Rightarrow> 'b \<times> Record list" where
  "fireWindow ops reducer keyStr acc =
     (let (b, out) = acc; entries = ls_GetAll ops (rec_key keyStr) b
      in (ls_Clear ops (rec_key keyStr) b, out @ window_result reducer (key_window keyStr) entries))"

definition handleWatermark ::
  "('b, stored) StateBackend \<Rightarrow> ReduceFn option \<Rightarrow> Record \<Rightarrow> 'b WindowOperator \<Rightarrow> 'b WindowOperator \<times> Record list" where
  "handleWatermark ops reducer wm op =
     (let op1 = (if currentWatermark op < Timestamp wm
                 then storeWatermark ops (op\<lparr> currentWatermark := Timestamp wm \<rparr>) else op);
          closing = filter (\<lambda>k. \<not> currentWatermark op1 < End (key_window k))
                      (ls_Keys ops (new_handle windowRecordsNS) (wbackend op1));
          (b, out) = fold (fireWindow ops reducer) closing (wbackend op1, [])
      in (op1\<lparr> wbackend := b \<rparr>, out))"

definition flushRemaining ::
  "('b, stored) StateBackend \<Rightarrow> ReduceFn option \<Rightarrow> 'b WindowOperator \<Rightarrow> 'b WindowOperator \<times> Record list" where
  "flushRemaining ops reducer op =
     (let (b, out) = fold (fireWindow ops reducer) (ls_Keys ops (new_handle windowRecordsNS) (wbackend op)) (wbackend op, [])
      in (op\<lparr> wbackend := b \<rparr>, out))"

subsection \<open>Snapshot and restore\<close>

record windowOperatorSnapshotJSON =
  snapWatermark :: int
  snapWindows :: "(bytes, Window \<times> recordJSON list) gomap"

definition Snapshot_Window :: "('b, stored) StateBackend \<Rightarrow> 'b WindowOperator \<Rightarrow> windowOperatorSnapshotJSON" where
  "Snapshot_Window ops op =
     (let b = ListState ops windowRecordsNS (wbackend op)
      in \<lparr> snapWatermark = UnixNano (currentWatermark op),
           snapWindows = fold (\<lambda>keyStr m. map_put keyStr
               (key_window keyStr, map decodeRecordJSON (ls_GetAll ops (rec_key keyStr) b)) m)
             (ls_Keys ops (new_handle windowRecordsNS) b) [] \<rparr>)"

text \<open>The snapshot as it is read back, and the loop over its windows in the order of the run time.\<close>

definition Restore_Window ::
  "(bytes \<times> Window \<times> recordJSON list) range_ord \<Rightarrow> ('b, stored) StateBackend \<Rightarrow>
    windowOperatorSnapshotJSON \<Rightarrow> 'b WindowOperator \<Rightarrow> 'b WindowOperator" where
  "Restore_Window ord ops snap op =
     (let op1 = storeWatermark ops (op\<lparr> currentWatermark := Unix0 (snapWatermark snap) \<rparr>);
          b = ListState ops windowRecordsNS (wbackend op1);
          b1 = fold (\<lambda>k. ls_Clear ops (rec_key k)) (ls_Keys ops (new_handle windowRecordsNS) b) b;
          b2 = fold (\<lambda>(keyStr, ws) b. fold (\<lambda>r. ls_Append ops (rec_key keyStr) (encodeRecordJSON r)) (snd ws) b)
                 (visit ord (json_map (snapWindows snap))) b1
      in op1\<lparr> wbackend := b2 \<rparr>)"

subsection \<open>The loop\<close>

text \<open>What the \<open>select\<close> of the loop sees: a record, or the idle timer. The input ends by its close.\<close>

datatype window_event = Recv Record | TimerFire

fun window_loop ::
  "('b, stored) StateBackend \<Rightarrow> WindowAssigner \<Rightarrow> ReduceFn option \<Rightarrow> window_event list \<Rightarrow> 'b WindowOperator \<Rightarrow>
    ('b WindowOperator \<times> Record list \<times> (bytes \<times> windowOperatorSnapshotJSON) list) option" where
  "window_loop ops assigner reducer [] op =
     (let (op', out) = flushRemaining ops reducer op in Some (op', out, []))"
| "window_loop ops assigner reducer (TimerFire # es) op =
     (let (op', out) = flushRemaining ops reducer op in Some (op', out, []))"
| "window_loop ops assigner reducer (Recv r # es) op =
     (if IsWatermark r
      then (let (op1, out1) = handleWatermark ops reducer r op
            in map_option (\<lambda>(op2, out2, snaps). (op2, out1 @ out2, snaps)) (window_loop ops assigner reducer es op1))
      else if IsBarrier r
      then map_option (\<lambda>(op2, out2, snaps). (op2, r # out2, (CheckpointID r, Snapshot_Window ops op) # snaps))
             (window_loop ops assigner reducer es op)
      else if \<not> IsZero (currentWatermark op) \<and> Timestamp r < currentWatermark op
      then window_loop ops assigner reducer es op
      else (case handleDataRecord ops assigner r op of
              None \<Rightarrow> None
            | Some op1 \<Rightarrow> window_loop ops assigner reducer es op1))"

definition Process_Window ::
  "('b, stored) StateBackend \<Rightarrow> WindowAssigner \<Rightarrow> ReduceFn option \<Rightarrow> window_event list \<Rightarrow> 'b \<Rightarrow>
    ('b WindowOperator \<times> Record list \<times> (bytes \<times> windowOperatorSnapshotJSON) list) option" where
  "Process_Window ops assigner reducer es b =
     (let b1 = ListState ops windowRecordsNS b
      in window_loop ops assigner reducer es
           \<lparr> wbackend = ValueState ops windowWatermarkNS b1, currentWatermark = loadWatermark ops b1 \<rparr>)"

end
