(* ===== verification/Window_Proofs.thy ===== *)
theory Window_Proofs
  imports Window_Op
begin

text \<open>
  What the window operator guarantees on any backend with the list and value contracts: how each
  handler changes the buffers, that no accepted record is lost or duplicated, that a window fires
  once, and that the sessions of a key stay disjoint.
\<close>

subsection \<open>Window keys\<close>

lemma parse_nano_rfc3339: "in_i64 t \<Longrightarrow> parse_nano (rfc3339 t) = t"
  by (simp add: parse_nano_def i64_in_calendar UnixNano_def i64_id)

lemma parseWindowKey_String:
  assumes "in_i64 (wkStart k)" "in_i64 (wkEnd k)"
  shows "parseWindowKey (windowKey_String k) = k"
proof -
  let ?s = "rfc3339 (wkStart k)" and ?e = "rfc3339 (wkEnd k)"
  have "last_index (CHR ''/'') ((wkKey k @ ''/'' @ ?s) @ CHR ''/'' # ?e) = Some (length (wkKey k @ ''/'' @ ?s))"
    by (rule last_index_append) (rule rfc3339_no_slash)
  moreover have "last_index (CHR ''/'') (wkKey k @ CHR ''/'' # ?s) = Some (length (wkKey k))"
    by (rule last_index_append) (rule rfc3339_no_slash)
  ultimately show ?thesis
    using assms by (simp add: windowKey_String_def parseWindowKey_def Unix0_def parse_nano_rfc3339)
qed

lemma parse_toWindowKey [simp]: "parseWindowKey (windowKey_String (toWindowKey k w)) = toWindowKey k w"
  by (rule parseWindowKey_String) (simp_all add: toWindowKey_def)

lemma wkKey_toWindowKey [simp]: "wkKey (toWindowKey k w) = k"
  by (simp add: toWindowKey_def)

lemma key_window_String:
  "in_i64 (Start w) \<Longrightarrow> in_i64 (End w) \<Longrightarrow> key_window (windowKey_String (toWindowKey k w)) = w"
  by (simp add: key_window_def) (simp add: toWindowKey_def UnixNano_def Unix0_def i64_id)

subsection \<open>Counting buffered records\<close>

definition total :: "(bytes \<Rightarrow> 'e list) \<Rightarrow> 'e multiset" where
  "total f = (\<Sum>k\<in>{k. f k \<noteq> []}. mset (f k))"

lemma total_superset: "finite A \<Longrightarrow> {k. f k \<noteq> []} \<subseteq> A \<Longrightarrow> total f = (\<Sum>k\<in>A. mset (f k))"
  unfolding total_def by (rule sum.mono_neutral_left) auto

lemma total_upd:
  assumes "finite {k. f k \<noteq> []}"
  shows "total (f(k := xs)) + mset (f k) = total f + mset xs"
proof -
  let ?A = "insert k {k. f k \<noteq> []}"
  have A: "finite ?A" using assms by simp
  have f: "total f = mset (f k) + (\<Sum>j\<in>?A - {k}. mset (f j))"
    using total_superset [OF A, of f] sum.remove [OF A, of k "\<lambda>j. mset (f j)"] by (simp add: subset_insertI)
  have g: "total (f(k := xs)) = (\<Sum>j\<in>?A. mset ((f(k := xs)) j))"
    by (rule total_superset [OF A]) auto
  have "(\<Sum>j\<in>?A. mset ((f(k := xs)) j)) = mset xs + (\<Sum>j\<in>?A - {k}. mset ((f(k := xs)) j))"
    using sum.remove [OF A, of k "\<lambda>j. mset ((f(k := xs)) j)"] by simp
  also have "(\<Sum>j\<in>?A - {k}. mset ((f(k := xs)) j)) = (\<Sum>j\<in>?A - {k}. mset (f j))"
    by (rule sum.cong) auto
  finally show ?thesis using f g by simp
qed

lemma finite_upd: "finite {k. f k \<noteq> []} \<Longrightarrow> finite {k. (f(j := xs)) k \<noteq> []}"
  by (rule finite_subset [of _ "insert j {k. f k \<noteq> []}"]) auto

lemma total_append: "finite {k. f k \<noteq> []} \<Longrightarrow> total (f(k := f k @ xs)) = total f + mset xs"
  using total_upd [of f k "f k @ xs"] by (simp add: add_ac)

lemma total_clear_list:
  assumes "finite {k. f k \<noteq> []}" "distinct ks"
  shows "total (\<lambda>k. if k \<in> set ks then [] else f k) + mset (concat (map f ks)) = total f"
  using assms(2)
proof (induction ks)
  case (Cons j ks)
  let ?g = "\<lambda>k. if k \<in> set ks then [] else f k"
  have fin: "finite {k. ?g k \<noteq> []}" by (rule finite_subset [OF _ assms(1)]) auto
  have eq: "(\<lambda>k. if k \<in> set (j # ks) then [] else f k) = ?g(j := [])" by (auto simp: fun_eq_iff)
  have "?g j = f j" using Cons.prems by simp
  then have "total (?g(j := [])) + mset (f j) = total ?g" using total_upd [OF fin, of j "[]"] by simp
  moreover have "total ?g + mset (concat (map f ks)) = total f" using Cons by simp
  ultimately have "total f = mset (concat (map f ks)) + (mset (f j) + total (?g(j := [])))"
    by (simp only: add.commute)
  then show ?case unfolding eq by (simp add: add_ac del: fun_upd_apply)
qed simp

lemma total_empty [simp]: "total (\<lambda>k. []) = {#}"
  by (simp add: total_def)

subsection \<open>The scan for overlapping sessions\<close>

definition overlaps :: "bytes \<Rightarrow> Window \<Rightarrow> bytes \<Rightarrow> bool" where
  "overlaps key win k \<longleftrightarrow>
     wkKey (parseWindowKey k) = key \<and> Start win < End (key_window k) \<and> Start (key_window k) < End win"

lemma session_scan_overlaps:
  "session_scan ops b key win k (s, e, rs, ks) =
    (if overlaps key win k
     then (min s (Start (key_window k)), max e (End (key_window k)), rs @ ls_GetAll ops (rec_key k) b, ks @ [k])
     else (s, e, rs, ks))"
  by (auto simp: session_scan_def overlaps_def key_window_def Let_def min_def max_def)

lemma fold_session_scan:
  "fold (session_scan ops b key win) keys (s, e, rs, ks) =
    (let os = filter (overlaps key win) keys
     in (foldl min s (map (\<lambda>k. Start (key_window k)) os), foldl max e (map (\<lambda>k. End (key_window k)) os),
         rs @ concat (map (\<lambda>k. ls_GetAll ops (rec_key k) b) os), ks @ os))"
  by (induction keys arbitrary: s e rs ks) (auto simp: session_scan_overlaps Let_def)

lemma foldl_min_le: "foldl min (s :: int) xs \<le> s \<and> (\<forall>x\<in>set xs. foldl min s xs \<le> x) \<and> foldl min s xs \<in> insert s (set xs)"
  by (induction xs arbitrary: s) (force simp: min_def)+

lemma foldl_max_ge: "s \<le> foldl max (s :: int) xs \<and> (\<forall>x\<in>set xs. x \<le> foldl max s xs) \<and> foldl max s xs \<in> insert s (set xs)"
  by (induction xs arbitrary: s) (force simp: max_def)+

text \<open>Where the record goes: the keys to clear, the key to append to, the window of that key.\<close>

definition absorbed :: "WindowAssigner \<Rightarrow> bytes \<Rightarrow> Window \<Rightarrow> bytes list \<Rightarrow> bytes list" where
  "absorbed A key win keys = (if IsSession A then filter (overlaps key win) keys else [])"

definition merged_window :: "Window \<Rightarrow> bytes list \<Rightarrow> Window" where
  "merged_window win ks = \<lparr> Start = foldl min (Start win) (map (\<lambda>k. Start (key_window k)) ks),
     End = foldl max (End win) (map (\<lambda>k. End (key_window k)) ks) \<rparr>"

lemma merged_window_Nil [simp]: "merged_window win [] = win"
  by (simp add: merged_window_def)

lemma window_eta [simp]: "\<lparr> Start = Start w, End = End w \<rparr> = w" for w :: Window
  by simp

lemma assignToWindow_eq:
  "assignToWindow ops A key win e b =
    (let ks = absorbed A key win (ls_Keys ops (new_handle windowRecordsNS) b);
         m = windowKey_String (toWindowKey key (merged_window win ks))
     in fold (ls_Append ops (rec_key m)) (concat (map (\<lambda>k. ls_GetAll ops (rec_key k) b) ks) @ [e])
          (fold (\<lambda>k. ls_Clear ops (rec_key k)) ks b))"
  by (cases "IsSession A"; cases "filter (overlaps key win) (ls_Keys ops (new_handle windowRecordsNS) b)")
     (simp_all add: assignToWindow_def absorbed_def fold_session_scan merged_window_def Let_def)

subsection \<open>What the assigners yield\<close>

text \<open>Sizes, slides, gaps and offsets far below the range of a duration, and instants within \<open>2\<^sup>6\<^sup>2\<close> ns of 1970.\<close>

fun sound_assigner :: "WindowAssigner \<Rightarrow> bool" where
  "sound_assigner (Tumbling sz off) \<longleftrightarrow> 0 < sz \<and> sz \<le> 2 ^ 61 \<and> \<bar>off\<bar> \<le> 2 ^ 60"
| "sound_assigner (Sliding sz slide off) \<longleftrightarrow> 0 < slide \<and> slide \<le> sz \<and> sz \<le> 2 ^ 61 \<and> \<bar>off\<bar> \<le> 2 ^ 60"
| "sound_assigner (Session gap) \<longleftrightarrow> 0 < gap \<and> gap \<le> 2 ^ 61"

definition moderate :: "gotime \<Rightarrow> bool" where
  "moderate t \<longleftrightarrow> \<bar>t\<bar> \<le> 2 ^ 62"

definition live_window :: "gotime \<Rightarrow> Window \<Rightarrow> bool" where
  "live_window t w \<longleftrightarrow> in_i64 (Start w) \<and> in_i64 (End w) \<and> t < End w \<and> Start w < End w"

lemma aligned_window_live:
  assumes "moderate ts" "\<bar>off\<bar> \<le> 2 ^ 60" "0 < step" "step \<le> sz" "sz \<le> 2 ^ 61"
  shows "\<exists>s. WindowStart ts step off = Some s \<and> live_window ts (mk_window s sz)"
proof -
  define s where "s = go_quot (ts - off) step * step + off"
  have "representable ts off" using assms(1,2) by (auto simp: representable_def moderate_def in_i64_def)
  then have "WindowStart ts step off = Some s" by (simp add: WindowStart_eq [OF _ assms(3)] s_def)
  moreover have "ts - step < s" "s \<le> max ts off"
    using go_quot_mult_bounds [of "ts - off" step] go_quot_mult_bounds_neg [of "ts - off" step] assms(3)
    unfolding s_def by linarith+
  ultimately show ?thesis
    using assms by (auto simp: live_window_def in_i64_def moderate_def)
qed

lemma sound_windows:
  assumes "sound_assigner A" "moderate ts"
  shows "\<exists>ws. AssignWindows A ts = Some ws \<and> distinct ws \<and> (\<forall>w\<in>set ws. live_window ts w)"
proof (cases A)
  case (Tumbling sz off)
  then show ?thesis
    using aligned_window_live [OF assms(2), of off sz sz] assms(1) by (auto simp: AssignWindows_Tumbling_def)
next
  case (Sliding sz slide off)
  then have p: "0 < slide" "slide \<le> sz" "sz \<le> 2 ^ 61" "\<bar>off\<bar> \<le> 2 ^ 60" "in_i64 slide"
    using assms(1) by (auto simp: in_i64_def)
  obtain s where s: "WindowStart ts slide off = Some s" "live_window ts (mk_window s sz)"
    using aligned_window_live [OF assms(2) p(4,1-3)] by auto
  obtain bs ws where ws: "walk_back ts sz slide s [] = Some bs" "walk_forward ts sz slide (s + slide) bs = Some ws"
    "distinct ws" "\<And>w. w \<in> set ws \<longleftrightarrow> (\<exists>k. w = mk_window (s - k * slide) sz) \<and> contains w ts"
    using sliding_loops [OF p(1,5), of ts sz s] by metis
  have "live_window ts w" if "w \<in> set ws" for w
    using that ws(4) [of w] p assms(2) by (auto simp: live_window_def contains_def in_i64_def moderate_def)
  then show ?thesis
    using s ws by (auto simp: Sliding AssignWindows_Sliding_def)
next
  case (Session gap)
  then show ?thesis
    using assms by (auto simp: AssignWindows_Session_def live_window_def in_i64_def moderate_def)
qed

lemma zeroTime_before_i64: "in_i64 t \<Longrightarrow> zeroTime < t"
  by (simp add: in_i64_def zeroTime_def)

subsection \<open>What a window emits\<close>

text \<open>The part of a record that the JSON documents keep, and the window headers.\<close>

definition payload :: "Record \<Rightarrow> bytes \<times> bytes \<times> int \<times> int" where
  "payload r = (Key r, Value r, UnixNano (Timestamp r), Offset r)"

definition tagged :: "Window \<Rightarrow> Record \<Rightarrow> bool" where
  "tagged w r \<longleftrightarrow> map_of (Headers r) ''window_start'' = Some (rfc3339 (Start w)) \<and>
     map_of (Headers r) ''window_end'' = Some (rfc3339 (End w))"

lemma payload_codec [simp]: "payload (tagWithWindow r w) = payload r" "payload (decodeRecord (encodeRecord r)) = payload r"
  by (simp_all add: payload_def tagWithWindow_def decodeRecord_def recordFromJSON_def encodeRecord_def
      encodeRecordJSON_def recordToJSON_def zeroRecord_def UnixNano_def Unix0_def i64_id)

lemma Key_codec [simp]: "Key (decodeRecord (encodeRecord r)) = Key r"
  by (simp add: decodeRecord_def recordFromJSON_def encodeRecord_def encodeRecordJSON_def recordToJSON_def zeroRecord_def)

lemma tagWithWindow_simps [simp]: "is_data (tagWithWindow r w)" "Key (tagWithWindow r w) = Key r" "tagged w (tagWithWindow r w)"
  by (simp_all add: tagWithWindow_def is_data_def zeroRecord_def tagged_def)

lemma rfc3339_inj: "in_i64 a \<Longrightarrow> in_i64 b \<Longrightarrow> rfc3339 a = rfc3339 b \<Longrightarrow> a = b"
  using i64_in_calendar by (metis option.inject)

lemma tagged_iff:
  assumes "in_i64 (Start w)" "in_i64 (End w)" "in_i64 (Start v)" "in_i64 (End v)"
  shows "tagged v (tagWithWindow r w) \<longleftrightarrow> v = w"
proof -
  have "tagged v (tagWithWindow r w) \<longleftrightarrow> rfc3339 (Start w) = rfc3339 (Start v) \<and> rfc3339 (End w) = rfc3339 (End v)"
    by (simp add: tagged_def tagWithWindow_def)
  then show ?thesis using assms rfc3339_inj by (metis Window.equality old.unit.exhaust)
qed

lemma reduce_entries_snd: "es \<noteq> [] \<Longrightarrow> snd (reduce_entries f es acc) = decodeRecord (last es)"
  by (induction es arbitrary: acc) (auto simp: Let_def)

lemma window_result_tags:
  assumes "o' \<in> set (window_result red w es)"
  shows "\<exists>e r. e \<in> set es \<and> o' = tagWithWindow r w \<and> Key r = Key (decodeRecord e)"
proof (cases red)
  case None
  then show ?thesis using assms by (auto simp: window_result_def)
next
  case (Some f)
  then have ne: "es \<noteq> []" using assms by (auto simp: window_result_def)
  obtain acc l where red: "reduce_entries f es (None, zeroRecord) = (acc, l)" by fastforce
  then have "Key l = Key (decodeRecord (last es))"
    using reduce_entries_snd [OF ne, of f "(None, zeroRecord)"] by simp
  then show ?thesis
    using assms Some ne red last_in_set [OF ne] by (fastforce simp: window_result_def zeroRecord_def)
qed

lemma window_result_Nil [simp]: "window_result red w [] = []"
  by (simp add: window_result_def split: option.splits)

lemma window_result_data: "o' \<in> set (window_result red w es) \<Longrightarrow> is_data o'"
  using window_result_tags by fastforce

lemma key_window_in_i64 [simp]: "in_i64 (Start (key_window s))" "in_i64 (End (key_window s))"
proof -
  have "in_i64 (wkStart (parseWindowKey s)) \<and> in_i64 (wkEnd (parseWindowKey s))"
    unfolding parseWindowKey_def parse_nano_def by (auto simp: in_i64_def [of 0] split: option.split)
  then show "in_i64 (Start (key_window s))" "in_i64 (End (key_window s))"
    by (simp_all add: key_window_def Unix0_def)
qed

subsection \<open>The invariant of the buffers\<close>

text \<open>
  Every buffered list belongs to a window that is still open, is stored under the printed form of its
  key and window, and holds records of that key.
\<close>

definition wf_list :: "bytes \<Rightarrow> stored list \<Rightarrow> bool" where
  "wf_list s es \<longleftrightarrow> (\<exists>k w. s = windowKey_String (toWindowKey k w) \<and>
     (\<forall>e\<in>set es. \<exists>r. e = encodeRecord r \<and> Key r = k))"

definition wf_buffers :: "(bytes \<Rightarrow> stored list) \<Rightarrow> gotime \<Rightarrow> bool" where
  "wf_buffers f wm \<longleftrightarrow> (\<forall>s. f s \<noteq> [] \<longrightarrow> wf_list s (f s) \<and> wm < End (key_window s) \<and>
     Start (key_window s) < End (key_window s))"

definition disjoint_sessions :: "(bytes \<Rightarrow> stored list) \<Rightarrow> bool" where
  "disjoint_sessions f \<longleftrightarrow> (\<forall>s t. f s \<noteq> [] \<and> f t \<noteq> [] \<and> s \<noteq> t \<and>
     wkKey (parseWindowKey s) = wkKey (parseWindowKey t) \<longrightarrow>
     End (key_window s) \<le> Start (key_window t) \<or> End (key_window t) \<le> Start (key_window s))"

lemma wf_buffers_empty [simp]: "wf_buffers (\<lambda>_. []) wm" "disjoint_sessions (\<lambda>_. [])"
  by (simp_all add: wf_buffers_def disjoint_sessions_def)

lemma wf_buffersD:
  "wf_buffers f wm \<Longrightarrow> f s \<noteq> [] \<Longrightarrow> wf_list s (f s) \<and> wm < End (key_window s) \<and> Start (key_window s) < End (key_window s)"
  by (simp add: wf_buffers_def)

lemma wf_list_entry:
  assumes "wf_list s es" "e \<in> set es"
  shows "\<exists>r. e = encodeRecord r \<and> Key r = wkKey (parseWindowKey s)"
proof -
  obtain k w where "s = windowKey_String (toWindowKey k w)" "\<exists>r. e = encodeRecord r \<and> Key r = k"
    using assms by (auto simp: wf_list_def)
  then show ?thesis by simp
qed

lemma wf_list_key: "wf_list s es \<Longrightarrow> e \<in> set es \<Longrightarrow> Key (decodeRecord e) = wkKey (parseWindowKey s)"
  using wf_list_entry by fastforce

lemma wf_list_string:
  assumes "wf_list s es"
  shows "s = windowKey_String (toWindowKey (wkKey (parseWindowKey s)) (key_window s))"
proof -
  obtain k w where s: "s = windowKey_String (toWindowKey k w)" using assms by (auto simp: wf_list_def)
  have "toWindowKey (wkKey (parseWindowKey s)) (key_window s) = toWindowKey k w"
    unfolding s key_window_def parse_toWindowKey by (simp add: toWindowKey_def UnixNano_def Unix0_def i64_id)
  then show ?thesis using s by simp
qed

text \<open>The buffers after a record went to the key \<open>m\<close>, which absorbed the lists of \<open>ks\<close>.\<close>

definition put_window :: "bytes list \<Rightarrow> bytes \<Rightarrow> 'e \<Rightarrow> (bytes \<Rightarrow> 'e list) \<Rightarrow> bytes \<Rightarrow> 'e list" where
  "put_window ks m e f =
     (\<lambda>k. if k \<in> set ks then [] else f k)(m := (if m \<in> set ks then [] else f m) @ concat (map f ks) @ [e])"

lemma put_window_nonempty: "put_window ks m e f s \<noteq> [] \<longleftrightarrow> s = m \<or> s \<notin> set ks \<and> f s \<noteq> []"
  by (auto simp: put_window_def)

lemma put_window_wf:
  assumes wf: "wf_buffers f wm" and ks: "\<forall>k\<in>set ks. f k \<noteq> [] \<and> wkKey (parseWindowKey k) = Key r"
    and M: "live_window t M" "wm \<le> t"
  shows "wf_buffers (put_window ks (windowKey_String (toWindowKey (Key r) M)) (encodeRecord r) f) wm"
proof -
  define m where "m = windowKey_String (toWindowKey (Key r) M)"
  have kw: "key_window m = M" using M by (simp add: m_def key_window_String live_window_def)
  have pm: "wkKey (parseWindowKey m) = Key r" by (simp add: m_def)
  have entry: "\<exists>r'. e = encodeRecord r' \<and> Key r' = Key r" if "e \<in> set (f s)" "wkKey (parseWindowKey s) = Key r" for e s
    using that wf_buffersD [OF wf, of s] wf_list_entry [of s "f s" e] by fastforce
  have "\<forall>e\<in>set (put_window ks m (encodeRecord r) f m). \<exists>r'. e = encodeRecord r' \<and> Key r' = Key r"
    using entry pm ks by (auto simp: put_window_def split: if_splits)
  then have "wf_list m (put_window ks m (encodeRecord r) f m)" by (auto simp: wf_list_def m_def)
  moreover have "put_window ks m (encodeRecord r) f s = f s" if "s \<noteq> m" "s \<notin> set ks" for s
    using that by (simp add: put_window_def)
  ultimately have "wf_list s (put_window ks m (encodeRecord r) f s) \<and> wm < End (key_window s) \<and>
      Start (key_window s) < End (key_window s)" if "put_window ks m (encodeRecord r) f s \<noteq> []" for s
    using that wf_buffersD [OF wf, of s] M kw by (cases "s = m") (auto simp: put_window_nonempty live_window_def)
  then show ?thesis by (simp add: wf_buffers_def m_def)
qed

lemma merged_window_bounds:
  "Start (merged_window win ks) \<le> Start win" "End win \<le> End (merged_window win ks)"
  "k \<in> set ks \<Longrightarrow> Start (merged_window win ks) \<le> Start (key_window k)"
  "k \<in> set ks \<Longrightarrow> End (key_window k) \<le> End (merged_window win ks)"
  using foldl_min_le [of "Start win" "map (\<lambda>k. Start (key_window k)) ks"]
    foldl_max_ge [of "End win" "map (\<lambda>k. End (key_window k)) ks"]
  by (auto simp: merged_window_def)

lemma merged_window_ends:
  "Start (merged_window win ks) = Start win \<or> (\<exists>k\<in>set ks. Start (merged_window win ks) = Start (key_window k))"
  "End (merged_window win ks) = End win \<or> (\<exists>k\<in>set ks. End (merged_window win ks) = End (key_window k))"
  using foldl_min_le [of "Start win" "map (\<lambda>k. Start (key_window k)) ks"]
    foldl_max_ge [of "End win" "map (\<lambda>k. End (key_window k)) ks"]
  by (auto simp: merged_window_def)

lemma merged_window_live:
  assumes "live_window t win"
  shows "live_window t (merged_window win ks)"
proof -
  have "in_i64 (Start (merged_window win ks))" "in_i64 (End (merged_window win ks))"
    using merged_window_ends [of win ks] assms by (auto simp: live_window_def)
  then show ?thesis
    using merged_window_bounds(1,2) [where win = win and ks = ks] assms by (auto simp: live_window_def)
qed

text \<open>A window that meets neither the new one nor the absorbed ones does not meet their hull.\<close>

lemma hull_disjoint:
  assumes "\<forall>k\<in>set ks. Start win < End (key_window k) \<and> Start (key_window k) < End win"
    and "End v \<le> Start win \<or> End win \<le> Start v" "Start v < End v"
    and "\<forall>k\<in>set ks. End v \<le> Start (key_window k) \<or> End (key_window k) \<le> Start v"
    and "Start win < End win"
  shows "End v \<le> Start (merged_window win ks) \<or> End (merged_window win ks) \<le> Start v"
  using assms merged_window_ends [of win ks] by (elim disjE; fastforce)

subsection \<open>Which records the operator accepts\<close>

fun accepted :: "gotime \<Rightarrow> window_event list \<Rightarrow> Record list" where
  "accepted wm [] = []"
| "accepted wm (TimerFire # es) = []"
| "accepted wm (Recv r # es) =
     (if IsWatermark r then accepted (max wm (Timestamp r)) es
      else if IsBarrier r then accepted wm es
      else if \<not> IsZero wm \<and> Timestamp r < wm then accepted wm es
      else r # accepted wm es)"

definition moderate_events :: "window_event list \<Rightarrow> bool" where
  "moderate_events es \<longleftrightarrow> (\<forall>r. Recv r \<in> set es \<and> is_data r \<longrightarrow> moderate (Timestamp r))"

definition prefix_ok :: "(bytes \<Rightarrow> bool) \<Rightarrow> (gotime \<Rightarrow> bool) \<Rightarrow> window_event list \<Rightarrow> bool" where
  "prefix_ok P Q es \<longleftrightarrow> TimerFire \<notin> set es \<and> moderate_events es \<and>
     (\<forall>r. Recv r \<in> set es \<and> is_data r \<longrightarrow> P (Key r)) \<and> (\<forall>r. Recv r \<in> set es \<and> IsWatermark r \<longrightarrow> Q (Timestamp r))"

lemma moderate_events_Cons: "moderate_events (e # es) \<longleftrightarrow>
    (\<forall>r. e = Recv r \<and> is_data r \<longrightarrow> moderate (Timestamp r)) \<and> moderate_events es"
  by (auto simp: moderate_events_def)

text \<open>A lower bound of the ends of windows: just before the earliest moderate instant.\<close>

definition earliest :: gotime where
  "earliest = - (2 ^ 62) - 1"

lemma moderate_after_earliest: "moderate t \<Longrightarrow> earliest < t"
  by (auto simp: moderate_def earliest_def)

lemma moderate_after_zero: "moderate t \<Longrightarrow> zeroTime < t"
  by (auto simp: moderate_def zeroTime_def)

lemma accepted_after: "moderate_events es \<Longrightarrow> r \<in> set (accepted wm es) \<Longrightarrow> moderate (Timestamp r) \<and> wm \<le> Timestamp r"
proof (induction wm es rule: accepted.induct)
  case (3 wm r' es)
  show ?case
  proof (cases "is_data r'")
    case True
    then show ?thesis
      using 3 moderate_after_zero [of "Timestamp r'"]
      by (auto simp: moderate_events_Cons is_data_def IsZero_def split: if_splits)
  next
    case False
    then show ?thesis using 3 by (auto simp: moderate_events_Cons is_data_def split: if_splits)
  qed
qed simp_all

text \<open>Watermarks before the first window make no difference.\<close>

lemma accepted_early:
  "moderate_events es \<Longrightarrow> a \<le> earliest \<Longrightarrow> b \<le> earliest \<Longrightarrow> accepted a es = accepted b es"
proof (induction es arbitrary: a b)
  case (Cons e es)
  show ?case
  proof (cases e)
    case (Recv r)
    have es: "moderate_events es" using Cons.prems(1) by (simp add: moderate_events_Cons)
    have data: "is_data r \<Longrightarrow> \<not> Timestamp r < a \<and> \<not> Timestamp r < b"
      using Cons.prems moderate_after_earliest [of "Timestamp r"] by (auto simp: Recv moderate_events_Cons)
    have "accepted (max a (Timestamp r)) es = accepted (max b (Timestamp r)) es"
      using Cons.IH [OF es, of "max a (Timestamp r)" "max b (Timestamp r)"] Cons.prems(2,3)
      by (cases "Timestamp r \<le> earliest") (simp_all add: max_def)
    then show ?thesis
      using data Cons.IH [OF es Cons.prems(2,3)] Cons.prems(2,3) by (auto simp: Recv is_data_def)
  qed simp
qed simp

text \<open>The outputs of the window \<open>w\<close> of key \<open>k\<close>, and the records that belong to it.\<close>

definition from_window :: "bytes \<Rightarrow> Window \<Rightarrow> Record \<Rightarrow> bool" where
  "from_window k w r \<longleftrightarrow> is_data r \<and> Key r = k \<and> tagged w r"

definition belongs :: "WindowAssigner \<Rightarrow> bytes \<Rightarrow> Window \<Rightarrow> Record \<Rightarrow> bool" where
  "belongs A k w r \<longleftrightarrow> Key r = k \<and> w \<in> set (the (AssignWindows A (Timestamp r)))"

abbreviation buffer_key :: "bytes \<Rightarrow> Window \<Rightarrow> bytes" where
  "buffer_key k w \<equiv> windowKey_String (toWindowKey k w)"

lemma fired_from_window:
  assumes w: "in_i64 (Start w)" "in_i64 (End w)" and ks: "distinct ks" "\<forall>s\<in>set ks. wf_list s (f s)"
  shows "filter (from_window k w) (concat (map (\<lambda>s. window_result red (key_window s) (f s)) ks)) =
    (if buffer_key k w \<in> set ks then window_result red w (f (buffer_key k w)) else [])"
proof -
  have one: "filter (from_window k w) (window_result red (key_window s) (f s)) =
      (if s = buffer_key k w then window_result red w (f s) else [])" if wf: "wf_list s (f s)" for s
  proof (cases "s = buffer_key k w")
    case True
    then have kw: "key_window s = w" using w by (simp add: key_window_String)
    have "from_window k w o'" if "o' \<in> set (window_result red w (f s))" for o'
      using window_result_tags [OF that] wf_list_key [OF wf] True by (auto simp: from_window_def)
    then show ?thesis using kw True by (auto simp: filter_id_conv)
  next
    case False
    have "\<not> from_window k w o'" if o: "o' \<in> set (window_result red (key_window s) (f s))" for o'
    proof
      assume a: "from_window k w o'"
      obtain e r where er: "e \<in> set (f s)" "o' = tagWithWindow r (key_window s)" "Key r = Key (decodeRecord e)"
        using window_result_tags [OF o] by blast
      then have "wkKey (parseWindowKey s) = k" "key_window s = w"
        using a wf_list_key [OF wf] tagged_iff [of "key_window s" w r] w by (auto simp: from_window_def)
      then show False using False wf_list_string [OF wf] by simp
    qed
    then show ?thesis using False by (simp add: filter_empty_conv)
  qed
  show ?thesis
    using ks by (induction ks) (auto simp: one)
qed

definition copies :: "WindowAssigner \<Rightarrow> Record \<Rightarrow> (bytes \<times> bytes \<times> int \<times> int) multiset" where
  "copies A r = replicate_mset (length (the (AssignWindows A (Timestamp r)))) (payload r)"

lemma window_result_payloads:
  "image_mset payload (mset (filter is_data (concat (map (\<lambda>s. window_result None (key_window s) (f s)) ks)))) =
    image_mset (payload \<circ> decodeRecord) (mset (concat (map f ks)))"
  by (induction ks) (simp_all add: window_result_def multiset.map_comp comp_def filter_map)

lemma hull_keeps_disjoint:
  assumes dj: "disjoint_sessions f" and wf: "wf_buffers f wm" and win: "live_window t win"
    and ks: "set ks = {k. f k \<noteq> [] \<and> overlaps key win k}"
  shows "disjoint_sessions (put_window ks (buffer_key key (merged_window win ks)) e f)"
proof -
  let ?M = "merged_window win ks" and ?m = "buffer_key key (merged_window win ks)"
  have "live_window t ?M" by (rule merged_window_live [OF win])
  then have kw: "key_window ?m = ?M" by (simp add: key_window_String live_window_def)
  have hull: "End (key_window s) \<le> Start ?M \<or> End ?M \<le> Start (key_window s)"
    if s: "s \<notin> set ks" "f s \<noteq> []" "wkKey (parseWindowKey s) = key" for s
  proof (rule hull_disjoint)
    show "\<forall>k\<in>set ks. Start win < End (key_window k) \<and> Start (key_window k) < End win"
      unfolding ks overlaps_def by blast
    have "\<not> overlaps key win s" using s(1,2) unfolding ks by blast
    then show "End (key_window s) \<le> Start win \<or> End win \<le> Start (key_window s)"
      using s(3) unfolding overlaps_def by linarith
    show "\<forall>k\<in>set ks. End (key_window s) \<le> Start (key_window k) \<or> End (key_window k) \<le> Start (key_window s)"
    proof
      fix k assume k: "k \<in> set ks"
      then have "f k \<noteq> []" "wkKey (parseWindowKey k) = key" unfolding ks overlaps_def by blast+
      then show "End (key_window s) \<le> Start (key_window k) \<or> End (key_window k) \<le> Start (key_window s)"
        using dj s k unfolding disjoint_sessions_def by metis
    qed
  qed (use wf_buffersD [OF wf s(2)] win in \<open>simp_all add: live_window_def\<close>)
  show ?thesis
    unfolding disjoint_sessions_def put_window_nonempty
  proof (intro allI impI)
    fix s u
    assume a: "(s = ?m \<or> s \<notin> set ks \<and> f s \<noteq> []) \<and> (u = ?m \<or> u \<notin> set ks \<and> f u \<noteq> []) \<and> s \<noteq> u \<and>
      wkKey (parseWindowKey s) = wkKey (parseWindowKey u)"
    then consider "s = ?m" "u \<notin> set ks" "f u \<noteq> []" | "u = ?m" "s \<notin> set ks" "f s \<noteq> []" | "f s \<noteq> []" "f u \<noteq> []"
      by blast
    then show "End (key_window s) \<le> Start (key_window u) \<or> End (key_window u) \<le> Start (key_window s)"
    proof cases
      case 1
      then show ?thesis using hull [of u] a kw by auto
    next
      case 2
      then show ?thesis using hull [of s] a kw by auto
    next
      case 3
      then show ?thesis using dj a by (simp add: disjoint_sessions_def)
    qed
  qed
qed

definition keys_in :: "(bytes \<Rightarrow> bool) \<Rightarrow> (bytes \<Rightarrow> 'e list) \<Rightarrow> bool" where
  "keys_in P f \<longleftrightarrow> (\<forall>s. f s \<noteq> [] \<longrightarrow> P (wkKey (parseWindowKey s)))"

lemma keys_in_put_window: "keys_in P f \<Longrightarrow> P k \<Longrightarrow> keys_in P (put_window ks (buffer_key k w) e f)"
  by (auto simp: keys_in_def put_window_nonempty)

lemma buffer_key_utf8: "valid_utf8 k \<Longrightarrow> valid_utf8 (buffer_key k w)"
proof -
  have time: "valid_utf8 (rfc3339 t)" for t
    using rfc3339_chars [of t] time_char_ascii by (intro valid_utf8_ascii) (auto simp: list_all_iff)
  have "valid_utf8 ''/''" by (intro valid_utf8_ascii) simp
  then show "valid_utf8 k \<Longrightarrow> valid_utf8 (buffer_key k w)"
    unfolding windowKey_String_def wkKey_toWindowKey by (intro valid_utf8_append time)
qed

lemma wf_buffers_utf8:
  assumes "wf_buffers f wm" "keys_in valid_utf8 f" "f s \<noteq> []"
  shows "valid_utf8 s"
  using wf_list_string wf_buffersD [OF assms(1,3)] assms(2,3) buffer_key_utf8 unfolding keys_in_def by metis

lemma encode_decode_JSON: "wf_list s es \<Longrightarrow> map (encodeRecordJSON \<circ> decodeRecordJSON) es = es"
  by (intro map_idI) (auto simp: wf_list_def encodeRecord_def encodeRecordJSON_def json_map_idem)

subsection \<open>The handlers on a backend with both contracts\<close>

locale window_backend =
  value_state ops inv ok_v val + list_state_total ops inv ok_l ok_key room lst
  for ops :: "('b, stored) StateBackend" and inv ok_v val ok_l ok_key room lst +
  assumes watermark_ns: "ok_v windowWatermarkNS"
    and records_ns: "ok_l windowRecordsNS"
    and values_keep_lists: "inv b \<Longrightarrow> ok_v (hname h) \<Longrightarrow>
      lst (vs_Set ops h e b) = lst b \<and> lst (ValueState ops n b) = lst b"
    and lists_keep_values: "inv b \<Longrightarrow> ok_l (hname h) \<Longrightarrow>
      val (ls_Append ops h e b) = val b \<and> val (ls_Clear ops h b) = val b \<and> val (ListState ops n b) = val b"
begin

lemma finite_lists: "inv b \<Longrightarrow> finite {k. lst b windowRecordsNS k \<noteq> []}"
  using keys_list [of b "new_handle windowRecordsNS"] records_ns by (metis finite_set handle_simps(7))

lemma record_keys:
  "inv b \<Longrightarrow> distinct (ls_Keys ops (new_handle windowRecordsNS) b) \<and>
    set (ls_Keys ops (new_handle windowRecordsNS) b) = {k. lst b windowRecordsNS k \<noteq> []}"
  using keys_list [of b "new_handle windowRecordsNS"] records_ns by simp

lemma entries: "inv b \<Longrightarrow> ls_GetAll ops (rec_key k) b = lst b windowRecordsNS k"
  using get_list [of b "rec_key k"] records_ns any_key by simp

lemma cleared_values: "inv b \<Longrightarrow> val (fold (\<lambda>k. ls_Clear ops (rec_key k)) ks b) = val b"
proof (induction ks arbitrary: b)
  case (Cons k ks)
  then show ?case
    using clear_list [of b "rec_key k"] lists_keep_values [of b "rec_key k"] records_ns any_key by simp
qed simp

lemma appended_values: "inv b \<Longrightarrow> val (fold (ls_Append ops (rec_key k)) es b) = val b"
proof (induction es arbitrary: b)
  case (Cons e es)
  then show ?case
    using append_list [of b "rec_key k" e] lists_keep_values [of b "rec_key k"] records_ns any_key has_room by simp
qed simp

text \<open>One record in one window: the absorbed sessions are emptied into the merged one.\<close>

lemma assignToWindow_lst:
  assumes inv: "inv b"
  defines "f \<equiv> lst b windowRecordsNS"
  shows "\<exists>ks. distinct ks \<and> set ks = (if IsSession A then {k. f k \<noteq> [] \<and> overlaps key win k} else {}) \<and>
    (let b' = assignToWindow ops A key win e b
     in inv b' \<and> val b' = val b \<and>
        lst b' windowRecordsNS = put_window ks (windowKey_String (toWindowKey key (merged_window win ks))) e f)"
proof -
  define ks where "ks = absorbed A key win (ls_Keys ops (new_handle windowRecordsNS) b)"
  define m where "m = windowKey_String (toWindowKey key (merged_window win ks))"
  define b1 where "b1 = fold (\<lambda>k. ls_Clear ops (rec_key k)) ks b"
  have b1: "inv b1" "lst b1 = (lst b)(windowRecordsNS := (\<lambda>k. if k \<in> set ks then [] else f k))" "val b1 = val b"
    unfolding f_def using clear_lists [OF inv records_ns, of ks] cleared_values [OF inv, of ks] by (simp_all add: b1_def)
  have "concat (map (\<lambda>k. ls_GetAll ops (rec_key k) b) ks) = concat (map f ks)"
    by (simp add: entries [OF inv] f_def)
  then have "assignToWindow ops A key win e b = fold (ls_Append ops (rec_key m)) (concat (map f ks) @ [e]) b1"
    by (simp add: assignToWindow_eq ks_def [symmetric] m_def b1_def Let_def)
  then have "inv (assignToWindow ops A key win e b)" "val (assignToWindow ops A key win e b) = val b"
    "lst (assignToWindow ops A key win e b) windowRecordsNS =
      put_window ks m e f"
    using append_entries [OF b1(1) records_ns, of m "concat (map f ks) @ [e]"]
      appended_values [OF b1(1), of m "concat (map f ks) @ [e]"] b1 by (simp_all add: put_window_def)
  moreover have "distinct ks \<and> set ks = (if IsSession A then {k. f k \<noteq> [] \<and> overlaps key win k} else {})"
    using record_keys [OF inv] by (auto simp: ks_def absorbed_def f_def)
  ultimately show ?thesis by (intro exI [of _ ks]) (simp add: m_def Let_def)
qed

lemma assignToWindow_total:
  assumes inv: "inv b"
  shows "inv (assignToWindow ops A key win e b) \<and> val (assignToWindow ops A key win e b) = val b \<and>
    total (lst (assignToWindow ops A key win e b) windowRecordsNS) = total (lst b windowRecordsNS) + {#e#}"
proof -
  let ?f = "lst b windowRecordsNS" and ?b = "assignToWindow ops A key win e b"
  obtain ks m where ks: "distinct ks" "inv ?b" "val ?b = val b"
    "lst ?b windowRecordsNS = put_window ks m e ?f"
    using assignToWindow_lst [OF inv, of A key win e] unfolding Let_def by blast
  let ?g = "\<lambda>k. if k \<in> set ks then [] else ?f k"
  have "finite {k. ?g k \<noteq> []}" by (rule finite_subset [OF _ finite_lists [OF inv]]) auto
  from total_append [OF this, of m "concat (map ?f ks) @ [e]"]
  have "total (lst ?b windowRecordsNS) = total ?g + mset (concat (map ?f ks)) + {#e#}"
    by (simp add: ks(4) put_window_def add_ac)
  then show ?thesis
    using ks total_clear_list [OF finite_lists [OF inv] ks(1)] by simp
qed

lemma assign_all_total:
  "inv b \<Longrightarrow> inv (fold (\<lambda>win. assignToWindow ops A key win e) wins b) \<and>
    val (fold (\<lambda>win. assignToWindow ops A key win e) wins b) = val b \<and>
    total (lst (fold (\<lambda>win. assignToWindow ops A key win e) wins b) windowRecordsNS) =
      total (lst b windowRecordsNS) + replicate_mset (length wins) e"
proof (induction wins arbitrary: b)
  case (Cons w wins)
  then show ?case using assignToWindow_total [OF Cons.prems, of A key w e] by simp
qed simp

text \<open>Firing a list of windows empties exactly those and emits their results in order.\<close>

lemma fire_all:
  assumes "inv b" "distinct ks"
  shows "\<exists>b'. fold (fireWindow ops red) ks (b, out) =
      (b', out @ concat (map (\<lambda>k. window_result red (key_window k) (lst b windowRecordsNS k)) ks)) \<and>
    inv b' \<and> val b' = val b \<and> lst b' windowRecordsNS = (\<lambda>k. if k \<in> set ks then [] else lst b windowRecordsNS k)"
  using assms
proof (induction ks arbitrary: b out)
  case (Cons k ks)
  let ?b = "ls_Clear ops (rec_key k) b"
  have b: "inv ?b" "lst ?b windowRecordsNS = (lst b windowRecordsNS)(k := [])" "val ?b = val b"
    using clear_list [of b "rec_key k"] lists_keep_values [of b "rec_key k"] Cons.prems(1) records_ns any_key by simp_all
  have same: "map (\<lambda>j. window_result red (key_window j) (((lst b windowRecordsNS)(k := [])) j)) ks =
      map (\<lambda>j. window_result red (key_window j) (lst b windowRecordsNS j)) ks"
    using Cons.prems(2) by (intro map_cong) auto
  have ks: "distinct ks" "k \<notin> set ks" using Cons.prems(2) by simp_all
  obtain b' where b': "fold (fireWindow ops red) ks (?b, out @ window_result red (key_window k) (lst b windowRecordsNS k)) =
      (b', (out @ window_result red (key_window k) (lst b windowRecordsNS k)) @
        concat (map (\<lambda>j. window_result red (key_window j) (lst ?b windowRecordsNS j)) ks))"
    "inv b'" "val b' = val b" "lst b' windowRecordsNS = (\<lambda>j. if j \<in> set ks then [] else lst ?b windowRecordsNS j)"
    using Cons.IH [OF b(1) ks(1), of "out @ window_result red (key_window k) (lst b windowRecordsNS k)"] b(3) by auto
  have "lst b' windowRecordsNS = (\<lambda>j. if j \<in> set (k # ks) then [] else lst b windowRecordsNS j)"
    using b'(4) ks(2) by (auto simp: b(2))
  moreover have "fireWindow ops red k (b, out) = (?b, out @ window_result red (key_window k) (lst b windowRecordsNS k))"
    by (simp add: fireWindow_def entries [OF Cons.prems(1)])
  ultimately show ?case using b'(1-3) unfolding b(2) same by auto
qed simp

lemma storeWatermark_keeps:
  "inv (wbackend op) \<Longrightarrow> inv (wbackend (storeWatermark ops op)) \<and>
    lst (wbackend (storeWatermark ops op)) = lst (wbackend op) \<and>
    currentWatermark (storeWatermark ops op) = currentWatermark op"
  using open_value [of "wbackend op" windowWatermarkNS]
    set_value [of "ValueState ops windowWatermarkNS (wbackend op)" "at_key windowWatermarkNS ''wm''"]
    values_keep_lists [of "wbackend op" "at_key windowWatermarkNS ''wm''"]
    values_keep_lists [of "ValueState ops windowWatermarkNS (wbackend op)" "at_key windowWatermarkNS ''wm''"] watermark_ns
  by (simp add: storeWatermark_def)

lemma handleWatermark_fires:
  fixes wm :: Record
  assumes inv: "inv (wbackend op)"
  defines "f \<equiv> lst (wbackend op) windowRecordsNS" and "w \<equiv> max (currentWatermark op) (Timestamp wm)"
  shows "\<exists>ks op' out. handleWatermark ops red wm op = (op', out) \<and> distinct ks \<and>
    set ks = {k. f k \<noteq> [] \<and> End (key_window k) \<le> w} \<and>
    out = concat (map (\<lambda>k. window_result red (key_window k) (f k)) ks) \<and>
    inv (wbackend op') \<and> currentWatermark op' = w \<and>
    lst (wbackend op') windowRecordsNS = (\<lambda>k. if k \<in> set ks then [] else f k)"
proof -
  define op1 where "op1 = (if currentWatermark op < Timestamp wm
    then storeWatermark ops (op\<lparr> currentWatermark := Timestamp wm \<rparr>) else op)"
  have op1: "inv (wbackend op1)" "lst (wbackend op1) windowRecordsNS = f" "currentWatermark op1 = w"
    using storeWatermark_keeps [of "op\<lparr> currentWatermark := Timestamp wm \<rparr>"] inv
    by (auto simp: op1_def f_def w_def)
  define ks where "ks = filter (\<lambda>k. \<not> currentWatermark op1 < End (key_window k))
    (ls_Keys ops (new_handle windowRecordsNS) (wbackend op1))"
  have ks: "distinct ks" "set ks = {k. f k \<noteq> [] \<and> End (key_window k) \<le> w}"
    using record_keys [OF op1(1)] by (auto simp: ks_def op1)
  obtain b' where "fold (fireWindow ops red) ks (wbackend op1, []) =
      (b', concat (map (\<lambda>k. window_result red (key_window k) (f k)) ks))" "inv b'"
    "lst b' windowRecordsNS = (\<lambda>k. if k \<in> set ks then [] else f k)"
    unfolding op1(2) [symmetric] using fire_all [OF op1(1) ks(1), of red "[]"] by auto
  then show ?thesis
    using ks op1 by (auto simp: handleWatermark_def op1_def [symmetric] ks_def [symmetric] Let_def intro!: exI [of _ ks])
qed

lemma flushRemaining_fires:
  assumes inv: "inv (wbackend op)"
  defines "f \<equiv> lst (wbackend op) windowRecordsNS"
  shows "\<exists>ks op' out. flushRemaining ops red op = (op', out) \<and> distinct ks \<and> set ks = {k. f k \<noteq> []} \<and>
    out = concat (map (\<lambda>k. window_result red (key_window k) (f k)) ks) \<and>
    inv (wbackend op') \<and> currentWatermark op' = currentWatermark op \<and>
    lst (wbackend op') windowRecordsNS = (\<lambda>k. [])"
proof -
  define ks where "ks = ls_Keys ops (new_handle windowRecordsNS) (wbackend op)"
  have ks: "distinct ks" "set ks = {k. f k \<noteq> []}" using record_keys [OF inv] by (auto simp: ks_def f_def)
  obtain b' where b': "fold (fireWindow ops red) ks (wbackend op, []) =
      (b', concat (map (\<lambda>k. window_result red (key_window k) (f k)) ks))" "inv b'"
    "lst b' windowRecordsNS = (\<lambda>k. if k \<in> set ks then [] else f k)"
    unfolding f_def using fire_all [OF inv ks(1), of red "[]"] by auto
  have "lst b' windowRecordsNS = (\<lambda>k. [])" using b'(3) ks(2) by (auto simp: fun_eq_iff)
  then show ?thesis
    using ks b' by (auto simp: flushRemaining_def ks_def [symmetric] Let_def intro!: exI [of _ ks])
qed


text \<open>The invariant under the handlers.\<close>

lemma assignToWindow_wf:
  assumes inv: "inv b" and wf: "wf_buffers (lst b windowRecordsNS) wm" and live: "live_window t win" "wm \<le> t"
  shows "wf_buffers (lst (assignToWindow ops A (Key r) win (encodeRecord r) b) windowRecordsNS) wm"
proof -
  let ?f = "lst b windowRecordsNS" and ?b = "assignToWindow ops A (Key r) win (encodeRecord r) b"
  obtain ks where ks: "set ks = (if IsSession A then {k. ?f k \<noteq> [] \<and> overlaps (Key r) win k} else {})"
    "lst ?b windowRecordsNS = put_window ks (windowKey_String (toWindowKey (Key r) (merged_window win ks))) (encodeRecord r) ?f"
    using assignToWindow_lst [OF inv, of A "Key r" win "encodeRecord r"] unfolding Let_def by blast
  show ?thesis
    unfolding ks(2) using ks(1)
    by (intro put_window_wf [OF wf _ merged_window_live [OF live(1)] live(2)]) (auto simp: overlaps_def split: if_splits)
qed

lemma assign_all_wf:
  assumes "inv b" "wf_buffers (lst b windowRecordsNS) wm" "\<forall>w\<in>set wins. live_window t w" "wm \<le> t"
  shows "wf_buffers (lst (fold (\<lambda>win. assignToWindow ops A (Key r) win (encodeRecord r)) wins b) windowRecordsNS) wm"
  using assms(1-3)
proof (induction wins arbitrary: b)
  case (Cons w wins)
  show ?case
    using Cons.IH [of "assignToWindow ops A (Key r) w (encodeRecord r) b"] Cons.prems(3)
      assignToWindow_total [OF Cons.prems(1)] assignToWindow_wf [OF Cons.prems(1,2) _ assms(4)] by simp
qed simp

text \<open>The state of a running operator.\<close>

definition running :: "'b WindowOperator \<Rightarrow> bool" where
  "running op \<longleftrightarrow> inv (wbackend op) \<and> wf_buffers (lst (wbackend op) windowRecordsNS) (max earliest (currentWatermark op))"

lemma running_handleWatermark:
  assumes run: "running op" and w: "in_i64 (Start w)" "in_i64 (End w)"
  shows "\<exists>op' out. handleWatermark ops red wm op = (op', out) \<and> running op' \<and>
    currentWatermark op' = max (currentWatermark op) (Timestamp wm) \<and>
    filter (from_window k w) out = (if End w \<le> max (currentWatermark op) (Timestamp wm)
      then window_result red w (lst (wbackend op) windowRecordsNS (buffer_key k w)) else []) \<and>
    lst (wbackend op') windowRecordsNS = (\<lambda>s. if End (key_window s) \<le> max (currentWatermark op) (Timestamp wm)
      then [] else lst (wbackend op) windowRecordsNS s)"
proof -
  let ?f = "lst (wbackend op) windowRecordsNS" and ?t = "max (currentWatermark op) (Timestamp wm)"
  have inv: "inv (wbackend op)" and wf: "wf_buffers ?f (max earliest (currentWatermark op))" using run by (auto simp: running_def)
  obtain ks op' out where h: "handleWatermark ops red wm op = (op', out)" "distinct ks"
    "set ks = {s. ?f s \<noteq> [] \<and> End (key_window s) \<le> ?t}"
    "out = concat (map (\<lambda>s. window_result red (key_window s) (?f s)) ks)"
    "inv (wbackend op')" "currentWatermark op' = ?t"
    "lst (wbackend op') windowRecordsNS = (\<lambda>s. if s \<in> set ks then [] else ?f s)"
    using handleWatermark_fires [OF inv, of red wm] by blast
  have l: "lst (wbackend op') windowRecordsNS = (\<lambda>s. if End (key_window s) \<le> ?t then [] else ?f s)"
    using h(3,7) by (auto simp: fun_eq_iff)
  have "\<forall>s\<in>set ks. wf_list s (?f s)" using h(3) wf_buffersD [OF wf] by auto
  from fired_from_window [OF w h(2) this, of k red]
  have "filter (from_window k w) out =
      (if End w \<le> ?t then window_result red w (?f (buffer_key k w)) else [])"
    using w by (auto simp: h(3,4) key_window_String)
  moreover have "wf_buffers (lst (wbackend op') windowRecordsNS) (max earliest ?t)"
    using wf unfolding l by (auto simp: wf_buffers_def)
  ultimately show ?thesis using h l by (auto simp: running_def)
qed

lemma running_handleDataRecord:
  assumes run: "running op" and A: "sound_assigner A" and t: "moderate (Timestamp r)" "currentWatermark op \<le> Timestamp r"
  shows "\<exists>op' wins. AssignWindows A (Timestamp r) = Some wins \<and> distinct wins \<and> (\<forall>w\<in>set wins. live_window (Timestamp r) w) \<and>
    handleDataRecord ops A r op = Some op' \<and> running op' \<and> currentWatermark op' = currentWatermark op \<and>
    wbackend op' = fold (\<lambda>win. assignToWindow ops A (Key r) win (encodeRecord r)) wins (wbackend op)"
proof -
  obtain wins where wins: "AssignWindows A (Timestamp r) = Some wins" "distinct wins" "\<forall>w\<in>set wins. live_window (Timestamp r) w"
    using sound_windows [OF A t(1)] by blast
  moreover have "max earliest (currentWatermark op) \<le> Timestamp r" using t moderate_after_earliest by fastforce
  ultimately show ?thesis
    using run assign_all_total [of "wbackend op" A "Key r" "encodeRecord r" wins]
      assign_all_wf [OF _ _ wins(3), of "wbackend op" "max earliest (currentWatermark op)" A r]
    by (auto simp: handleDataRecord_def running_def)
qed

lemma running_flush:
  assumes run: "running op" and w: "in_i64 (Start w)" "in_i64 (End w)"
  shows "\<exists>op' out. flushRemaining ops red op = (op', out) \<and> running op' \<and>
    lst (wbackend op') windowRecordsNS = (\<lambda>_. []) \<and>
    filter (from_window k w) out = window_result red w (lst (wbackend op) windowRecordsNS (buffer_key k w))"
proof -
  let ?f = "lst (wbackend op) windowRecordsNS"
  have inv: "inv (wbackend op)" and wf: "wf_buffers ?f (max earliest (currentWatermark op))" using run by (auto simp: running_def)
  obtain ks op' out where h: "flushRemaining ops red op = (op', out)" "distinct ks" "set ks = {s. ?f s \<noteq> []}"
    "out = concat (map (\<lambda>s. window_result red (key_window s) (?f s)) ks)"
    "inv (wbackend op')" "lst (wbackend op') windowRecordsNS = (\<lambda>_. [])"
    using flushRemaining_fires [OF inv, of red] by blast
  have "\<forall>s\<in>set ks. wf_list s (?f s)" using h(3) wf_buffersD [OF wf] by auto
  from fired_from_window [OF w h(2) this, of k red]
  show ?thesis using h by (auto simp: running_def)
qed

text \<open>Without sessions a record is appended to the list of each of its windows.\<close>

lemma assign_all_plain:
  assumes "\<not> IsSession A" "inv b" "distinct wins" "\<forall>v\<in>set wins. in_i64 (Start v) \<and> in_i64 (End v)"
    and w: "in_i64 (Start w)" "in_i64 (End w)"
  shows "lst (fold (\<lambda>win. assignToWindow ops A key win e) wins b) windowRecordsNS (buffer_key k w) =
    lst b windowRecordsNS (buffer_key k w) @ (if key = k \<and> w \<in> set wins then [e] else [])"
  using assms(2-4)
proof (induction wins arbitrary: b)
  case (Cons v wins)
  let ?b = "assignToWindow ops A key v e b"
  have b: "inv ?b" "lst ?b windowRecordsNS = put_window [] (buffer_key key v) e (lst b windowRecordsNS)"
    using assignToWindow_lst [OF Cons.prems(1), of A key v e] assms(1) by (auto simp: Let_def)
  have "buffer_key k w = buffer_key key v \<longleftrightarrow> k = key \<and> w = v"
    using Cons.prems(3) w key_window_String
    by (metis list.set_intros(1) parse_toWindowKey wkKey_toWindowKey)
  then show ?case
    using Cons.IH [OF b(1)] Cons.prems by (auto simp: b(2) put_window_def)
qed simp

lemma loop_exact:
  assumes A: "sound_assigner A" "\<not> IsSession A" and w: "in_i64 (Start w)" "in_i64 (End w)"
  shows "running op \<Longrightarrow> moderate_events es \<Longrightarrow>
    \<exists>op' out snaps. window_loop ops A red es op = Some (op', out, snaps) \<and>
      filter (from_window k w) out = window_result red w (lst (wbackend op) windowRecordsNS (buffer_key k w) @
        map encodeRecord (filter (belongs A k w) (accepted (currentWatermark op) es)))"
proof (induction es arbitrary: op)
  case Nil
  then show ?case using running_flush [OF Nil.prems(1) w, of red k] by (auto simp: Let_def)
next
  case (Cons e es)
  let ?f = "\<lambda>op. lst (wbackend op) windowRecordsNS (buffer_key k w)"
  have es: "moderate_events es" using Cons.prems(2) by (simp add: moderate_events_Cons)
  show ?case
  proof (cases e)
    case TimerFire
    then show ?thesis using running_flush [OF Cons.prems(1) w, of red k] by (auto simp: Let_def)
  next
    case (Recv r)
    consider "IsWatermark r" | "\<not> IsWatermark r" "IsBarrier r"
      | "is_data r" "\<not> IsZero (currentWatermark op)" "Timestamp r < currentWatermark op"
      | "is_data r" "moderate (Timestamp r)" "IsZero (currentWatermark op) \<or> currentWatermark op \<le> Timestamp r"
      using Cons.prems(2) Recv by (force simp: is_data_def moderate_events_Cons)
    then show ?thesis
    proof cases
      case 1
      let ?t = "max (currentWatermark op) (Timestamp r)"
      obtain op1 out1 where h: "handleWatermark ops red r op = (op1, out1)" "running op1" "currentWatermark op1 = ?t"
        "filter (from_window k w) out1 = (if End w \<le> ?t then window_result red w (?f op) else [])"
        "?f op1 = (if End w \<le> ?t then [] else ?f op)"
        using running_handleWatermark [OF Cons.prems(1) w, of red r k] by (auto simp: key_window_String [OF w])
      obtain op2 out2 snaps where l: "window_loop ops A red es op1 = Some (op2, out2, snaps)"
        "filter (from_window k w) out2 = window_result red w (?f op1 @ map encodeRecord (filter (belongs A k w) (accepted ?t es)))"
        using Cons.IH [OF h(2) es] by (auto simp: h(3))
      have late: "filter (belongs A k w) (accepted ?t es) = []" if "End w \<le> ?t"
      proof -
        have "\<not> belongs A k w r'" if "r' \<in> set (accepted ?t es)" for r'
          using accepted_after [OF es that] sound_windows [OF A(1), of "Timestamp r'"] \<open>End w \<le> ?t\<close>
          by (fastforce simp: belongs_def live_window_def)
        then show ?thesis by (simp add: filter_empty_conv)
      qed
      have "filter (from_window k w) (out1 @ out2) = window_result red w (?f op @ map encodeRecord (filter (belongs A k w) (accepted ?t es)))"
        using h(4,5) l(2) late by (cases "End w \<le> ?t") auto
      then show ?thesis using h(1) l(1) 1 by (simp add: Recv)
    next
      case 2
      obtain op2 out2 snaps where "window_loop ops A red es op = Some (op2, out2, snaps)"
        "filter (from_window k w) out2 = window_result red w (?f op @ map encodeRecord (filter (belongs A k w) (accepted (currentWatermark op) es)))"
        using Cons.IH [OF Cons.prems(1) es] by auto
      moreover have "\<not> from_window k w r" using 2 by (simp add: from_window_def is_data_def)
      ultimately show ?thesis using 2 by (simp add: Recv)
    next
      case 3
      then show ?thesis using Cons.IH [OF Cons.prems(1) es] by (auto simp: Recv is_data_def)
    next
      case 4
      have t: "currentWatermark op \<le> Timestamp r" using 4 moderate_after_zero by (force simp: IsZero_def)
      obtain op1 wins where h: "AssignWindows A (Timestamp r) = Some wins" "distinct wins" "\<forall>w\<in>set wins. live_window (Timestamp r) w"
        "handleDataRecord ops A r op = Some op1" "running op1" "currentWatermark op1 = currentWatermark op"
        "wbackend op1 = fold (\<lambda>win. assignToWindow ops A (Key r) win (encodeRecord r)) wins (wbackend op)"
        using running_handleDataRecord [OF Cons.prems(1) A(1) 4(2) t] by blast
      have "?f op1 = ?f op @ (if belongs A k w r then [encodeRecord r] else [])"
        using assign_all_plain [OF A(2) _ h(2) _ w, of "wbackend op" "Key r" "encodeRecord r" k] h(3) Cons.prems(1)
        by (simp add: h(1,7) running_def belongs_def live_window_def)
      then show ?thesis
        using Cons.IH [OF h(5) es] 4 t by (auto simp: Recv is_data_def h(4,6))
    qed
  qed
qed

text \<open>Conservation, for every assigner.\<close>

definition held :: "'b WindowOperator \<Rightarrow> (bytes \<times> bytes \<times> int \<times> int) multiset" where
  "held op = image_mset (payload \<circ> decodeRecord) (total (lst (wbackend op) windowRecordsNS))"

lemma held_after_firing:
  assumes inv: "inv (wbackend op)" and ks: "distinct ks"
    and l: "lst (wbackend op') windowRecordsNS = (\<lambda>s. if s \<in> set ks then [] else lst (wbackend op) windowRecordsNS s)"
  shows "image_mset payload (mset (filter is_data (concat (map (\<lambda>s. window_result None (key_window s)
      (lst (wbackend op) windowRecordsNS s)) ks)))) + held op' = held op"
proof -
  let ?f = "lst (wbackend op) windowRecordsNS"
  have "held op = image_mset (payload \<circ> decodeRecord) (total (lst (wbackend op') windowRecordsNS) + mset (concat (map ?f ks)))"
    unfolding held_def l using total_clear_list [OF finite_lists [OF inv] ks] by simp
  then show ?thesis unfolding window_result_payloads by (simp add: held_def add_ac)
qed

lemma flush_conserves:
  assumes "running op"
  shows "\<exists>op' out. flushRemaining ops None op = (op', out) \<and> image_mset payload (mset (filter is_data out)) = held op"
proof -
  have inv: "inv (wbackend op)" using assms by (simp add: running_def)
  obtain ks op' out where h: "flushRemaining ops None op = (op', out)" "distinct ks"
    "set ks = {s. lst (wbackend op) windowRecordsNS s \<noteq> []}"
    "out = concat (map (\<lambda>s. window_result None (key_window s) (lst (wbackend op) windowRecordsNS s)) ks)"
    "lst (wbackend op') windowRecordsNS = (\<lambda>_. [])"
    using flushRemaining_fires [OF inv, of None] by blast
  have "lst (wbackend op') windowRecordsNS = (\<lambda>s. if s \<in> set ks then [] else lst (wbackend op) windowRecordsNS s)"
    using h(3,5) by (auto simp: fun_eq_iff)
  from held_after_firing [OF inv h(2) this] show ?thesis using h by (simp add: held_def)
qed

lemma loop_conserves:
  assumes A: "sound_assigner A"
  shows "running op \<Longrightarrow> moderate_events es \<Longrightarrow>
    \<exists>op' out snaps. window_loop ops A None es op = Some (op', out, snaps) \<and>
      image_mset payload (mset (filter is_data out)) =
        held op + sum_list (map (copies A) (accepted (currentWatermark op) es))"
proof (induction es arbitrary: op)
  case Nil
  then show ?case using flush_conserves [OF Nil.prems(1)] by (auto simp: Let_def)
next
  case (Cons e es)
  have es: "moderate_events es" using Cons.prems(2) by (simp add: moderate_events_Cons)
  have inv: "inv (wbackend op)" using Cons.prems(1) by (simp add: running_def)
  show ?case
  proof (cases e)
    case TimerFire
    then show ?thesis using flush_conserves [OF Cons.prems(1)] by (auto simp: Let_def)
  next
    case (Recv r)
    consider "IsWatermark r" | "\<not> IsWatermark r" "IsBarrier r"
      | "is_data r" "\<not> IsZero (currentWatermark op)" "Timestamp r < currentWatermark op"
      | "is_data r" "moderate (Timestamp r)" "IsZero (currentWatermark op) \<or> currentWatermark op \<le> Timestamp r"
      using Cons.prems(2) Recv by (force simp: is_data_def moderate_events_Cons)
    then show ?thesis
    proof cases
      case 1
      let ?t = "max (currentWatermark op) (Timestamp r)"
      obtain ks op1 out1 where h: "handleWatermark ops None r op = (op1, out1)" "distinct ks"
        "out1 = concat (map (\<lambda>k. window_result None (key_window k) (lst (wbackend op) windowRecordsNS k)) ks)"
        "currentWatermark op1 = ?t"
        "lst (wbackend op1) windowRecordsNS = (\<lambda>k. if k \<in> set ks then [] else lst (wbackend op) windowRecordsNS k)"
        using handleWatermark_fires [OF inv, of None r] by blast
      have "running op1" using running_handleWatermark [OF Cons.prems(1) key_window_in_i64, of None r] h(1) by auto
      then show ?thesis
        using Cons.IH [OF _ es, of op1] held_after_firing [OF inv h(2,5)] 1 h(1,3,4)
        by (auto simp: Recv add_ac)
    next
      case 2
      then show ?thesis using Cons.IH [OF Cons.prems(1) es] by (auto simp: Recv is_data_def)
    next
      case 3
      then show ?thesis using Cons.IH [OF Cons.prems(1) es] by (auto simp: Recv is_data_def)
    next
      case 4
      have t: "currentWatermark op \<le> Timestamp r" using 4 moderate_after_zero by (force simp: IsZero_def)
      obtain op1 wins where h: "AssignWindows A (Timestamp r) = Some wins"
        "handleDataRecord ops A r op = Some op1" "running op1" "currentWatermark op1 = currentWatermark op"
        "wbackend op1 = fold (\<lambda>win. assignToWindow ops A (Key r) win (encodeRecord r)) wins (wbackend op)"
        using running_handleDataRecord [OF Cons.prems(1) A 4(2) t] by blast
      have "held op1 = held op + copies A r"
        using assign_all_total [OF inv, of A "Key r" "encodeRecord r" wins]
        by (simp add: held_def h(1,5) copies_def)
      then show ?thesis
        using Cons.IH [OF h(3) es] 4 t by (auto simp: Recv is_data_def h(2,4) add_ac)
    qed
  qed
qed

text \<open>The operator in the middle of its input: the invariants, and sessions that do not meet.\<close>

definition midway :: "WindowAssigner \<Rightarrow> (bytes \<Rightarrow> bool) \<Rightarrow> (gotime \<Rightarrow> bool) \<Rightarrow> 'b WindowOperator \<Rightarrow> bool" where
  "midway A P Q op \<longleftrightarrow> running op \<and> Q (currentWatermark op) \<and> keys_in P (lst (wbackend op) windowRecordsNS) \<and>
     (IsSession A \<longrightarrow> disjoint_sessions (lst (wbackend op) windowRecordsNS))"

lemma midway_assign:
  assumes "inv b" "wf_buffers (lst b windowRecordsNS) wm" "live_window t win" "wm \<le> t" "P (Key r)"
    "keys_in P (lst b windowRecordsNS)" "IsSession A \<longrightarrow> disjoint_sessions (lst b windowRecordsNS)"
  defines "b' \<equiv> assignToWindow ops A (Key r) win (encodeRecord r) b"
  shows "inv b' \<and> wf_buffers (lst b' windowRecordsNS) wm \<and> keys_in P (lst b' windowRecordsNS) \<and>
    (IsSession A \<longrightarrow> disjoint_sessions (lst b' windowRecordsNS))"
proof -
  let ?f = "lst b windowRecordsNS"
  obtain ks where ks: "set ks = (if IsSession A then {k. ?f k \<noteq> [] \<and> overlaps (Key r) win k} else {})"
    "inv b'" "lst b' windowRecordsNS = put_window ks (buffer_key (Key r) (merged_window win ks)) (encodeRecord r) ?f"
    using assignToWindow_lst [OF assms(1), of A "Key r" win "encodeRecord r"] unfolding Let_def b'_def by blast
  have "IsSession A \<longrightarrow> disjoint_sessions (lst b' windowRecordsNS)"
    using hull_keeps_disjoint [OF _ assms(2,3)] ks(1) assms(7) unfolding ks(3) by simp
  then show ?thesis
    using ks(2) keys_in_put_window [OF assms(6,5)] assignToWindow_wf [OF assms(1-4), of A r] ks(3)
    unfolding b'_def by simp
qed

lemma midway_assign_all:
  assumes "\<forall>w\<in>set wins. live_window t w" "wm \<le> t" "P (Key r)" "inv b" "wf_buffers (lst b windowRecordsNS) wm"
    "keys_in P (lst b windowRecordsNS)" "IsSession A \<longrightarrow> disjoint_sessions (lst b windowRecordsNS)"
  defines "b' \<equiv> fold (\<lambda>win. assignToWindow ops A (Key r) win (encodeRecord r)) wins b"
  shows "inv b' \<and> wf_buffers (lst b' windowRecordsNS) wm \<and> keys_in P (lst b' windowRecordsNS) \<and>
    (IsSession A \<longrightarrow> disjoint_sessions (lst b' windowRecordsNS))"
  using assms(1,4-7) unfolding b'_def
proof (induction wins arbitrary: b)
  case (Cons w wins)
  then show ?case
    using midway_assign [OF Cons.prems(2,3) _ assms(2,3) Cons.prems(4,5), of w] by (simp add: Cons.IH)
qed simp

lemma midway_watermark:
  assumes "midway A P Q op" "Q (Timestamp wm)"
  shows "\<exists>op' out. handleWatermark ops red wm op = (op', out) \<and> midway A P Q op'"
proof -
  obtain op' out where h: "handleWatermark ops red wm op = (op', out)" "running op'"
    "currentWatermark op' = max (currentWatermark op) (Timestamp wm)"
    "lst (wbackend op') windowRecordsNS = (\<lambda>s. if End (key_window s) \<le> max (currentWatermark op) (Timestamp wm)
      then [] else lst (wbackend op) windowRecordsNS s)"
    using running_handleWatermark [OF _ key_window_in_i64, of op red wm] assms(1) unfolding midway_def by blast
  then show ?thesis
    using assms by (auto simp: max_def midway_def keys_in_def disjoint_sessions_def)
qed

text \<open>Running up to some point of the input, without the idle timer.\<close>


lemma loop_prefix:
  assumes A: "sound_assigner A"
  shows "midway A P Q op \<Longrightarrow> prefix_ok P Q es \<Longrightarrow>
    \<exists>op1 out1 snaps1. midway A P Q op1 \<and> (\<forall>(i, snap)\<in>set snaps1. \<exists>op. midway A P Q op \<and> snap = Snapshot_Window ops op) \<and>
      (\<forall>es'. window_loop ops A red (es @ es') op =
      map_option (\<lambda>(op2, out2, snaps2). (op2, out1 @ out2, snaps1 @ snaps2)) (window_loop ops A red es' op1))"
proof (induction es arbitrary: op)
  case Nil
  then show ?case by (intro exI [of _ op] exI [of _ "[]"]) (auto simp: option.map_ident case_prod_beta)
next
  case (Cons e es)
  obtain r where e: "e = Recv r" using Cons.prems(2) by (cases e) (auto simp: prefix_ok_def)
  have es: "prefix_ok P Q es" using Cons.prems(2) by (auto simp: prefix_ok_def moderate_events_Cons)
  have run: "running op" using Cons.prems(1) by (simp add: midway_def)
  consider "IsWatermark r" "Q (Timestamp r)" | "\<not> IsWatermark r" "IsBarrier r"
    | "is_data r" "\<not> IsZero (currentWatermark op)" "Timestamp r < currentWatermark op"
    | "is_data r" "moderate (Timestamp r)" "P (Key r)" "IsZero (currentWatermark op) \<or> currentWatermark op \<le> Timestamp r"
    using Cons.prems(2) e by (force simp: is_data_def prefix_ok_def moderate_events_Cons)
  then show ?case
  proof cases
    case 1
    obtain op' out where h: "handleWatermark ops red r op = (op', out)" "midway A P Q op'"
      using midway_watermark [OF Cons.prems(1) 1(2)] by blast
    obtain op1 out1 snaps1 where "midway A P Q op1"
        "\<forall>(i, snap)\<in>set snaps1. \<exists>op. midway A P Q op \<and> snap = Snapshot_Window ops op"
        "\<forall>es'. window_loop ops A red (es @ es') op' =
        map_option (\<lambda>(op2, out2, snaps2). (op2, out1 @ out2, snaps1 @ snaps2)) (window_loop ops A red es' op1)"
      using Cons.IH [OF h(2) es] by blast
    then show ?thesis
      using 1 h(1) by (intro exI [of _ op1] exI [of _ "out @ out1"] exI [of _ snaps1])
        (auto simp: e option.map_comp comp_def case_prod_beta)
  next
    case 2
    obtain op1 out1 snaps1 where "midway A P Q op1"
        "\<forall>(i, snap)\<in>set snaps1. \<exists>op. midway A P Q op \<and> snap = Snapshot_Window ops op"
        "\<forall>es'. window_loop ops A red (es @ es') op =
        map_option (\<lambda>(op2, out2, snaps2). (op2, out1 @ out2, snaps1 @ snaps2)) (window_loop ops A red es' op1)"
      using Cons.IH [OF Cons.prems(1) es] by blast
    then show ?thesis
      using 2 Cons.prems(1) by (intro exI [of _ op1] exI [of _ "r # out1"] exI [of _ "(CheckpointID r, Snapshot_Window ops op) # snaps1"])
        (auto simp: e option.map_comp comp_def case_prod_beta)
  next
    case 3
    then show ?thesis using Cons.IH [OF Cons.prems(1) es] by (simp add: e is_data_def)
  next
    case 4
    have t: "currentWatermark op \<le> Timestamp r" using 4 moderate_after_zero by (force simp: IsZero_def)
    obtain op' wins where h: "\<forall>w\<in>set wins. live_window (Timestamp r) w"
      "handleDataRecord ops A r op = Some op'" "running op'" "currentWatermark op' = currentWatermark op"
      "wbackend op' = fold (\<lambda>win. assignToWindow ops A (Key r) win (encodeRecord r)) wins (wbackend op)"
      using running_handleDataRecord [OF run A 4(2) t] by blast
    have "max earliest (currentWatermark op) \<le> Timestamp r" using t 4(2) moderate_after_earliest by fastforce
    then have "midway A P Q op'"
      using midway_assign_all [OF h(1), of "max earliest (currentWatermark op)" P r "wbackend op" A] Cons.prems(1) 4(3) h(3,4)
      by (simp add: midway_def running_def h(5))
    then show ?thesis using Cons.IH [OF _ es] 4 t h(2) by (simp add: e is_data_def)
  qed
qed

text \<open>The snapshot holds exactly the buffers, and restoring it brings them back.\<close>

lemma snapshot_windows:
  assumes "inv (wbackend op)"
  defines "f \<equiv> lst (wbackend op) windowRecordsNS"
  shows "map_wf (snapWindows (Snapshot_Window ops op)) \<and> map_of (snapWindows (Snapshot_Window ops op)) =
    (\<lambda>s. if f s = [] then None else Some (key_window s, map decodeRecordJSON (f s)))"
proof -
  let ?b = "ListState ops windowRecordsNS (wbackend op)"
  have b: "inv ?b" "lst ?b windowRecordsNS = f" using open_list [OF assms(1) records_ns] by (simp_all add: f_def)
  have fold: "map_wf m \<Longrightarrow> map_wf (fold (\<lambda>s. map_put s (g s)) ks m) \<and>
      map_of (fold (\<lambda>s. map_put s (g s)) ks m) = (\<lambda>s. if s \<in> set ks then Some (g s) else map_of m s)"
    for ks and g :: "bytes \<Rightarrow> 'x" and m
    by (induction ks arbitrary: m) (auto simp: fun_eq_iff)
  show ?thesis
    unfolding Snapshot_Window_def Let_def
    using fold [of "[]" "\<lambda>s. (key_window s, map decodeRecordJSON (ls_GetAll ops (rec_key s) ?b))"
        "ls_Keys ops (new_handle windowRecordsNS) ?b"] record_keys [OF b(1)] b(2)
    by (auto simp: entries [OF b(1)] fun_eq_iff)
qed

lemma append_windows:
  assumes "inv b" "map_wf xs"
  defines "b' \<equiv> fold (\<lambda>(s, ws) b. fold (\<lambda>r. ls_Append ops (rec_key s) (encodeRecordJSON r)) (snd ws) b) xs b"
  shows "inv b' \<and> lst b' windowRecordsNS = (\<lambda>s. lst b windowRecordsNS s @
    (case map_of xs s of None \<Rightarrow> [] | Some ws \<Rightarrow> map encodeRecordJSON (snd ws)))"
  using assms(1,2) unfolding b'_def
proof (induction xs arbitrary: b)
  case (Cons x xs)
  obtain s w rs where x: "x = (s, w, rs)" by (cases x)
  let ?b = "fold (ls_Append ops (rec_key s)) (map encodeRecordJSON rs) b"
  have b: "inv ?b" "lst ?b windowRecordsNS = (lst b windowRecordsNS)(s := lst b windowRecordsNS s @ map encodeRecordJSON rs)"
    using append_entries [OF Cons.prems(1) records_ns, of s "map encodeRecordJSON rs"] by simp_all
  have eq: "fold (\<lambda>r. ls_Append ops (rec_key s) (encodeRecordJSON r)) rs b = ?b"
    by (simp add: fold_map comp_def)
  have "map_of xs s = None" using Cons.prems(2) x by (simp add: map_of_eq_None_iff)
  then show ?case
    using Cons.IH [OF b(1)] Cons.prems(2) unfolding b(2) x by (auto simp: eq fun_eq_iff)
qed simp

lemma restore_snapshot:
  fixes ord :: "(bytes \<times> Window \<times> recordJSON list) range_ord"
  assumes run: "running op" and utf8: "keys_in valid_utf8 (lst (wbackend op) windowRecordsNS)" and inv: "inv (wbackend op0)"
  defines "op' \<equiv> Restore_Window ord ops (Snapshot_Window ops op) op0"
  shows "inv (wbackend op')" "lst (wbackend op') windowRecordsNS = lst (wbackend op) windowRecordsNS"
    "currentWatermark op' = Unix0 (UnixNano (currentWatermark op))"
proof -
  let ?f = "lst (wbackend op) windowRecordsNS" and ?m = "snapWindows (Snapshot_Window ops op)"
  have inv1: "inv (wbackend op)" and wf: "wf_buffers ?f (max earliest (currentWatermark op))" using run by (auto simp: running_def)
  note snap = snapshot_windows [OF inv1]
  define op1 where "op1 = storeWatermark ops (op0\<lparr> currentWatermark := Unix0 (snapWatermark (Snapshot_Window ops op)) \<rparr>)"
  define b where "b = ListState ops windowRecordsNS (wbackend op1)"
  define b1 where "b1 = fold (\<lambda>k. ls_Clear ops (rec_key k)) (ls_Keys ops (new_handle windowRecordsNS) b) b"
  define xs where "xs = visit ord (json_map ?m)"
  define b2 where "b2 = fold (\<lambda>(s, ws) b. fold (\<lambda>r. ls_Append ops (rec_key s) (encodeRecordJSON r)) (snd ws) b) xs b1"
  have op': "op' = op1\<lparr> wbackend := b2 \<rparr>"
    by (simp add: op'_def Restore_Window_def Let_def op1_def b_def b1_def xs_def b2_def)
  have op1: "inv (wbackend op1)" "currentWatermark op1 = Unix0 (snapWatermark (Snapshot_Window ops op))"
    using storeWatermark_keeps [of "op0\<lparr> currentWatermark := Unix0 (snapWatermark (Snapshot_Window ops op)) \<rparr>"] inv
    by (simp_all add: op1_def)
  have b: "inv b" using open_list [OF op1(1) records_ns] by (simp add: b_def)
  have b1: "inv b1" "lst b1 windowRecordsNS = (\<lambda>_. [])"
    using clear_lists [OF b records_ns, of "ls_Keys ops (new_handle windowRecordsNS) b"] record_keys [OF b]
    by (auto simp: b1_def fun_eq_iff)
  have "\<forall>s\<in>fst ` set ?m. valid_utf8 s"
    unfolding keys_are_dom using snap wf_buffers_utf8 [OF wf utf8] by (auto split: if_splits)
  note json = json_map_valid [OF conjunct1 [OF snap] this]
  have xs: "map_wf xs" "map_of xs = map_of ?m"
    using json map_of_mset_eq [of "json_map ?m" xs] by (simp_all add: xs_def)
  have "map (encodeRecordJSON \<circ> decodeRecordJSON) (?f s) = ?f s" for s
    using encode_decode_JSON wf_buffersD [OF wf, of s] by (cases "?f s = []") auto
  then have "lst b2 windowRecordsNS = ?f" "inv b2"
    using append_windows [OF b1(1) xs(1)] snap unfolding b2_def b1(2) xs(2) by (auto simp: fun_eq_iff)
  then show "inv (wbackend op')" "lst (wbackend op') windowRecordsNS = ?f"
    "currentWatermark op' = Unix0 (UnixNano (currentWatermark op))"
    using op1(2) by (simp_all add: op' Snapshot_Window_def Let_def)
qed

lemma loop_snapshots:
  assumes A: "sound_assigner A" and mid: "midway A (\<lambda>_. True) (\<lambda>_. True) op" and es: "moderate_events es"
  shows "\<exists>op' out snaps. window_loop ops A red es op = Some (op', out, snaps) \<and>
    (\<forall>(i, snap)\<in>set snaps. \<exists>op. midway A (\<lambda>_. True) (\<lambda>_. True) op \<and> snap = Snapshot_Window ops op)"
proof -
  obtain es1 es2 where split: "es = es1 @ es2" "TimerFire \<notin> set es1" "es2 = [] \<or> (\<exists>rest. es2 = TimerFire # rest)"
    using split_list_first [of TimerFire es] by (cases "TimerFire \<in> set es") auto
  have "prefix_ok (\<lambda>_. True) (\<lambda>_. True) es1"
    using es split by (auto simp: prefix_ok_def moderate_events_def)
  from loop_prefix [OF A mid this, of red] obtain op1 out1 snaps1 where
    "\<forall>(i, snap)\<in>set snaps1. \<exists>op. midway A (\<lambda>_. True) (\<lambda>_. True) op \<and> snap = Snapshot_Window ops op"
    "window_loop ops A red es op = map_option (\<lambda>(op2, out2, snaps2). (op2, out1 @ out2, snaps1 @ snaps2))
      (window_loop ops A red es2 op1)"
    unfolding split(1) by blast
  moreover obtain op2 out2 where "window_loop ops A red es2 op1 = Some (op2, out2, [])"
    using split(3) by (cases "flushRemaining ops red op1") auto
  ultimately show ?thesis by simp
qed

text \<open>A restored operator produces, window by window, what the original one goes on to produce.\<close>

lemma restored_loop:
  fixes ord :: "(bytes \<times> Window \<times> recordJSON list) range_ord"
  assumes A: "sound_assigner A" "\<not> IsSession A"
    and mid: "midway A valid_utf8 (\<lambda>t. t = zeroTime \<or> in_i64 t) op" and es: "moderate_events es" and op0: "inv (wbackend op0)"
  defines "op' \<equiv> Restore_Window ord ops (Snapshot_Window ops op) op0"
  shows "\<exists>op1 out1 snaps1 op2 out2 snaps2. window_loop ops A red es op = Some (op1, out1, snaps1) \<and>
    window_loop ops A red es op' = Some (op2, out2, snaps2) \<and>
    (\<forall>k w. in_i64 (Start w) \<and> in_i64 (End w) \<longrightarrow> filter (from_window k w) out2 = filter (from_window k w) out1)"
proof -
  let ?wm = "currentWatermark op"
  have run: "running op" "keys_in valid_utf8 (lst (wbackend op) windowRecordsNS)" "?wm = zeroTime \<or> in_i64 ?wm"
    using mid by (simp_all add: midway_def)
  note rest = restore_snapshot [OF run(1,2) op0, of ord, folded op'_def]
  have wm: "currentWatermark op' = ?wm \<or> ?wm \<le> earliest \<and> currentWatermark op' \<le> earliest"
    using run(3) UnixNano_zeroTime by (auto simp: rest(3) Unix0_UnixNano) (simp_all add: earliest_def zeroTime_def Unix0_def)
  have run': "running op'"
    using run(1) rest wm by (auto simp: running_def max_def split: if_splits)
  have acc: "accepted (currentWatermark op') es = accepted ?wm es"
    using wm accepted_early [OF es] by auto
  note exact = loop_exact [OF A _ _ run(1) es, of _ red] loop_exact [OF A _ _ run' es, of _ red]
  obtain op1 out1 snaps1 op2 out2 snaps2 where l: "window_loop ops A red es op = Some (op1, out1, snaps1)"
    "window_loop ops A red es op' = Some (op2, out2, snaps2)"
    using exact(1) [OF key_window_in_i64] exact(2) [OF key_window_in_i64] by blast
  then have "filter (from_window k w) out2 = filter (from_window k w) out1" if "in_i64 (Start w)" "in_i64 (End w)" for k w
    using exact(1) [OF that, of k] exact(2) [OF that, of k] by (simp add: rest(2) acc)
  then show ?thesis using l by blast
qed

end

subsection \<open>The in-memory backend\<close>

interpretation wmem: window_backend "memory_backend ordv ordl" mem_inv "\<lambda>_. True" mem_val
    "\<lambda>_. True" "\<lambda>_. True" "\<lambda>_ _. True" mem_lst
proof unfold_locales
  fix b :: "stored MemoryBackend" and h e n
  show "mem_lst (vs_Set (memory_backend ordv ordl) h e b) = mem_lst b \<and>
      mem_lst (ValueState (memory_backend ordv ordl) n b) = mem_lst b"
    by (simp add: mem_ops_defs mem_lst_def fun_eq_iff)
  show "mem_val (ls_Append (memory_backend ordv ordl) h e b) = mem_val b \<and>
      mem_val (ls_Clear (memory_backend ordv ordl) h b) = mem_val b \<and>
      mem_val (ListState (memory_backend ordv ordl) n b) = mem_val b"
    by (simp add: mem_ops_defs mem_val_def fun_eq_iff Let_def split: option.splits)
qed simp_all

definition fresh_window :: "stored MemoryBackend WindowOperator" where
  "fresh_window = \<lparr> wbackend = mem_ValueState windowWatermarkNS (mem_ListState windowRecordsNS NewMemoryBackend),
     currentWatermark = zeroTime \<rparr>"

lemma Process_fresh:
  "Process_Window (memory_backend ordv ordl) A red es NewMemoryBackend =
    window_loop (memory_backend ordv ordl) A red es fresh_window"
  by (simp add: Process_Window_def fresh_window_def loadWatermark_def mem_ops_defs NewMemoryBackend_def)

lemma fresh_lists: "mem_inv (wbackend fresh_window)" "mem_lst (wbackend fresh_window) n = (\<lambda>_. [])"
  "currentWatermark fresh_window = zeroTime"
  by (auto simp: fresh_window_def mem_inv_def mem_lst_def mem_ops_defs NewMemoryBackend_def submap_def fun_eq_iff)

lemma fresh_midway: "Q zeroTime \<Longrightarrow> wmem.midway A P Q fresh_window" "wmem.running fresh_window"
  by (simp_all add: wmem.midway_def wmem.running_def fresh_lists keys_in_def)

subsection \<open>Properties\<close>

text \<open>
  C34. Window keys round-trip: the printed form \<open>key/start/end\<close> of a window key whose bounds are
  64-bit instants parses back to it, whatever bytes the key holds, slashes included.
\<close>

theorem window_key_roundtrip:
  assumes "in_i64 (wkStart k)" "in_i64 (wkEnd k)"
  shows "parseWindowKey (windowKey_String k) = k"
  using parseWindowKey_String [OF assms] .

theorem window_key_roundtrip_witness:
  "parseWindowKey (windowKey_String \<lparr> wkKey = ''a/b'', wkStart = 60, wkEnd = 120 \<rparr>) =
    \<lparr> wkKey = ''a/b'', wkStart = 60, wkEnd = 120 \<rparr>"
  by (rule window_key_roundtrip) (simp_all add: in_i64_def)

text \<open>
  C3. Each window of each key fires once, with exactly its records. For tumbling and sliding windows
  the operator returns on every stream of records, watermarks and barriers, and the output records
  that carry the key and the window are the result (the records themselves, or the one aggregate of
  the reducer) for the records of that key that were not late and belong to the window, in their
  order of arrival, whatever the iteration order of the backend's maps.
\<close>

theorem window_fires_once_with_its_records:
  assumes "sound_assigner A" "\<not> IsSession A" "in_i64 (Start w)" "in_i64 (End w)" "moderate_events es"
  shows "\<exists>op out snaps. Process_Window (memory_backend ordv ordl) A red es NewMemoryBackend = Some (op, out, snaps) \<and>
    filter (from_window k w) out =
      window_result red w (map encodeRecord (filter (belongs A k w) (accepted zeroTime es)))"
  using wmem.loop_exact [OF assms(1-4) fresh_midway(2) assms(5), of ordv ordl red k]
  by (simp add: Process_fresh fresh_lists)

definition two_events :: "window_event list" where
  "two_events = [Recv (NewRecord 5 ''a'' ''1''), Recv (NewRecord 7 ''a'' ''2''), Recv (NewWatermark 10), Recv (NewRecord 6 ''a'' ''3'')]"

lemma two_events_moderate: "moderate_events two_events"
  by (auto simp: moderate_events_def two_events_def moderate_def NewRecord_def NewWatermark_def zeroRecord_def is_data_def)

theorem window_fires_once_with_its_records_witness:
  "\<exists>op out snaps. Process_Window (memory_backend in_order in_order) (Tumbling 10 0) None two_events NewMemoryBackend =
      Some (op, out, snaps) \<and> filter (from_window ''a'' \<lparr> Start = 0, End = 10 \<rparr>) out =
      window_result None \<lparr> Start = 0, End = 10 \<rparr> (map encodeRecord (filter (belongs (Tumbling 10 0) ''a'' \<lparr> Start = 0, End = 10 \<rparr>)
        (accepted zeroTime two_events)))"
  by (rule window_fires_once_with_its_records) (simp_all add: in_i64_def two_events_moderate)

text \<open>
  C9. No accepted record is lost or duplicated, for every kind of window, sessions included: without
  a reducer the operator returns, and the key, value, timestamp and offset of its output records are,
  as a multiset, those of the records that were not late, each once per window it is assigned to.
\<close>

theorem window_conserves_records:
  assumes "sound_assigner A" "moderate_events es"
  shows "\<exists>op out snaps. Process_Window (memory_backend ordv ordl) A None es NewMemoryBackend = Some (op, out, snaps) \<and>
    image_mset payload (mset (filter is_data out)) = sum_list (map (copies A) (accepted zeroTime es))"
  using wmem.loop_conserves [OF assms(1) fresh_midway(2) assms(2), of ordv ordl]
  by (simp add: Process_fresh fresh_lists wmem.held_def)

theorem window_conserves_records_witness:
  "\<exists>op out snaps. Process_Window (memory_backend in_order in_order) (Session 4) None two_events NewMemoryBackend =
      Some (op, out, snaps) \<and>
    image_mset payload (mset (filter is_data out)) = sum_list (map (copies (Session 4)) (accepted zeroTime two_events))"
  by (rule window_conserves_records) (simp_all add: two_events_moderate)





end
