(* ===== verification/Pipeline_Stages.thy ===== *)
theory Pipeline_Stages
  imports Operators "HOL-Library.Sublist"
begin

text \<open>
  The execution stages of the package \<open>pipeline\<close>: the stateless stage (\<open>stateless_stage.go\<close>) with
  its fused operator chain and its round-robin dispatcher, the router of the keyed stage
  (\<open>keyed_stage.go\<close>) and \<open>alignedMerge\<close> (\<open>markers.go\<close>). The merge is a step relation: each
  step is one send of a worker's forwarding goroutine into the shared channel or one iteration of
  the merge loop, in any interleaving. A forced shutdown (the cancellation of \<open>hardCtx\<close>) and the
  metrics are not modelled.
\<close>

subsection \<open>The stateless worker\<close>

fun chain_ops :: "StatelessOp list \<Rightarrow> Record list \<Rightarrow> Record list option" where
  "chain_ops [] cur = Some cur"
| "chain_ops (sp # sps) cur =
     do { alt \<leftarrow> ocollect (ProcessOne sp) cur; if alt = [] then Some [] else chain_ops sps alt }"

text \<open>The records sent downstream, and whether the loop ended in an operator's panic.\<close>

fun runWorker :: "StatelessOp list \<Rightarrow> Record list \<Rightarrow> Record list \<times> bool" where
  "runWorker ops [] = ([], False)"
| "runWorker ops (r # rs) =
     (if IsBarrier r \<or> IsWatermark r
      then (let (out, failed) = runWorker ops rs in (r # out, failed))
      else (case chain_ops ops [r] of
              None \<Rightarrow> ([], True)
            | Some cur \<Rightarrow> (let (out, failed) = runWorker ops rs in (cur @ out, failed))))"

text \<open>The same operators connected by channels, each reading the whole output of the previous one.\<close>

fun run_channels :: "StatelessOp list \<Rightarrow> Record list \<Rightarrow> Record list option" where
  "run_channels [] rs = Some rs"
| "run_channels (op # ops) rs = Process_channel op rs \<bind> run_channels ops"

definition keeps_data :: "StatelessOp \<Rightarrow> bool" where
  "keeps_data op \<longleftrightarrow> (\<forall>r ys. is_data r \<and> ProcessOne op r = Some ys \<longrightarrow> list_all is_data ys)"

lemma chain_ops_Nil [simp]: "chain_ops ops [] = Some []"
  by (cases ops) auto

lemma chain_ops_ocollect: "chain_ops ops cur = ocollect (\<lambda>r. chain_ops ops [r]) cur"
proof (induction ops arbitrary: cur)
  case Nil
  show ?case by simp
next
  case (Cons op ops)
  have step: "chain_ops (op # ops) cur = ocollect (ProcessOne op) cur \<bind> chain_ops ops" for cur
    by (auto split: bind_splits)
  have IH: "chain_ops ops = ocollect (\<lambda>r. chain_ops ops [r])" by (rule ext) (rule Cons.IH)
  have "chain_ops (op # ops) cur = ocollect (ProcessOne op) cur \<bind> ocollect (\<lambda>r. chain_ops ops [r])"
    unfolding step by (rule arg_cong [OF IH])
  also have "\<dots> = ocollect (\<lambda>r. chain_ops (op # ops) [r]) cur"
    unfolding ocollect_bind step ocollect_one
    by (rule ocollect_cong) (rule arg_cong [OF IH [symmetric]])
  finally show ?case .
qed

lemma runWorker_ocollect:
  "ocollect (through_markers (\<lambda>r. chain_ops ops [r])) rs =
    (case runWorker ops rs of (out, failed) \<Rightarrow> if failed then None else Some out)"
  by (induction rs) (auto simp: through_markers_def is_marker_def split: bind_splits option.splits prod.splits)

lemma run_channels_ocollect:
  assumes "list_all keeps_data ops"
  shows "run_channels ops rs = ocollect (through_markers (\<lambda>r. chain_ops ops [r])) rs"
  using assms
proof (induction ops arbitrary: rs)
  case Nil
  have "through_markers (\<lambda>r. chain_ops [] [r]) = (\<lambda>r. Some [r])" by (auto simp: through_markers_def)
  then show ?case by simp
next
  case (Cons op ops)
  have "run_channels (op # ops) rs =
      ocollect (through_markers (ProcessOne op)) rs \<bind> ocollect (through_markers (\<lambda>r. chain_ops ops [r]))"
    using ext [of "run_channels ops", OF Cons.IH] Cons.prems by (simp add: Process_channel_ocollect)
  also have "\<dots> = ocollect (through_markers (\<lambda>r. chain_ops (op # ops) [r])) rs"
    unfolding ocollect_bind
  proof (rule ocollect_cong)
    fix r assume "r \<in> set rs"
    show "through_markers (ProcessOne op) r \<bind> ocollect (through_markers (\<lambda>r. chain_ops ops [r])) =
        through_markers (\<lambda>r. chain_ops (op # ops) [r]) r"
    proof (cases "is_marker r")
      case False
      have "ocollect (through_markers (\<lambda>r. chain_ops ops [r])) ys = chain_ops ops ys"
        if "ProcessOne op r = Some ys" for ys
      proof -
        have "list_all is_data ys"
          using Cons.prems that False by (auto simp: keeps_data_def is_data_marker)
        then show ?thesis
          unfolding chain_ops_ocollect [of ops ys]
          by (intro ocollect_cong) (auto simp: through_markers_def list_all_iff is_data_marker)
      qed
      then show ?thesis using False by (auto simp: through_markers_def split: bind_splits)
    qed (simp add: through_markers_def)
  qed
  finally show ?case .
qed

text \<open>
  C18. Chaining stateless operators as direct calls inside one stage, with the early exit for a
  dropped record, is equivalent to running each operator as its own channel loop: the stage emits
  the same stream when no operator panics, and a panic of one form is a panic of the other. The user
  functions turn data records into data records.
\<close>

theorem fused_chain_equals_channels:
  assumes "list_all keeps_data ops"
  shows "run_channels ops rs =
    (case runWorker ops rs of (out, failed) \<Rightarrow> if failed then None else Some out)"
  unfolding run_channels_ocollect [OF assms] by (rule runWorker_ocollect)

theorem fused_chain_equals_channels_witness:
  "run_channels [FilterOperator (\<lambda>r. Key r = ''a''), FlatMapOperator (\<lambda>r. [r, r])]
     [NewRecord 1 ''a'' ''x'', NewWatermark 5, NewRecord 2 ''b'' ''y''] =
   Some [NewRecord 1 ''a'' ''x'', NewRecord 1 ''a'' ''x'', NewWatermark 5]"
  using fused_chain_equals_channels [of "[FilterOperator (\<lambda>r. Key r = ''a''), FlatMapOperator (\<lambda>r. [r, r])]"
      "[NewRecord 1 ''a'' ''x'', NewWatermark 5, NewRecord 2 ''b'' ''y'']"]
  by (auto simp: keeps_data_def NewRecord_def NewWatermark_def zeroRecord_def split: if_splits)

subsection \<open>Dispatching to workers\<close>

text \<open>The inputs of the workers: data records round-robin from \<open>next\<close>, markers to every worker.\<close>

fun dispatch :: "nat \<Rightarrow> nat \<Rightarrow> Record list \<Rightarrow> nat \<Rightarrow> Record list" where
  "dispatch n next [] = (\<lambda>w. [])"
| "dispatch n next (r # rs) =
     (if IsBarrier r \<or> IsWatermark r then (let ins = dispatch n next rs in (\<lambda>w. r # ins w))
      else (let ins = dispatch n ((next + 1) mod n) rs in ins(next := r # ins next)))"

text \<open>The router of the keyed stage writes the selected key onto the record and sends it by its hash.\<close>

fun router :: "KeyByOperator \<Rightarrow> Record list \<Rightarrow> nat \<Rightarrow> Record list" where
  "router kb [] = (\<lambda>w. [])"
| "router kb (r # rs) =
     (if IsBarrier r \<or> IsWatermark r then (let ins = router kb rs in (\<lambda>w. r # ins w))
      else (let key = SelectKey kb r; w = nat (RouteKey kb key); ins = router kb rs
            in ins(w := r\<lparr> Key := key \<rparr> # ins w)))"

text \<open>The data records between the markers, as multisets: those with exactly \<open>j\<close> markers ahead.\<close>

fun seg :: "Record list \<Rightarrow> nat \<Rightarrow> Record multiset" where
  "seg [] j = {#}"
| "seg (r # rs) j =
     (if is_marker r then (case j of 0 \<Rightarrow> {#} | Suc i \<Rightarrow> seg rs i)
      else (if j = 0 then {#r#} else {#}) + seg rs j)"

lemma seg_data_append: "list_all is_data xs \<Longrightarrow> seg (xs @ ys) j = (if j = 0 then mset xs else {#}) + seg ys j"
  by (induction xs) (auto simp: is_data_marker)

lemma dispatch_markers: "filter is_marker (dispatch n next rs w) = filter is_marker rs"
  by (induction n "next" rs rule: dispatch.induct) (auto simp: is_marker_def Let_def)

lemma sum_fun_upd_add:
  "finite A \<Longrightarrow> v \<in> A \<Longrightarrow> (\<Sum>w\<in>A. if w = v then a + f w else f w) = a + (\<Sum>w\<in>A. f w :: 'a :: comm_monoid_add)"
proof -
  assume A: "finite A" "v \<in> A"
  have "(\<Sum>w\<in>A. if w = v then a + f w else f w) = (\<Sum>w\<in>A. (if w = v then a else 0) + f w)"
    by (rule sum.cong) auto
  then show ?thesis using A by (simp add: sum.distrib sum.delta)
qed

lemma dispatch_seg:
  assumes "0 < n" "next < n"
  shows "(\<Sum>w<n. seg (dispatch n next rs w) j) = seg rs j"
  using assms
proof (induction rs arbitrary: "next" j)
  case (Cons r rs)
  show ?case
  proof (cases "is_marker r")
    case True
    then show ?thesis using Cons by (auto simp: is_marker_def Let_def split: nat.splits)
  next
    case False
    define ins where "ins = dispatch n ((next + 1) mod n) rs"
    have "(\<Sum>w<n. seg (dispatch n next (r # rs) w) j) =
        (\<Sum>w<n. if w = next then (if j = 0 then {#r#} else {#}) + seg (ins w) j else seg (ins w) j)"
      using False by (intro sum.cong) (auto simp: is_marker_def Let_def ins_def)
    also have "\<dots> = (if j = 0 then {#r#} else {#}) + (\<Sum>w<n. seg (ins w) j)"
      using Cons.prems by (intro sum_fun_upd_add) auto
    finally show ?thesis using Cons False by (simp add: ins_def)
  qed
qed simp

text \<open>The router sends every record of a key to one worker and keeps the order of each worker.\<close>

lemma router_worker:
  "router kb rs w = map (\<lambda>r. if is_marker r then r else r\<lparr> Key := SelectKey kb r \<rparr>)
    (filter (\<lambda>r. is_marker r \<or> nat (RouteKey kb (SelectKey kb r)) = w) rs)"
  by (induction rs) (auto simp: is_marker_def Let_def)

subsection \<open>The aligned merge\<close>

text \<open>
  \<open>rest\<close> is what each worker has still to deliver, \<open>parked\<close> whether its forwarding goroutine waits
  for its resume channel, \<open>queue\<close> the shared channel, \<open>arrived\<close> the counter of the merge loop and
  \<open>mout\<close> what has been sent downstream. Records carry the worker they came from, and \<open>taken\<close> keeps
  the marker copies that were received but not sent on; both are book-keeping the code does not have.
\<close>

record merge_state =
  rest :: "nat \<Rightarrow> Record list"
  parked :: "nat \<Rightarrow> bool"
  queue :: "(nat \<times> Record) list"
  arrived :: nat
  mout :: "(nat \<times> Record) list"
  taken :: "nat \<Rightarrow> Record list"

definition merge_init :: "(nat \<Rightarrow> Record list) \<Rightarrow> merge_state" where
  "merge_init src = \<lparr> rest = src, parked = \<lambda>w. False, queue = [], arrived = 0, mout = [], taken = \<lambda>w. [] \<rparr>"

definition internalBuf :: nat where
  "internalBuf = 256"

inductive merge_step :: "nat \<Rightarrow> merge_state \<Rightarrow> merge_state \<Rightarrow> bool" for n where
  forward: "w < n \<Longrightarrow> \<not> parked s w \<Longrightarrow> rest s w = r # rs \<Longrightarrow> length (queue s) < internalBuf \<Longrightarrow>
    merge_step n s (s\<lparr> rest := (rest s)(w := rs), queue := queue s @ [(w, r)],
      parked := (parked s)(w := is_marker r) \<rparr>)"
| hold: "queue s = (w, r) # q \<Longrightarrow> is_marker r \<Longrightarrow> arrived s + 1 < n \<Longrightarrow>
    merge_step n s (s\<lparr> queue := q, arrived := arrived s + 1, taken := (taken s)(w := [r]) \<rparr>)"
| emit: "queue s = (w, r) # q \<Longrightarrow> is_marker r \<Longrightarrow> \<not> arrived s + 1 < n \<Longrightarrow>
    merge_step n s (s\<lparr> queue := q, arrived := 0, mout := mout s @ [(w, r)],
      parked := \<lambda>v. False, taken := \<lambda>v. [] \<rparr>)"
| data: "queue s = (w, r) # q \<Longrightarrow> \<not> is_marker r \<Longrightarrow>
    merge_step n s (s\<lparr> queue := q, mout := mout s @ [(w, r)] \<rparr>)"

inductive_cases merge_stepE: "merge_step n s t"

definition of_worker :: "nat \<Rightarrow> (nat \<times> Record) list \<Rightarrow> Record list" where
  "of_worker w xs = map snd (filter (\<lambda>(v, r). v = w) xs)"

text \<open>The output as worker \<open>w\<close> sees it: its own records and every marker.\<close>

definition view :: "nat \<Rightarrow> (nat \<times> Record) list \<Rightarrow> Record list" where
  "view w xs = map snd (filter (\<lambda>(v, r). is_marker r \<or> v = w) xs)"

definition merge_inv :: "nat \<Rightarrow> (nat \<Rightarrow> Record list) \<Rightarrow> merge_state \<Rightarrow> bool" where
  "merge_inv n src s \<longleftrightarrow>
     (\<forall>w<n. view w (mout s) @ taken s w @ of_worker w (queue s) @ rest s w = src w) \<and>
     (\<forall>w<n. parked s w \<longleftrightarrow> taken s w \<noteq> [] \<or> list_ex is_marker (of_worker w (queue s))) \<and>
     (\<forall>w<n. (taken s w = [] \<and> list_all is_data (butlast (of_worker w (queue s)))) \<or>
       (of_worker w (queue s) = [] \<and> (\<exists>m. is_marker m \<and> taken s w = [m]))) \<and>
     arrived s = card {w. w < n \<and> taken s w \<noteq> []} \<and> arrived s < n \<and>
     (\<forall>(w, r)\<in>set (queue s) \<union> set (mout s). w < n)"

lemma of_worker_simps [simp]:
  "of_worker w [] = []" "of_worker w (xs @ ys) = of_worker w xs @ of_worker w ys"
  "of_worker w ((v, r) # xs) = (if v = w then r # of_worker w xs else of_worker w xs)"
  by (simp_all add: of_worker_def)

lemma view_simps [simp]:
  "view w [] = []" "view w (xs @ ys) = view w xs @ view w ys"
  "view w ((v, r) # xs) = (if is_marker r \<or> v = w then r # view w xs else view w xs)"
  by (simp_all add: view_def)

lemma view_markers: "filter is_marker (view w xs) = filter is_marker (map snd xs)"
  by (induction xs) auto

lemma merge_inv_init: "0 < n \<Longrightarrow> merge_inv n src (merge_init src)"
  by (simp add: merge_inv_def merge_init_def)

lemma merge_inv_taken_head:
  assumes "merge_inv n src s" "queue s = (w, r) # q"
  shows "w < n" "taken s w = []" "is_marker r \<Longrightarrow> of_worker w q = []"
proof -
  show w: "w < n" using assms by (auto simp: merge_inv_def)
  then have "(taken s w = [] \<and> list_all is_data (butlast (r # of_worker w q)))"
    using assms by (auto simp: merge_inv_def)
  then show "taken s w = []" "is_marker r \<Longrightarrow> of_worker w q = []"
    by (auto simp: is_data_marker split: if_splits)
qed

lemma merge_inv_data:
  assumes "merge_inv n src s" "queue s = (w, r) # q" "\<not> is_marker r"
  shows "merge_inv n src (s\<lparr> queue := q, mout := mout s @ [(w, r)] \<rparr>)"
  using assms merge_inv_taken_head [OF assms(1,2)]
  unfolding merge_inv_def by (auto split: if_splits)

lemma merge_inv_forward:
  assumes "merge_inv n src s" "w < n" "\<not> parked s w" "rest s w = r # rs"
  shows "merge_inv n src (s\<lparr> rest := (rest s)(w := rs), queue := queue s @ [(w, r)],
    parked := (parked s)(w := is_marker r) \<rparr>)"
proof -
  have t: "taken s w = []" "\<not> list_ex is_marker (of_worker w (queue s))"
    using assms by (auto simp: merge_inv_def)
  then have "list_all is_data (of_worker w (queue s))"
    by (auto simp: list_ex_iff list_all_iff is_data_marker)
  then show ?thesis
    using assms t unfolding merge_inv_def by (auto simp: butlast_append)
qed

lemma merge_inv_hold:
  assumes "merge_inv n src s" "queue s = (w, r) # q" "is_marker r" "arrived s + 1 < n"
  shows "merge_inv n src (s\<lparr> queue := q, arrived := arrived s + 1, taken := (taken s)(w := [r]) \<rparr>)"
proof -
  note h = merge_inv_taken_head [OF assms(1,2)]
  have "{v. v < n \<and> ((taken s)(w := [r])) v \<noteq> []} = insert w {v. v < n \<and> taken s v \<noteq> []}"
    using h by auto
  then have "card {v. v < n \<and> ((taken s)(w := [r])) v \<noteq> []} = arrived s + 1"
    using assms(1) h by (simp add: merge_inv_def)
  then show ?thesis
    using assms h unfolding merge_inv_def by auto
qed

lemma merge_inv_markers:
  assumes "merge_inv n src s" "w < n"
  shows "filter is_marker (src w) = filter is_marker (map snd (mout s)) @
    filter is_marker (taken s w @ of_worker w (queue s) @ rest s w)"
  using assms view_markers [of w "mout s"] unfolding merge_inv_def by (metis filter_append)

text \<open>When the last copy arrives, every other worker has delivered the same marker.\<close>

lemma merge_last_copy:
  assumes inv: "merge_inv n src s" and q: "queue s = (w, r) # q" and m: "is_marker r"
    and last: "\<not> arrived s + 1 < n" and same: "\<forall>v<n. filter is_marker (src v) = ms"
    and v: "v < n" "v \<noteq> w"
  shows "taken s v = [r]"
proof -
  note h = merge_inv_taken_head [OF inv q]
  let ?T = "{v. v < n \<and> taken s v \<noteq> []}"
  have "card ?T = n - 1" "?T \<subseteq> {..<n} - {w}" using inv last h(2) by (auto simp: merge_inv_def)
  moreover have "card ({..<n} - {w}) = n - 1" using h(1) by simp
  ultimately have "?T = {..<n} - {w}" by (intro card_subset_eq) auto
  then have "taken s v \<noteq> []" using v by auto
  then obtain x where x: "taken s v = [x]" "is_marker x" using inv v by (auto simp: merge_inv_def)
  have "filter is_marker (src v) = filter is_marker (src w)" using same v(1) h(1) by simp
  then have "x # filter is_marker (of_worker v (queue s) @ rest s v) =
      r # filter is_marker (of_worker w q @ rest s w)"
    using merge_inv_markers [OF inv v(1)] merge_inv_markers [OF inv h(1)] x m h(2) q by simp
  then show ?thesis using x by simp
qed

lemma merge_inv_emit:
  assumes inv: "merge_inv n src s" and q: "queue s = (w, r) # q" and m: "is_marker r"
    and last: "\<not> arrived s + 1 < n" and same: "\<forall>v<n. filter is_marker (src v) = ms"
  shows "merge_inv n src (s\<lparr> queue := q, arrived := 0, mout := mout s @ [(w, r)],
    parked := \<lambda>v. False, taken := \<lambda>v. [] \<rparr>)"
proof -
  note h = merge_inv_taken_head [OF inv q]
  note t = merge_last_copy [OF inv q m last same]
  have qv: "of_worker v q = []" if "v < n" for v
  proof (cases "v = w")
    case False
    then have "of_worker v (queue s) = []" using t [OF that False] inv that by (auto simp: merge_inv_def)
    then show ?thesis using q False by simp
  qed (use h m in simp)
  have "view v (mout s) @ r # of_worker v q @ rest s v = src v" if "v < n" for v
  proof (cases "v = w")
    case True
    then show ?thesis using inv h q by (force simp: merge_inv_def)
  next
    case False
    then show ?thesis using inv that t [OF that False] q qv [OF that] by (force simp: merge_inv_def)
  qed
  then show ?thesis
    using inv q m h(1) qv unfolding merge_inv_def by auto
qed

lemma merge_inv_step:
  assumes "merge_step n s t" "merge_inv n src s" "\<forall>v<n. filter is_marker (src v) = ms"
  shows "merge_inv n src t"
  using assms(1)
proof cases
  case (forward w r rs)
  then show ?thesis using merge_inv_forward [OF assms(2)] by simp
next
  case (hold w r q)
  then show ?thesis using merge_inv_hold [OF assms(2)] by simp
next
  case (emit w r q)
  then show ?thesis using merge_inv_emit [OF assms(2) _ _ _ assms(3)] by simp
next
  case (data w r q)
  then show ?thesis using merge_inv_data [OF assms(2)] by simp
qed

lemma merge_inv_reachable:
  assumes "(merge_step n)\<^sup>*\<^sup>* (merge_init src) s" "0 < n" "\<forall>v<n. filter is_marker (src v) = ms"
  shows "merge_inv n src s"
  using assms(1) by (induction rule: rtranclp_induct)
    (auto intro: merge_inv_init [OF assms(2)] merge_inv_step [OF _ _ assms(3)])

text \<open>Each step uses up a record: no run is infinite.\<close>

definition merge_measure :: "nat \<Rightarrow> merge_state \<Rightarrow> nat" where
  "merge_measure n s = 2 * (\<Sum>w<n. length (rest s w)) + length (queue s)"

lemma merge_measure_step: "merge_step n s t \<Longrightarrow> merge_measure n t < merge_measure n s"
proof (induction rule: merge_step.induct)
  case (forward w s r rs)
  have "(\<Sum>v<n. length (rest s v)) = (\<Sum>v<n. if v = w then 1 + length (((rest s)(w := rs)) v) else length (((rest s)(w := rs)) v))"
    by (rule sum.cong) (auto simp: forward)
  also have "\<dots> = 1 + (\<Sum>v<n. length (((rest s)(w := rs)) v))"
    using forward by (intro sum_fun_upd_add) auto
  finally show ?case by (simp add: merge_measure_def)
qed (simp_all add: merge_measure_def)

lemma merge_stuck_done:
  assumes inv: "merge_inv n src s" and stuck: "\<not> (\<exists>t. merge_step n s t)"
    and same: "\<forall>v<n. filter is_marker (src v) = ms" and w: "w < n"
  shows "view w (mout s) = src w"
proof -
  have q: "queue s = []"
  proof (rule ccontr)
    assume "queue s \<noteq> []"
    then obtain v r q where "queue s = (v, r) # q" by (metis list.exhaust surj_pair)
    then show False using stuck merge_step.hold merge_step.emit merge_step.data by metis
  qed
  have idle: "rest s v = []" if "v < n" "\<not> parked s v" for v
    using stuck merge_step.forward [of v n s] that q by (cases "rest s v") (auto simp: internalBuf_def)
  have parked: "parked s v \<longleftrightarrow> taken s v \<noteq> []" if "v < n" for v
    using inv that q by (auto simp: merge_inv_def)
  have "{v. v < n \<and> taken s v \<noteq> []} \<noteq> {..<n}"
  proof
    assume "{v. v < n \<and> taken s v \<noteq> []} = {..<n}"
    then have "card {v. v < n \<and> taken s v \<noteq> []} = n" by simp
    then show False using inv unfolding merge_inv_def by (elim conjE) simp
  qed
  then obtain v where v: "v < n" "taken s v = []" by auto
  then have out: "ms = filter is_marker (map snd (mout s))"
    using merge_inv_markers [OF inv v(1)] same q idle [OF v(1)] parked [OF v(1)] by simp
  have "filter is_marker (taken s w @ rest s w) = []"
    using merge_inv_markers [OF inv w] same w q out by simp
  moreover have "taken s w = [] \<or> (\<exists>m. is_marker m \<and> taken s w = [m])"
    using inv w by (auto simp: merge_inv_def)
  ultimately have "taken s w = []" by auto
  then have "rest s w = []" using idle [OF w] parked [OF w] by simp
  with \<open>taken s w = []\<close> show ?thesis using inv w q by (auto simp: merge_inv_def)
qed

lemma merge_reaches_end:
  assumes "merge_inv n src s" "\<forall>v<n. filter is_marker (src v) = ms"
  shows "\<exists>t. (merge_step n)\<^sup>*\<^sup>* s t \<and> \<not> (\<exists>u. merge_step n t u) \<and> (\<forall>w<n. view w (mout t) = src w)"
  using assms(1)
proof (induction "merge_measure n s" arbitrary: s rule: less_induct)
  case less
  show ?case
  proof (cases "\<exists>t. merge_step n s t")
    case True
    then obtain t where t: "merge_step n s t" ..
    have "\<exists>u. (merge_step n)\<^sup>*\<^sup>* t u \<and> \<not> (\<exists>v. merge_step n u v) \<and> (\<forall>w<n. view w (mout u) = src w)"
      by (rule less.hyps [OF merge_measure_step [OF t] merge_inv_step [OF t less.prems assms(2)]])
    then show ?thesis using t by (meson converse_rtranclp_into_rtranclp)
  next
    case False
    then show ?thesis using merge_stuck_done [OF less.prems _ assms(2)] by blast
  qed
qed


definition two_streams :: "nat \<Rightarrow> Record list" where
  "two_streams w = (if w = 0 then [NewRecord 1 ''a'' ''x'', NewBarrier ''c1''] else [NewBarrier ''c1''])"

lemma two_streams_markers: "\<forall>v<2. filter is_marker (two_streams v) = [NewBarrier ''c1'']"
  by (simp add: two_streams_def is_marker_def NewRecord_def NewBarrier_def zeroRecord_def)


text \<open>
  C17. The aligned merge does not deadlock: every step uses up a record, so no run is infinite, and
  from every reachable state the merge reaches one in which each worker's whole stream has been
  delivered. The merge loop parks the workers that have delivered a marker without ever blocking
  the ones the marker waits for.
\<close>

theorem aligned_merge_terminates:
  assumes "(merge_step n)\<^sup>*\<^sup>* (merge_init src) s" "0 < n" "\<forall>v<n. filter is_marker (src v) = ms"
  shows "(\<forall>t. merge_step n s t \<longrightarrow> merge_measure n t < merge_measure n s) \<and>
    (\<exists>t. (merge_step n)\<^sup>*\<^sup>* s t \<and> (\<forall>w<n. view w (mout t) = src w))"
  using merge_measure_step merge_reaches_end [OF merge_inv_reachable [OF assms] assms(3)] by blast

theorem aligned_merge_terminates_witness:
  "\<exists>t. (merge_step 2)\<^sup>*\<^sup>* (merge_init two_streams) t \<and> view 0 (mout t) = two_streams 0 \<and> view 1 (mout t) = two_streams 1"
  using aligned_merge_terminates [OF rtranclp.rtrancl_refl _ two_streams_markers]
  by (auto simp: less_2_cases_iff)

subsection \<open>The parallel stage\<close>

text \<open>
  A complete run of \<open>runParallel\<close>: the dispatcher feeds the workers, each worker runs the operator
  chain on its input, and the merge runs until nothing more can happen.
\<close>

definition runParallel :: "StatelessOp list \<Rightarrow> nat \<Rightarrow> Record list \<Rightarrow> (nat \<times> Record) list \<Rightarrow> bool" where
  "runParallel ops n rs out \<longleftrightarrow>
     (\<exists>s. (merge_step n)\<^sup>*\<^sup>* (merge_init (\<lambda>w. fst (runWorker ops (dispatch n 0 rs w)))) s \<and>
          \<not> (\<exists>t. merge_step n s t) \<and> mout s = out)"

lemma chain_ops_data:
  assumes "list_all keeps_data ops" "list_all is_data cur" "chain_ops ops cur = Some out"
  shows "list_all is_data out"
  using assms
proof (induction ops arbitrary: cur)
  case (Cons op ops)
  from Cons.prems(3) obtain alt where alt: "ocollect (ProcessOne op) cur = Some alt"
    "alt = [] \<and> out = [] \<or> chain_ops ops alt = Some out"
    by (auto split: bind_splits if_splits)
  have "list_all is_data alt"
    unfolding list_all_iff
  proof
    fix y assume "y \<in> set alt"
    then obtain x ys where "x \<in> set cur" "ProcessOne op x = Some ys" "y \<in> set ys"
      using ocollect_Some_set [OF alt(1)] by blast
    then show "is_data y" using Cons.prems(1,2) by (auto simp: keeps_data_def list_all_iff)
  qed
  then show ?case using alt(2) Cons by auto
qed simp

lemma runWorker_fails:
  "snd (runWorker ops rs) \<longleftrightarrow> (\<exists>r\<in>set rs. \<not> is_marker r \<and> chain_ops ops [r] = None)"
  by (induction rs) (auto simp: is_marker_def split: option.splits prod.splits)

lemma runWorker_seg:
  assumes "list_all keeps_data ops" "\<not> snd (runWorker ops rs)"
  shows "filter is_marker (fst (runWorker ops rs)) = filter is_marker rs \<and>
    seg (fst (runWorker ops rs)) j = (\<Sum>r\<in>#seg rs j. mset (the (chain_ops ops [r])))"
  using assms(2)
proof (induction rs arbitrary: j)
  case (Cons r rs)
  have "\<not> snd (runWorker ops rs)"
    using Cons.prems unfolding runWorker_fails by (meson list.set_intros(2))
  note IH = Cons.IH [OF this]
  show ?case
  proof (cases "is_marker r")
    case True
    then show ?thesis using IH by (auto simp: is_marker_def split: prod.splits nat.splits)
  next
    case False
    then obtain cur where cur: "chain_ops ops [r] = Some cur"
      using Cons.prems unfolding runWorker_fails by (metis list.set_intros(1) option.exhaust)
    have d: "list_all is_data cur"
      using chain_ops_data [OF assms(1) _ cur] False by (simp add: is_data_marker)
    then have "filter is_marker cur = []"
      by (auto simp: list_all_iff is_data_marker filter_empty_conv)
    moreover have "fst (runWorker ops (r # rs)) = cur @ fst (runWorker ops rs)"
      using False cur by (auto simp: is_marker_def split: prod.splits)
    ultimately show ?thesis using IH d False cur by (simp add: seg_data_append)
  qed
qed simp

lemma dispatch_subset: "set (dispatch n next rs w) \<subseteq> set rs"
  by (induction n "next" rs arbitrary: w rule: dispatch.induct) (auto simp: Let_def split: if_splits)

lemma seg_views:
  "\<forall>(v, r)\<in>set out. v < n \<Longrightarrow> 0 < n \<Longrightarrow> seg (map snd out) j = (\<Sum>w<n. seg (view w out) j)"
proof (induction out arbitrary: j)
  case (Cons x out)
  obtain v r where x: "x = (v, r)" by (cases x)
  show ?case
  proof (cases "is_marker r")
    case True
    then show ?thesis using Cons by (auto simp: x split: nat.splits)
  next
    case False
    have "(\<Sum>w<n. seg (view w (x # out)) j) =
        (\<Sum>w<n. if w = v then (if j = 0 then {#r#} else {#}) + seg (view w out) j else seg (view w out) j)"
      using False by (intro sum.cong) (auto simp: x)
    also have "\<dots> = (if j = 0 then {#r#} else {#}) + (\<Sum>w<n. seg (view w out) j)"
      using Cons.prems by (intro sum_fun_upd_add) (auto simp: x)
    finally show ?thesis using Cons False by (simp add: x)
  qed
qed simp

lemma sum_mset_sum: "(\<Sum>r\<in>#(\<Sum>w<(n::nat). f w). g r) = (\<Sum>w<n. \<Sum>r\<in>#f w. (g r :: 'a multiset))"
  by (induction n) simp_all

text \<open>
  C7. Running a stateless stage with several workers changes only the order inside a segment: for
  every complete run of the parallel stage on an input the serial stage accepts, the output has the
  markers of the input in order, and between any two of them the same records, counted with
  multiplicity, as the serial stage.
\<close>

theorem parallel_stage_segments:
  assumes "list_all keeps_data ops" "0 < n" "\<not> snd (runWorker ops rs)" "runParallel ops n rs out"
  shows "filter is_marker (map snd out) = filter is_marker rs \<and>
    seg (map snd out) j = seg (fst (runWorker ops rs)) j"
proof -
  define src where "src w = fst (runWorker ops (dispatch n 0 rs w))" for w
  obtain s where s: "(merge_step n)\<^sup>*\<^sup>* (merge_init src) s" "\<not> (\<exists>t. merge_step n s t)" "mout s = out"
    using assms(4) unfolding runParallel_def src_def by blast
  have nf: "\<not> snd (runWorker ops (dispatch n 0 rs w))" for w
    using assms(3) dispatch_subset by (fastforce simp: runWorker_fails)
  have same: "\<forall>v<n. filter is_marker (src v) = filter is_marker rs"
    using runWorker_seg [OF assms(1) nf] by (simp add: src_def dispatch_markers)
  have inv: "merge_inv n src s" by (rule merge_inv_reachable [OF s(1) assms(2) same])
  have v: "view w out = src w" if "w < n" for w
    using merge_stuck_done [OF inv s(2) same that] s(3) by simp
  have "seg (map snd out) j = (\<Sum>w<n. seg (src w) j)"
    using inv assms(2) s(3) v by (subst seg_views [of out n]) (auto simp: merge_inv_def)
  also have "\<dots> = (\<Sum>r\<in>#seg rs j. mset (the (chain_ops ops [r])))"
    using runWorker_seg [OF assms(1) nf] dispatch_seg [OF assms(2,2), of rs j]
    by (simp add: src_def sum_mset_sum [symmetric])
  also have "\<dots> = seg (fst (runWorker ops rs)) j" using runWorker_seg [OF assms(1,3)] by simp
  finally show ?thesis
    using view_markers [of 0 out] v [OF assms(2)] same assms(2) by simp
qed

lemma runParallel_exists:
  assumes "list_all keeps_data ops" "0 < n" "\<not> snd (runWorker ops rs)"
  shows "\<exists>out. runParallel ops n rs out"
proof -
  define src where "src w = fst (runWorker ops (dispatch n 0 rs w))" for w
  have "\<not> snd (runWorker ops (dispatch n 0 rs w))" for w
    using assms(3) dispatch_subset by (fastforce simp: runWorker_fails)
  then have "\<forall>v<n. filter is_marker (src v) = filter is_marker rs"
    using runWorker_seg [OF assms(1)] by (simp add: src_def dispatch_markers)
  then have "\<exists>t. (merge_step n)\<^sup>*\<^sup>* (merge_init src) t \<and> \<not> (\<exists>u. merge_step n t u)"
    using merge_reaches_end [OF merge_inv_init [OF assms(2)]] by blast
  then show ?thesis unfolding runParallel_def src_def by blast
qed

definition sample_ops :: "StatelessOp list" where
  "sample_ops = [FlatMapOperator (\<lambda>r. [r, r])]"

definition sample_input :: "Record list" where
  "sample_input = [NewRecord 1 ''a'' ''x'', NewRecord 2 ''b'' ''y'', NewBarrier ''c1'', NewRecord 3 ''a'' ''z'']"

lemma sample_ok: "list_all keeps_data sample_ops" "\<not> snd (runWorker sample_ops sample_input)"
  by (simp_all add: sample_ops_def sample_input_def keeps_data_def runWorker_fails)

theorem parallel_stage_segments_witness:
  "\<exists>out. runParallel sample_ops 2 sample_input out \<and>
    seg (map snd out) 1 = {# NewRecord 3 ''a'' ''z'', NewRecord 3 ''a'' ''z'' #}"
proof -
  obtain out where out: "runParallel sample_ops 2 sample_input out"
    using runParallel_exists [OF sample_ok(1) zero_less_numeral sample_ok(2)] by blast
  have "seg (fst (runWorker sample_ops sample_input)) 1 = {# NewRecord 3 ''a'' ''z'', NewRecord 3 ''a'' ''z'' #}"
    by (simp add: sample_ops_def sample_input_def NewRecord_def NewBarrier_def zeroRecord_def is_marker_def)
  then show ?thesis
    using parallel_stage_segments [OF sample_ok(1) zero_less_numeral sample_ok(2) out] out by metis
qed

text \<open>
  C29. Keyed routing: with a positive number of partitions every data record goes to one existing
  worker, which depends on its key alone; the worker's input is exactly the subsequence of the
  stage's input that routes to it, in order, with every marker, each data record carrying the
  selected key.
\<close>

theorem router_partitions_by_key:
  assumes "0 < Partitions kb"
  shows "router kb rs w = map (\<lambda>r. if is_marker r then r else r\<lparr> Key := SelectKey kb r \<rparr>)
      (filter (\<lambda>r. is_marker r \<or> nat (Route kb r) = w) rs) \<and>
    0 \<le> Route kb r \<and> Route kb r < Partitions kb \<and>
    (SelectKey kb r = SelectKey kb r' \<longrightarrow> Route kb r = Route kb r')"
  using RouteKey_bounds [OF assms] by (simp add: router_worker Route_def)

theorem router_partitions_by_key_witness:
  "0 \<le> Route (KeyBy Value) (NewRecord 1 ''a'' ''x'') \<and> Route (KeyBy Value) (NewRecord 1 ''a'' ''x'') < 16"
proof -
  have p: "Partitions (KeyBy Value) = 16" by (simp add: KeyBy_def)
  then have "0 < Partitions (KeyBy Value)" by simp
  from router_partitions_by_key [OF this, of "[]" 0 "NewRecord 1 ''a'' ''x''"] show ?thesis
    unfolding p by blast
qed

end
