(* ===== verification/Checkpoint_Store.thy ===== *)
theory Checkpoint_Store
  imports Stream_Record
begin

text \<open>
  \<open>checkpoint/checkpoint.go\<close>: the checkpoint record and its storage in a directory. The directory
  is a map from file names to contents plus the native state directories of the checkpoints; every
  system call that may fail reads its outcome from a list of outcomes, so that a theorem over all
  lists covers every failure and every crash between two calls. JSON is at the level of documents:
  a file holds the record as the decoder reads it back.
\<close>

subsection \<open>The checkpoint record\<close>

datatype Status = StatusNone | StatusPrepared | StatusCompleted

record CheckpointData =
  ID :: bytes
  CreatedAt :: gotime
  Operators :: "(bytes, bytes) gomap"
  Source :: "(bytes, bytes) gomap"
  CStatus :: Status
  TxnID :: bytes
  StateDirs :: "(bytes, bytes) gomap"

definition Completed :: "CheckpointData \<Rightarrow> bool" where
  "Completed d \<longleftrightarrow> CStatus d = StatusCompleted \<or> CStatus d = StatusNone"

text \<open>\<open>json.Marshal\<close> followed by \<open>json.Unmarshal\<close>; a time outside the calendar is an error.\<close>

definition marshal_checkpoint :: "CheckpointData \<Rightarrow> CheckpointData option" where
  "marshal_checkpoint d =
     (if rfc3339_parse (rfc3339 (CreatedAt d)) = Some (CreatedAt d)
      then Some (d\<lparr> ID := utf8_coerce (ID d), Operators := json_map (Operators d), Source := json_map (Source d),
        TxnID := utf8_coerce (TxnID d), StateDirs := json_map (map (\<lambda>(k, v). (k, utf8_coerce v)) (StateDirs d)) \<rparr>)
      else None)"

subsection \<open>The directory\<close>

datatype ckpt_error = ECreateDir | EMarshal | ESync bytes | EWriteFile | ERead bytes | EUnmarshal | ENotFound bytes

datatype file_content = Json CheckpointData | Plain bytes

text \<open>\<open>state_dirs\<close>: the directories below the state directory of a checkpoint, with their contents.\<close>

record 's FileStorage =
  files :: "(bytes, file_content) gomap"
  state_dirs :: "(bytes \<times> bytes, 's) gomap"
  outcomes :: "bool list"

text \<open>The outcome of the next system call; once the list is used up every call succeeds.\<close>

definition syscall :: "'s FileStorage \<Rightarrow> bool \<times> 's FileStorage" where
  "syscall fs = (case outcomes fs of [] \<Rightarrow> (True, fs) | b # bs \<Rightarrow> (b, fs\<lparr> outcomes := bs \<rparr>))"

definition checkpoint_path :: "bytes \<Rightarrow> bytes" where
  "checkpoint_path cid = ''checkpoint-'' @ cid @ ''.json''"

definition latest_path :: bytes where
  "latest_path = ''latest.json''"

definition latest_completed_path :: bytes where
  "latest_completed_path = ''latest-completed.json''"

text \<open>The early return on an error.\<close>

definition and_then ::
  "'s FileStorage \<times> (ckpt_error + 'a) \<Rightarrow> ('a \<Rightarrow> 's FileStorage \<Rightarrow> 's FileStorage \<times> (ckpt_error + 'b)) \<Rightarrow>
    's FileStorage \<times> (ckpt_error + 'b)" where
  "and_then res f = (case res of (fs, Inl e) \<Rightarrow> (fs, Inl e) | (fs, Inr x) \<Rightarrow> f x fs)"

definition NewFileStorage :: "bool list \<Rightarrow> 's FileStorage" where
  "NewFileStorage os = \<lparr> files = [], state_dirs = [], outcomes = os \<rparr>"

text \<open>Open, write, fsync, close of the temporary file, then rename; a failure removes the temporary.\<close>

definition put_file :: "bytes \<Rightarrow> file_content \<Rightarrow> 's FileStorage \<Rightarrow> 's FileStorage" where
  "put_file p c fs = fs\<lparr> files := map_put p c (files fs) \<rparr>"

definition remove_file :: "bytes \<Rightarrow> 's FileStorage \<Rightarrow> 's FileStorage" where
  "remove_file p fs = fs\<lparr> files := map_del p (files fs) \<rparr>"

definition writeFileSync :: "bytes \<Rightarrow> file_content \<Rightarrow> 's FileStorage \<Rightarrow> 's FileStorage \<times> (ckpt_error + unit)" where
  "writeFileSync path b fs =
     (let tmp = path @ ''.tmp''; (opened, fs) = syscall fs
      in if \<not> opened then (fs, Inl EWriteFile)
         else let fs = put_file tmp (Plain []) fs; (written, fs) = syscall fs
           in if \<not> written then (remove_file tmp fs, Inl EWriteFile)
              else let fs = put_file tmp b fs; (synced, fs) = syscall fs
                in if \<not> synced then (remove_file tmp fs, Inl EWriteFile)
                   else let (closed, fs) = syscall fs
                     in if \<not> closed then (remove_file tmp fs, Inl EWriteFile)
                        else let (renamed, fs) = syscall fs
                          in if \<not> renamed then (remove_file tmp fs, Inl EWriteFile)
                             else (put_file path b (remove_file tmp fs), Inr ()))"

text \<open>A directory that does not exist cannot be opened.\<close>

definition syncDir :: "bytes \<Rightarrow> bytes \<Rightarrow> 's FileStorage \<Rightarrow> 's FileStorage \<times> (ckpt_error + unit)" where
  "syncDir cid rel fs =
     (let (ok, fs) = syscall fs
      in if ok \<and> map_of (state_dirs fs) (cid, rel) \<noteq> None then (fs, Inr ()) else (fs, Inl (ESync rel)))"

fun sync_dirs :: "bytes \<Rightarrow> bytes list \<Rightarrow> 's FileStorage \<Rightarrow> 's FileStorage \<times> (ckpt_error + unit)" where
  "sync_dirs cid [] fs = (fs, Inr ())"
| "sync_dirs cid (rel # rels) fs = and_then (syncDir cid rel fs) (\<lambda>_. sync_dirs cid rels)"

definition mkdir_all :: "'s FileStorage \<Rightarrow> 's FileStorage \<times> (ckpt_error + unit)" where
  "mkdir_all fs = (let (made, fs) = syscall fs in (fs, if made then Inr () else Inl ECreateDir))"

definition saveLocked ::
  "(bytes \<times> bytes) range_ord \<Rightarrow> CheckpointData \<Rightarrow> 's FileStorage \<Rightarrow> 's FileStorage \<times> (ckpt_error + unit)" where
  "saveLocked ord data fs =
     and_then (mkdir_all fs) (\<lambda>_ fs.
       let data = (if CStatus data = StatusNone then data\<lparr> CStatus := StatusCompleted \<rparr> else data)
       in case marshal_checkpoint data of
            None \<Rightarrow> (fs, Inl EMarshal)
          | Some b \<Rightarrow>
              and_then (sync_dirs (ID data) (map snd (visit ord (StateDirs data))) fs) (\<lambda>_ fs.
              and_then (writeFileSync (checkpoint_path (ID data)) (Json b) fs) (\<lambda>_ fs.
              and_then (writeFileSync latest_path (Plain (ID data)) fs) (\<lambda>_ fs.
                if CStatus data = StatusCompleted
                then writeFileSync latest_completed_path (Plain (ID data)) fs
                else (fs, Inr ())))))"

definition Save ::
  "(bytes \<times> bytes) range_ord \<Rightarrow> CheckpointData \<Rightarrow> 's FileStorage \<Rightarrow> 's FileStorage \<times> (ckpt_error + unit)" where
  "Save ord data fs = saveLocked ord data fs"

text \<open>Reading: a missing file is not an error.\<close>

definition read_file :: "bytes \<Rightarrow> bytes \<Rightarrow> 's FileStorage \<Rightarrow> 's FileStorage \<times> (ckpt_error + file_content option)" where
  "read_file what p fs =
     (let (ok, fs) = syscall fs
      in if \<not> ok then (fs, Inl (ERead what)) else (fs, Inr (map_of (files fs) p)))"

definition loadSpecificLocked :: "bytes \<Rightarrow> 's FileStorage \<Rightarrow> 's FileStorage \<times> (ckpt_error + CheckpointData option)" where
  "loadSpecificLocked cid fs =
     and_then (read_file cid (checkpoint_path cid) fs) (\<lambda>b fs.
       (fs, case b of None \<Rightarrow> Inr None | Some (Json d) \<Rightarrow> Inr (Some d) | Some (Plain _) \<Rightarrow> Inl EUnmarshal))"

definition LoadSpecific :: "bytes \<Rightarrow> 's FileStorage \<Rightarrow> 's FileStorage \<times> (ckpt_error + CheckpointData option)" where
  "LoadSpecific cid fs = loadSpecificLocked cid fs"

text \<open>The bytes of a pointer file are taken as an identifier whatever they are.\<close>

fun content_bytes :: "file_content \<Rightarrow> bytes" where
  "content_bytes (Plain b) = b"
| "content_bytes (Json d) = ''{''"

definition loadLatestLocked :: "'s FileStorage \<Rightarrow> 's FileStorage \<times> (ckpt_error + CheckpointData option)" where
  "loadLatestLocked fs =
     and_then (read_file ''latest'' latest_path fs) (\<lambda>b fs.
       case b of None \<Rightarrow> (fs, Inr None) | Some c \<Rightarrow> loadSpecificLocked (content_bytes c) fs)"

definition Load :: "'s FileStorage \<Rightarrow> 's FileStorage \<times> (ckpt_error + CheckpointData option)" where
  "Load fs = loadLatestLocked fs"

definition LoadLatestCompleted :: "'s FileStorage \<Rightarrow> 's FileStorage \<times> (ckpt_error + CheckpointData option)" where
  "LoadLatestCompleted fs =
     and_then (read_file ''latest-completed'' latest_completed_path fs) (\<lambda>b fs.
       case b of
         None \<Rightarrow> and_then (loadLatestLocked fs) (\<lambda>d fs.
           (fs, Inr (case d of None \<Rightarrow> None | Some d \<Rightarrow> if \<not> Completed d then None else Some d)))
       | Some c \<Rightarrow> loadSpecificLocked (content_bytes c) fs)"

definition UpdateStatus ::
  "(bytes \<times> bytes) range_ord \<Rightarrow> bytes \<Rightarrow> Status \<Rightarrow> 's FileStorage \<Rightarrow> 's FileStorage \<times> (ckpt_error + unit)" where
  "UpdateStatus ord cid status fs =
     and_then (loadSpecificLocked cid fs) (\<lambda>d fs.
       case d of
         None \<Rightarrow> (fs, Inl (ENotFound cid))
       | Some data \<Rightarrow> saveLocked ord (data\<lparr> CStatus := status \<rparr>) fs)"

definition DeleteStateDirs :: "bytes \<Rightarrow> 's FileStorage \<Rightarrow> 's FileStorage" where
  "DeleteStateDirs cid fs = fs\<lparr> state_dirs := filter (\<lambda>((i, rel), s). i \<noteq> cid) (state_dirs fs) \<rparr>"

text \<open>The state directories whose record is missing go; \<open>os.Stat\<close> of the record decides.\<close>

definition SweepOrphans :: "'s FileStorage \<Rightarrow> 's FileStorage \<times> (ckpt_error + unit)" where
  "SweepOrphans fs =
     (let (ok, fs) = syscall fs
      in if \<not> ok then (fs, Inl (ERead ''dir''))
         else (fold (\<lambda>cid fs. if map_of (files fs) (checkpoint_path cid) = None then DeleteStateDirs cid fs else fs)
                 (remdups (map (fst \<circ> fst) (state_dirs fs))) fs, Inr ()))"

subsection \<open>What the directory promises\<close>

text \<open>The abstract store: the records by identifier and the two pointers.\<close>

record Store =
  recs :: "bytes \<rightharpoonup> CheckpointData"
  latest_id :: "bytes option"
  completed_id :: "bytes option"

fun json_of :: "file_content option \<Rightarrow> CheckpointData option" where
  "json_of (Some (Json d)) = Some d"
| "json_of _ = None"

definition abs_store :: "'s FileStorage \<Rightarrow> Store" where
  "abs_store fs = \<lparr> recs = (\<lambda>cid. json_of (map_of (files fs) (checkpoint_path cid))),
     latest_id = map_option content_bytes (map_of (files fs) latest_path),
     completed_id = map_option content_bytes (map_of (files fs) latest_completed_path) \<rparr>"

lemma abs_store_pointers:
  "latest_id (abs_store fs) = map_option content_bytes (map_of (files fs) latest_path)"
  "completed_id (abs_store fs) = map_option content_bytes (map_of (files fs) latest_completed_path)"
  by (simp_all add: abs_store_def)

text \<open>The files of records hold records.\<close>

definition wf_store :: "'s FileStorage \<Rightarrow> bool" where
  "wf_store fs \<longleftrightarrow> (\<forall>cid b. map_of (files fs) (checkpoint_path cid) \<noteq> Some (Plain b))"

lemma wf_store_new [simp]: "wf_store (NewFileStorage os)"
  by (simp add: wf_store_def NewFileStorage_def)

lemma syscall_keeps [simp]:
  "syscall fs = (b, fs') \<Longrightarrow> files fs' = files fs \<and> state_dirs fs' = state_dirs fs"
  by (auto simp: syscall_def split: list.splits)

lemma syscall_none [simp]: "outcomes fs = [] \<Longrightarrow> syscall fs = (True, fs)"
  by (simp add: syscall_def)

lemma and_then_simps [simp]: "and_then (fs, Inl e) f = (fs, Inl e)" "and_then (fs, Inr x) f = f x fs"
  by (simp_all add: and_then_def)

lemma no_tmp:
  "checkpoint_path cid \<noteq> p @ ''.tmp''" "latest_path \<noteq> p @ ''.tmp''" "latest_completed_path \<noteq> p @ ''.tmp''"
proof -
  have "last (checkpoint_path cid) \<noteq> last (p @ ''.tmp'')" "last latest_path \<noteq> last (p @ ''.tmp'')"
    "last latest_completed_path \<noteq> last (p @ ''.tmp'')"
    by (simp_all add: checkpoint_path_def latest_path_def latest_completed_path_def)
  then show "checkpoint_path cid \<noteq> p @ ''.tmp''" "latest_path \<noteq> p @ ''.tmp''" "latest_completed_path \<noteq> p @ ''.tmp''"
    by metis+
qed

lemma path_names [simp]:
  "checkpoint_path cid \<noteq> latest_path" "checkpoint_path cid \<noteq> latest_completed_path"
  "latest_path \<noteq> checkpoint_path cid" "latest_completed_path \<noteq> checkpoint_path cid"
  "latest_path \<noteq> latest_completed_path" "latest_completed_path \<noteq> latest_path"
  "checkpoint_path a = checkpoint_path b \<longleftrightarrow> a = b"
  by (simp_all add: checkpoint_path_def latest_path_def latest_completed_path_def)

text \<open>A file is written as a whole or not at all.\<close>

definition json_view :: "'s FileStorage \<Rightarrow> bytes \<Rightarrow> file_content option" where
  "json_view fs p = (if \<exists>q. p = q @ ''.tmp'' then None else map_of (files fs) p)"

lemma json_view_paths:
  "json_view fs (checkpoint_path cid) = map_of (files fs) (checkpoint_path cid)"
  "json_view fs latest_path = map_of (files fs) latest_path"
  "json_view fs latest_completed_path = map_of (files fs) latest_completed_path"
  unfolding json_view_def using no_tmp by metis+

lemma writeFileSync_atomic:
  assumes "writeFileSync p c fs = (fs', r)" "\<nexists>q. p = q @ ''.tmp''"
  shows "state_dirs fs' = state_dirs fs \<and>
    json_view fs' = (if r = Inr () then (json_view fs)(p \<mapsto> c) else json_view fs)"
  using assms(1) assms(2)
  by (auto simp: writeFileSync_def put_file_def remove_file_def json_view_def fun_eq_iff Let_def
      split: prod.splits if_splits dest!: syscall_keeps)

lemma writeFileSync_ok: "outcomes fs = [] \<Longrightarrow> \<exists>fs'. writeFileSync p c fs = (fs', Inr ()) \<and> outcomes fs' = []"
  by (simp add: writeFileSync_def put_file_def remove_file_def Let_def)

lemma abs_store_view:
  "abs_store fs = \<lparr> recs = (\<lambda>cid. json_of (json_view fs (checkpoint_path cid))),
     latest_id = map_option content_bytes (json_view fs latest_path),
     completed_id = map_option content_bytes (json_view fs latest_completed_path) \<rparr>"
  by (simp add: abs_store_def json_view_paths)

lemma wf_store_view: "wf_store fs \<longleftrightarrow> (\<forall>cid b. json_view fs (checkpoint_path cid) \<noteq> Some (Plain b))"
  by (simp add: wf_store_def json_view_paths)

lemma write_record:
  assumes "writeFileSync (checkpoint_path cid) (Json d) fs = (fs', r)"
  shows "abs_store fs' = (if r = Inr () then (abs_store fs)\<lparr> recs := (recs (abs_store fs))(cid \<mapsto> d) \<rparr> else abs_store fs) \<and>
    state_dirs fs' = state_dirs fs \<and> (wf_store fs \<longrightarrow> wf_store fs')"
  using writeFileSync_atomic [OF assms] no_tmp(1) [of cid] path_names
  by (cases "r = Inr ()") (auto simp: abs_store_view wf_store_view fun_eq_iff)

lemma write_latest:
  assumes "writeFileSync latest_path (Plain cid) fs = (fs', r)"
  shows "abs_store fs' = (if r = Inr () then (abs_store fs)\<lparr> latest_id := Some cid \<rparr> else abs_store fs) \<and>
    state_dirs fs' = state_dirs fs \<and> (wf_store fs \<longrightarrow> wf_store fs')"
  using writeFileSync_atomic [OF assms] no_tmp(2) path_names
  by (cases "r = Inr ()") (auto simp: abs_store_view wf_store_view fun_eq_iff)

lemma write_completed:
  assumes "writeFileSync latest_completed_path (Plain cid) fs = (fs', r)"
  shows "abs_store fs' = (if r = Inr () then (abs_store fs)\<lparr> completed_id := Some cid \<rparr> else abs_store fs) \<and>
    state_dirs fs' = state_dirs fs \<and> (wf_store fs \<longrightarrow> wf_store fs')"
  using writeFileSync_atomic [OF assms] no_tmp(3) path_names
  by (cases "r = Inr ()") (auto simp: abs_store_view wf_store_view fun_eq_iff)

lemma sync_dirs_keeps:
  "sync_dirs cid rels fs = (fs', r) \<Longrightarrow> files fs' = files fs \<and> state_dirs fs' = state_dirs fs"
  by (induction cid rels fs rule: sync_dirs.induct)
    (auto simp: syncDir_def split: prod.splits sum.splits if_splits dest!: syscall_keeps)

lemma sync_dirs_ok:
  "outcomes fs = [] \<Longrightarrow> \<forall>rel\<in>set rels. map_of (state_dirs fs) (cid, rel) \<noteq> None \<Longrightarrow> sync_dirs cid rels fs = (fs, Inr ())"
  by (induction cid rels fs rule: sync_dirs.induct) (simp_all add: syncDir_def)

lemma abs_store_files: "files fs' = files fs \<Longrightarrow> abs_store fs' = abs_store fs \<and> wf_store fs' = wf_store fs"
  by (simp add: abs_store_def wf_store_def)

text \<open>The record that a save stores, and the states of the store it goes through.\<close>

definition with_status :: "CheckpointData \<Rightarrow> CheckpointData" where
  "with_status d = (if CStatus d = StatusNone then d\<lparr> CStatus := StatusCompleted \<rparr> else d)"

definition save_record :: "CheckpointData \<Rightarrow> CheckpointData \<Rightarrow> Store \<Rightarrow> Store" where
  "save_record d m a = a\<lparr> recs := (recs a)(ID d \<mapsto> m) \<rparr>"

definition save_latest :: "CheckpointData \<Rightarrow> Store \<Rightarrow> Store" where
  "save_latest d a = a\<lparr> latest_id := Some (ID d) \<rparr>"

definition save_completed :: "CheckpointData \<Rightarrow> Store \<Rightarrow> Store" where
  "save_completed d a = (if CStatus (with_status d) = StatusCompleted then a\<lparr> completed_id := Some (ID d) \<rparr> else a)"

lemma with_status_simps [simp]: "ID (with_status d) = ID d" "StateDirs (with_status d) = StateDirs d"
  by (simp_all add: with_status_def)

lemma saveLocked_eq:
  assumes "marshal_checkpoint (with_status d) = Some m"
  shows "saveLocked ord d fs =
    and_then (mkdir_all fs) (\<lambda>_ fs.
    and_then (sync_dirs (ID d) (map snd (visit ord (StateDirs d))) fs) (\<lambda>_ fs.
    and_then (writeFileSync (checkpoint_path (ID d)) (Json m) fs) (\<lambda>_ fs.
    and_then (writeFileSync latest_path (Plain (ID d)) fs) (\<lambda>_ fs.
      if CStatus (with_status d) = StatusCompleted then writeFileSync latest_completed_path (Plain (ID d)) fs
      else (fs, Inr ())))))"
  unfolding saveLocked_def Let_def with_status_def [symmetric] with_status_simps assms option.case ..

lemma save_stages:
  assumes save: "saveLocked ord d fs = (fs', r)" and m: "marshal_checkpoint (with_status d) = Some m"
  shows "(wf_store fs \<longrightarrow> wf_store fs') \<and> state_dirs fs' = state_dirs fs \<and>
    (r = Inr () \<and> abs_store fs' = save_completed d (save_latest d (save_record d m (abs_store fs))) \<or>
     r \<noteq> Inr () \<and> abs_store fs' \<in> {abs_store fs, save_record d m (abs_store fs), save_latest d (save_record d m (abs_store fs))})"
proof -
  obtain fs1 r1 where s1: "mkdir_all fs = (fs1, r1)" by fastforce
  have k1: "abs_store fs1 = abs_store fs" "wf_store fs1 = wf_store fs" "state_dirs fs1 = state_dirs fs"
    using s1 abs_store_files [of fs1 fs] by (auto simp: mkdir_all_def split: prod.splits dest: syscall_keeps)
  obtain fs2 r2 where s2: "sync_dirs (ID d) (map snd (visit ord (StateDirs d))) fs1 = (fs2, r2)" by fastforce
  have k2: "abs_store fs2 = abs_store fs" "wf_store fs2 = wf_store fs" "state_dirs fs2 = state_dirs fs"
    using sync_dirs_keeps [OF s2] abs_store_files [of fs2 fs1] k1 by auto
  obtain fs3 r3 where s3: "writeFileSync (checkpoint_path (ID d)) (Json m) fs2 = (fs3, r3)" by fastforce
  note k3 = write_record [OF s3, unfolded k2]
  obtain fs4 r4 where s4: "writeFileSync latest_path (Plain (ID d)) fs3 = (fs4, r4)" by fastforce
  note k4 = write_latest [OF s4]
  obtain fs5 r5 where s5: "writeFileSync latest_completed_path (Plain (ID d)) fs4 = (fs5, r5)" by fastforce
  note k5 = write_completed [OF s5]
  note eq = save [unfolded saveLocked_eq [OF m] s1]
  consider (e1) e where "r1 = Inl e" | (e2) e where "r1 = Inr ()" "r2 = Inl e"
    | (e3) e where "r1 = Inr ()" "r2 = Inr ()" "r3 = Inl e" | (e4) e where "r1 = Inr ()" "r2 = Inr ()" "r3 = Inr ()" "r4 = Inl e"
    | (e5) "r1 = Inr ()" "r2 = Inr ()" "r3 = Inr ()" "r4 = Inr ()"
    by (metis old.sum.exhaust old.unit.exhaust)
  then show ?thesis
  proof cases
    case e5
    then show ?thesis
      using eq s2 s3 s4 s5 k3 k4 k5 k2(3)
      by (cases r5) (auto simp: save_record_def save_latest_def save_completed_def split: if_splits)
  qed (use eq s2 s3 s4 k1 k2 k3 k4 in \<open>auto simp: save_record_def\<close>)
qed

lemma save_succeeds:
  assumes "outcomes fs = []" "marshal_checkpoint (with_status d) = Some m"
    "\<forall>rel\<in>snd ` set (StateDirs d). map_of (state_dirs fs) (ID d, rel) \<noteq> None"
  shows "\<exists>fs'. saveLocked ord d fs = (fs', Inr ()) \<and> outcomes fs' = []"
proof -
  have s1: "mkdir_all fs = (fs, Inr ())" by (simp add: mkdir_all_def assms(1))
  have s2: "sync_dirs (ID d) (map snd (visit ord (StateDirs d))) fs = (fs, Inr ())"
    using assms(1,3) by (intro sync_dirs_ok) auto
  obtain fs3 where s3: "writeFileSync (checkpoint_path (ID d)) (Json m) fs = (fs3, Inr ())" "outcomes fs3 = []"
    using writeFileSync_ok [OF assms(1)] by blast
  obtain fs4 where s4: "writeFileSync latest_path (Plain (ID d)) fs3 = (fs4, Inr ())" "outcomes fs4 = []"
    using writeFileSync_ok [OF s3(2)] by blast
  obtain fs5 where s5: "writeFileSync latest_completed_path (Plain (ID d)) fs4 = (fs5, Inr ())" "outcomes fs5 = []"
    using writeFileSync_ok [OF s4(2)] by blast
  show ?thesis unfolding saveLocked_eq [OF assms(2)] using s1 s2 s3 s4 s5 by simp
qed

text \<open>Reading answers from the abstract store, or fails without changing it.\<close>

definition find_record :: "Store \<Rightarrow> bytes option \<Rightarrow> CheckpointData option" where
  "find_record a p = (case p of None \<Rightarrow> None | Some cid \<Rightarrow> recs a cid)"

definition find_completed :: "Store \<Rightarrow> CheckpointData option" where
  "find_completed a =
     (case completed_id a of
        Some cid \<Rightarrow> recs a cid
      | None \<Rightarrow> (case find_record a (latest_id a) of Some d \<Rightarrow> if \<not> Completed d then None else Some d | None \<Rightarrow> None))"

definition answers :: "'s FileStorage \<Rightarrow> 's FileStorage \<times> (ckpt_error + 'a) \<Rightarrow> 'a \<Rightarrow> bool" where
  "answers fs res x \<longleftrightarrow> files (fst res) = files fs \<and> state_dirs (fst res) = state_dirs fs \<and>
     (outcomes fs = [] \<longrightarrow> outcomes (fst res) = [] \<and> snd res = Inr x) \<and> (snd res = Inr x \<or> (\<exists>e. snd res = Inl e))"

lemma read_file_answers: "answers fs (read_file what p fs) (map_of (files fs) p)"
  by (auto simp: answers_def read_file_def split: prod.splits dest: syscall_keeps)

lemma json_of_wf: "wf_store fs \<Longrightarrow> map_of (files fs) (checkpoint_path cid) = Some c \<Longrightarrow> \<exists>d. c = Json d"
  by (cases c) (auto simp: wf_store_def)

lemma answers_same: "answers fs (fs1, Inr y) x \<Longrightarrow> wf_store fs \<Longrightarrow>
    y = x \<and> wf_store fs1 \<and> abs_store fs1 = abs_store fs \<and> files fs1 = files fs \<and> state_dirs fs1 = state_dirs fs \<and>
    (outcomes fs = [] \<longrightarrow> outcomes fs1 = [])"
  using abs_store_files [of fs1 fs] by (simp add: answers_def)

lemma answers_then:
  assumes "answers fs res x" "wf_store fs"
    "\<And>fs1. wf_store fs1 \<Longrightarrow> files fs1 = files fs \<Longrightarrow> state_dirs fs1 = state_dirs fs \<Longrightarrow> answers fs1 (f x fs1) y"
  shows "answers fs (and_then res f) y"
proof -
  obtain fs1 r where res: "res = (fs1, r)" by fastforce
  show ?thesis
  proof (cases r)
    case (Inl e)
    then show ?thesis using assms(1) by (auto simp: res answers_def)
  next
    case (Inr z)
    have k: "z = x" "wf_store fs1" "files fs1 = files fs" "state_dirs fs1 = state_dirs fs" "outcomes fs = [] \<longrightarrow> outcomes fs1 = []"
      using answers_same [OF assms(1) [unfolded res Inr] assms(2)] by auto
    have "answers fs1 (f x fs1) y" by (rule assms(3) [OF k(2-4)])
    then show ?thesis unfolding answers_def res Inr and_then_simps k(1,3,4) using k(5) by simp
  qed
qed

lemma LoadSpecific_answers:
  assumes wf: "wf_store fs"
  shows "answers fs (loadSpecificLocked cid fs) (recs (abs_store fs) cid)"
  unfolding loadSpecificLocked_def
proof (rule answers_then [OF read_file_answers wf])
  fix fs1 :: "'a FileStorage"
  consider "map_of (files fs) (checkpoint_path cid) = None" | d where "map_of (files fs) (checkpoint_path cid) = Some (Json d)"
    using json_of_wf [OF wf, of cid] by fastforce
  then show "answers fs1 (fs1, case map_of (files fs) (checkpoint_path cid) of None \<Rightarrow> Inr None
      | Some (Json d) \<Rightarrow> Inr (Some d) | Some (Plain _) \<Rightarrow> Inl EUnmarshal) (recs (abs_store fs) cid)"
    by cases (simp_all add: answers_def abs_store_def)
qed

lemma Load_answers:
  assumes wf: "wf_store fs"
  shows "answers fs (loadLatestLocked fs) (find_record (abs_store fs) (latest_id (abs_store fs)))"
  unfolding loadLatestLocked_def
proof (rule answers_then [OF read_file_answers wf])
  fix fs1 :: "'a FileStorage" assume k: "wf_store fs1" "files fs1 = files fs" "state_dirs fs1 = state_dirs fs"
  then have "abs_store fs1 = abs_store fs" using abs_store_files by auto
  then show "answers fs1 (case map_of (files fs) latest_path of None \<Rightarrow> (fs1, Inr None) | Some c \<Rightarrow> loadSpecificLocked (content_bytes c) fs1)
      (find_record (abs_store fs) (latest_id (abs_store fs)))"
    using LoadSpecific_answers [OF k(1)]
    by (cases "map_of (files fs) latest_path") (auto simp: find_record_def abs_store_def answers_def)
qed

lemma LoadLatestCompleted_answers:
  assumes wf: "wf_store fs"
  shows "answers fs (LoadLatestCompleted fs) (find_completed (abs_store fs))"
  unfolding LoadLatestCompleted_def
proof (rule answers_then [OF read_file_answers wf])
  fix fs1 :: "'a FileStorage" assume k: "wf_store fs1" "files fs1 = files fs" "state_dirs fs1 = state_dirs fs"
  have a: "abs_store fs1 = abs_store fs" using k abs_store_files by auto
  let ?sel = "\<lambda>d. case d of None \<Rightarrow> None | Some d \<Rightarrow> if \<not> Completed d then None else Some d"
  have "answers fs1 (and_then (loadLatestLocked fs1) (\<lambda>d fs. (fs, Inr (?sel d)))) (?sel (find_record (abs_store fs1) (latest_id (abs_store fs1))))"
    by (rule answers_then [OF Load_answers [OF k(1)] k(1)]) (simp add: answers_def)
  then show "answers fs1 (case map_of (files fs) latest_completed_path of
      None \<Rightarrow> and_then (loadLatestLocked fs1) (\<lambda>d fs. (fs, Inr (?sel d)))
    | Some c \<Rightarrow> loadSpecificLocked (content_bytes c) fs1) (find_completed (abs_store fs))"
    using LoadSpecific_answers [OF k(1)] unfolding a
    by (cases "map_of (files fs) latest_completed_path")
      (simp_all add: find_completed_def abs_store_pointers cong: option.case_cong)
qed

subsection \<open>Properties\<close>

text \<open>
  C6. Saving a checkpoint is atomic. Whatever system call fails, or if the process dies at any of
  them: the records of other checkpoints stay as they are; reading the newest checkpoint afterwards
  gives either the one that was the newest before or the saved one, complete; and the pointer to the
  newest completed checkpoint only moves, to the saved one, when the save reports success.
  A save that reports success is the newest checkpoint, and the newest completed one if it is completed.
\<close>

theorem checkpoint_save_atomic:
  assumes "wf_store fs" "marshal_checkpoint (with_status d) = Some m" "Save ord d fs = (fs', r)"
  shows "wf_store fs' \<and> (\<forall>cid. cid \<noteq> ID d \<longrightarrow> recs (abs_store fs') cid = recs (abs_store fs) cid) \<and>
    (let new = snd (Load (fs'\<lparr> outcomes := [] \<rparr>)); old = snd (Load (fs\<lparr> outcomes := [] \<rparr>)) in
      new = Inr (Some m) \<or> r \<noteq> Inr () \<and> (new = old \<or> latest_id (abs_store fs) = Some (ID d))) \<and>
    (if r = Inr () \<and> CStatus (with_status d) = StatusCompleted
     then snd (LoadLatestCompleted (fs'\<lparr> outcomes := [] \<rparr>)) = Inr (Some m)
     else completed_id (abs_store fs') = completed_id (abs_store fs))"
proof -
  let ?a = "abs_store fs" and ?a' = "abs_store fs'"
  note st = save_stages [OF assms(3) [unfolded Save_def] assms(2)]
  have same: "wf_store (f\<lparr> outcomes := [] \<rparr>) = wf_store f" "abs_store (f\<lparr> outcomes := [] \<rparr>) = abs_store f" for f :: "'a FileStorage"
    by (simp_all add: wf_store_def abs_store_def)
  have wf': "wf_store fs'" using st assms(1) by blast
  have load: "snd (Load (f\<lparr> outcomes := [] \<rparr>)) = Inr (find_record (abs_store f) (latest_id (abs_store f)))" if "wf_store f" for f :: "'a FileStorage"
    using Load_answers [of "f\<lparr> outcomes := [] \<rparr>"] that by (simp add: Load_def answers_def same)
  have loadc: "snd (LoadLatestCompleted (fs'\<lparr> outcomes := [] \<rparr>)) = Inr (find_completed ?a')"
    using LoadLatestCompleted_answers [of "fs'\<lparr> outcomes := [] \<rparr>"] wf' by (simp add: answers_def same)
  show ?thesis
    using st wf' unfolding load [OF wf'] load [OF assms(1)] loadc Let_def
    by (auto simp: save_record_def save_latest_def save_completed_def find_record_def find_completed_def split: option.splits)
qed

definition demo_data :: "bytes \<Rightarrow> CheckpointData" where
  "demo_data cid = \<lparr> ID = cid, CreatedAt = 0, Operators = [], Source = [], CStatus = StatusPrepared, TxnID = [], StateDirs = [] \<rparr>"

lemma demo_marshal: "valid_utf8 cid \<Longrightarrow> marshal_checkpoint (demo_data cid) = Some (demo_data cid)"
  using i64_in_calendar [of 0]
  by (simp add: marshal_checkpoint_def demo_data_def json_map_def utf8_coerce_valid in_i64_def)

definition demo_fs :: "unit FileStorage" where
  "demo_fs = NewFileStorage [True, True, False]"

lemma demo_fs_wf: "wf_store demo_fs"
  by (simp add: demo_fs_def)

theorem checkpoint_save_atomic_witness:
  "recs (abs_store (fst (Save in_order (demo_data ''a'') demo_fs))) ''b'' =
    recs (abs_store demo_fs) ''b'' \<and>
   wf_store (fst (Save in_order (demo_data ''a'') demo_fs))"
proof -
  have "marshal_checkpoint (with_status (demo_data ''a'')) = Some (demo_data ''a'')"
    using demo_marshal [of "''a''"] valid_utf8_ascii [of "''a''"] by (simp add: with_status_def) (simp add: demo_data_def)
  note at = checkpoint_save_atomic [OF demo_fs_wf this prod.collapse [symmetric], of in_order]
  have "''b'' \<noteq> ID (demo_data ''a'')" by (simp add: demo_data_def)
  then show ?thesis using conjunct1 [OF at] conjunct1 [OF conjunct2 [OF at]] by simp
qed

end
