(* ===== verification/Checkpoint_Coord.thy ===== *)
theory Checkpoint_Coord
  imports Checkpoint_Store
begin

text \<open>
  \<open>checkpoint/coordinator.go\<close>: the coordinator of the two-phase checkpoint protocol. Its state, the
  storage and the sink are passed explicitly. The callbacks run under the coordinator's lock, so each
  is one step; the finalize worker takes identifiers from a queue. The sink is any
  implementation of \<open>sink.CheckpointedSink\<close> (\<open>sink/sink.go\<close>), given by its operations.
\<close>

subsection \<open>The sink interface\<close>

text \<open>\<open>Commit\<close> and \<open>Abort\<close> tell whether they succeeded, \<open>WasCommitted\<close> may fail to answer.\<close>

record 'k CheckpointedSink =
  Commit :: "bytes \<Rightarrow> 'k \<Rightarrow> 'k \<times> bool"
  Abort :: "bytes \<Rightarrow> 'k \<Rightarrow> 'k \<times> bool"
  WasCommitted :: "bytes \<Rightarrow> 'k \<Rightarrow> 'k \<times> bool option"

subsection \<open>The coordinator\<close>

datatype Step = StepPersistPrepared | StepSinkCommitted | StepPersistCompleted | StepOffsetsCommitted

datatype HookAction = HookContinue | HookFail | HookHalt

record pendingCheckpoint =
  offsets :: "bytes option"
  pstate :: "(bytes, bytes) gomap"
  pstateDirs :: "(bytes, bytes) gomap"
  prepared :: bool
  sinkErr :: "bytes option"

datatype coord_error =
    SinkPrepareFailed bytes
  | PersistPrepared bytes ckpt_error
  | SinkCommitFailed bytes
  | PersistCompleted bytes ckpt_error
  | Injected bytes Step

text \<open>\<open>completed_calls\<close> and \<open>offset_commits\<close> record the calls of the two callbacks.\<close>

record Coordinator =
  pending :: "(bytes, pendingCheckpoint) gomap"
  halted :: bool
  events :: "bytes list"
  fatal :: "coord_error option"
  completed_calls :: "bytes list"
  offset_commits :: "bytes list"

record ('k, 's) world =
  coord :: Coordinator
  storage :: "'s FileStorage"
  sink :: 'k

text \<open>The configuration: the clock, the map order, the sink, the hook, whether offsets are committed.\<close>

record 'k coord_config =
  now :: gotime
  dir_order :: "(bytes \<times> bytes) range_ord"
  cfg_sink :: "'k CheckpointedSink"
  cfg_txn :: bytes
  hook :: "(Step \<Rightarrow> bytes \<Rightarrow> HookAction) option"
  commits_offsets :: bool

definition NewCoordinator :: Coordinator where
  "NewCoordinator = \<lparr> pending = [], halted = False, events = [], fatal = None, completed_calls = [], offset_commits = [] \<rparr>"

definition new_pending :: pendingCheckpoint where
  "new_pending = \<lparr> offsets = None, pstate = [], pstateDirs = [], prepared = False, sinkErr = None \<rparr>"

definition ensure :: "bytes \<Rightarrow> Coordinator \<Rightarrow> pendingCheckpoint" where
  "ensure cid c = (case map_of (pending c) cid of Some p \<Rightarrow> p | None \<Rightarrow> new_pending)"

definition OnBarrierInjected :: "bytes \<Rightarrow> bytes \<Rightarrow> Coordinator \<Rightarrow> Coordinator" where
  "OnBarrierInjected cid offs c = c\<lparr> pending := map_put cid ((ensure cid c)\<lparr> offsets := Some offs \<rparr>) (pending c) \<rparr>"

definition OnStateSnapshot :: "bytes \<Rightarrow> (bytes, bytes) gomap \<Rightarrow> (bytes, bytes) gomap \<Rightarrow> Coordinator \<Rightarrow> Coordinator" where
  "OnStateSnapshot cid st dirs c =
     c\<lparr> pending := map_put cid ((ensure cid c)\<lparr> pstate := st, pstateDirs := dirs \<rparr>) (pending c) \<rparr>"

definition OnSinkPrepared :: "bytes \<Rightarrow> bytes option \<Rightarrow> Coordinator \<Rightarrow> Coordinator" where
  "OnSinkPrepared cid err c =
     (let c1 = c\<lparr> pending := map_put cid ((ensure cid c)\<lparr> prepared := True, sinkErr := err \<rparr>) (pending c) \<rparr>
      in if halted c1 then c1 else c1\<lparr> events := events c1 @ [cid] \<rparr>)"

text \<open>The channel holds the first error only.\<close>

definition reportFatal :: "coord_error \<Rightarrow> ('k, 's) world \<Rightarrow> ('k, 's) world" where
  "reportFatal e w = (if fatal (coord w) = None then w\<lparr> coord := (coord w)\<lparr> fatal := Some e \<rparr> \<rparr> else w)"

definition cleanupStateDirs :: "bytes \<Rightarrow> ('k, 's) world \<Rightarrow> ('k, 's) world" where
  "cleanupStateDirs cid w = w\<lparr> storage := DeleteStateDirs cid (storage w) \<rparr>"

definition abortFatal :: "'k coord_config \<Rightarrow> bytes \<Rightarrow> coord_error \<Rightarrow> ('k, 's) world \<Rightarrow> ('k, 's) world" where
  "abortFatal cfg cid e w =
     (let w1 = w\<lparr> sink := fst (Abort (cfg_sink cfg) cid (sink w)) \<rparr>
      in reportFatal e (cleanupStateDirs cid w1))"

definition step :: "'k coord_config \<Rightarrow> Step \<Rightarrow> bytes \<Rightarrow> ('k, 's) world \<Rightarrow> ('k, 's) world \<times> bool" where
  "step cfg s cid w =
     (case hook cfg of
        None \<Rightarrow> (w, True)
      | Some h \<Rightarrow>
          (case h s cid of
             HookFail \<Rightarrow> (abortFatal cfg cid (Injected cid s) w, False)
           | HookHalt \<Rightarrow> (w\<lparr> coord := (coord w)\<lparr> halted := True \<rparr> \<rparr>, False)
           | HookContinue \<Rightarrow> (w, True)))"

definition checkpoint_data :: "'k coord_config \<Rightarrow> bytes \<Rightarrow> pendingCheckpoint \<Rightarrow> CheckpointData" where
  "checkpoint_data cfg cid p =
     \<lparr> ID = cid, CreatedAt = now cfg, Operators = pstate p,
       Source = (case offsets p of Some offs \<Rightarrow> [(''offset'', offs)] | None \<Rightarrow> []),
       CStatus = StatusPrepared, TxnID = cfg_txn cfg, StateDirs = pstateDirs p \<rparr>"

text \<open>The protocol after the sink has prepared; each stage returns when the hook stops it.\<close>

definition finalize_offsets :: "'k coord_config \<Rightarrow> bytes \<Rightarrow> pendingCheckpoint \<Rightarrow> ('k, 's) world \<Rightarrow> ('k, 's) world" where
  "finalize_offsets cfg cid p w =
     (let w1 = (case offsets p of
                  Some offs \<Rightarrow> if commits_offsets cfg
                    then w\<lparr> coord := (coord w)\<lparr> offset_commits := offset_commits (coord w) @ [offs] \<rparr> \<rparr> else w
                | None \<Rightarrow> w)
      in fst (step cfg StepOffsetsCommitted cid w1))"

definition finalize_completed :: "'k coord_config \<Rightarrow> bytes \<Rightarrow> pendingCheckpoint \<Rightarrow> ('k, 's) world \<Rightarrow> ('k, 's) world" where
  "finalize_completed cfg cid p w =
     (case UpdateStatus (dir_order cfg) cid StatusCompleted (storage w) of
        (fs, Inl e) \<Rightarrow> reportFatal (PersistCompleted cid e) (w\<lparr> storage := fs \<rparr>)
      | (fs, Inr _) \<Rightarrow>
          (let w1 = w\<lparr> storage := fs, coord := (coord w)\<lparr> completed_calls := completed_calls (coord w) @ [cid] \<rparr> \<rparr>;
               (w2, go_on) = step cfg StepPersistCompleted cid w1
           in if \<not> go_on then w2 else finalize_offsets cfg cid p w2))"

definition finalize_commit :: "'k coord_config \<Rightarrow> bytes \<Rightarrow> pendingCheckpoint \<Rightarrow> ('k, 's) world \<Rightarrow> ('k, 's) world" where
  "finalize_commit cfg cid p w =
     (case Commit (cfg_sink cfg) cid (sink w) of
        (k, False) \<Rightarrow> reportFatal (SinkCommitFailed cid) (w\<lparr> sink := k \<rparr>)
      | (k, True) \<Rightarrow>
          (let (w1, go_on) = step cfg StepSinkCommitted cid (w\<lparr> sink := k \<rparr>)
           in if \<not> go_on then w1 else finalize_completed cfg cid p w1))"

definition finalize_prepared :: "'k coord_config \<Rightarrow> bytes \<Rightarrow> pendingCheckpoint \<Rightarrow> ('k, 's) world \<Rightarrow> ('k, 's) world" where
  "finalize_prepared cfg cid p w =
     (case Save (dir_order cfg) (checkpoint_data cfg cid p) (storage w) of
        (fs, Inl e) \<Rightarrow> abortFatal cfg cid (PersistPrepared cid e) (w\<lparr> storage := fs \<rparr>)
      | (fs, Inr _) \<Rightarrow>
          (let (w1, go_on) = step cfg StepPersistPrepared cid (w\<lparr> storage := fs \<rparr>)
           in if \<not> go_on then w1 else finalize_commit cfg cid p w1))"

definition finalize :: "'k coord_config \<Rightarrow> bytes \<Rightarrow> ('k, 's) world \<Rightarrow> ('k, 's) world" where
  "finalize cfg cid w =
     (if halted (coord w) then w
      else case map_of (pending (coord w)) cid of
             None \<Rightarrow> w
           | Some p \<Rightarrow>
               (let w1 = w\<lparr> coord := (coord w)\<lparr> pending := map_del cid (pending (coord w)) \<rparr> \<rparr>
                in case sinkErr p of
                     Some e \<Rightarrow> abortFatal cfg cid (SinkPrepareFailed cid) w1
                   | None \<Rightarrow> finalize_prepared cfg cid p w1))"

text \<open>The worker takes the next identifier; \<open>Stop\<close> halts first and then lets it drain the queue.\<close>

definition worker_step :: "'k coord_config \<Rightarrow> ('k, 's) world \<Rightarrow> ('k, 's) world" where
  "worker_step cfg w =
     (case events (coord w) of
        [] \<Rightarrow> w
      | cid # ids \<Rightarrow> finalize cfg cid (w\<lparr> coord := (coord w)\<lparr> events := ids \<rparr> \<rparr>))"

fun drain :: "'k coord_config \<Rightarrow> bytes list \<Rightarrow> ('k, 's) world \<Rightarrow> ('k, 's) world" where
  "drain cfg [] w = w"
| "drain cfg (cid # ids) w = drain cfg ids (finalize cfg cid (w\<lparr> coord := (coord w)\<lparr> events := ids \<rparr> \<rparr>))"

definition Stop :: "'k coord_config \<Rightarrow> ('k, 's) world \<Rightarrow> ('k, 's) world" where
  "Stop cfg w = drain cfg (events (coord w)) (w\<lparr> coord := (coord w)\<lparr> halted := True \<rparr> \<rparr>)"

end
