(* ===== verification/Exactly_Once.thy ===== *)
theory Exactly_Once
  imports Checkpoint_Coord
begin

text \<open>
  Recovery of the exactly-once mode (\<open>resolveCoordinatedRecovery\<close> in \<open>mailer.go\<close>) and what the
  protocol of \<open>Checkpoint_Coord\<close> and the storage of \<open>Checkpoint_Store\<close> guarantee together: after any
  failure of a system call, of the sink or of the process inside a checkpoint, a restart resumes from
  the last checkpoint whose sink transaction committed.
\<close>

subsection \<open>The recovery decision table\<close>

datatype recovery_error = ELoadLatest ckpt_error | EResolve bytes | EPromote bytes ckpt_error | ELoadCompleted ckpt_error

definition resolveCoordinatedRecovery ::
  "(bytes \<times> bytes) range_ord \<Rightarrow> 'k CheckpointedSink \<Rightarrow> 'k \<Rightarrow> 's FileStorage \<Rightarrow>
    'k \<times> 's FileStorage \<times> (recovery_error + CheckpointData option)" where
  "resolveCoordinatedRecovery ord cs k fs =
     (case Load fs of
        (fs, Inl e) \<Rightarrow> (k, fs, Inl (ELoadLatest e))
      | (fs, Inr None) \<Rightarrow> (k, fs, Inr None)
      | (fs, Inr (Some latest)) \<Rightarrow>
          if Completed latest then (k, fs, Inr (Some latest))
          else (case WasCommitted cs (ID latest) k of
                  (k, None) \<Rightarrow> (k, fs, Inl (EResolve (ID latest)))
                | (k, Some committed) \<Rightarrow>
                    if committed
                    then (case UpdateStatus ord (ID latest) StatusCompleted fs of
                            (fs, Inl e) \<Rightarrow> (k, fs, Inl (EPromote (ID latest) e))
                          | (fs, Inr _) \<Rightarrow> (k, fs, Inr (Some (latest\<lparr> CStatus := StatusCompleted \<rparr>))))
                    else (let k = fst (Abort cs (ID latest) k)
                          in case LoadLatestCompleted fs of
                               (fs, Inl e) \<Rightarrow> (k, fs, Inl (ELoadCompleted e))
                             | (fs, Inr d) \<Rightarrow> (k, fs, Inr d))))"

subsection \<open>The contract of a checkpointed sink\<close>

text \<open>
  \<open>committed\<close> and \<open>visible\<close> are what a reader of the output sees: the checkpoints whose transaction
  committed and the records. \<open>staged k cid\<close> is the output in the open transaction once the barrier of
  \<open>cid\<close> has been flushed into it. A commit that reports a failure may or may not have happened.
\<close>

locale checkpointed_sink =
  fixes cs :: "'k CheckpointedSink"
    and sinv :: "'k \<Rightarrow> bool"
    and committed :: "'k \<Rightarrow> bytes set"
    and visible :: "'k \<Rightarrow> 'o list"
    and staged :: "'k \<Rightarrow> bytes \<Rightarrow> 'o list option"
  assumes commit_sink: "sinv k \<Longrightarrow> staged k cid = Some outs \<Longrightarrow> sinv (fst (Commit cs cid k)) \<and>
      (committed (fst (Commit cs cid k)) = insert cid (committed k) \<and> visible (fst (Commit cs cid k)) = visible k @ outs \<or>
       committed (fst (Commit cs cid k)) = committed k \<and> visible (fst (Commit cs cid k)) = visible k \<and> \<not> snd (Commit cs cid k))"
    and abort_sink: "sinv k \<Longrightarrow> sinv (fst (Abort cs cid k)) \<and> committed (fst (Abort cs cid k)) = committed k \<and>
      visible (fst (Abort cs cid k)) = visible k"
    and probe_sink: "sinv k \<Longrightarrow> sinv (fst (WasCommitted cs cid k)) \<and> committed (fst (WasCommitted cs cid k)) = committed k \<and>
      visible (fst (WasCommitted cs cid k)) = visible k \<and>
      (\<forall>b. snd (WasCommitted cs cid k) = Some b \<longrightarrow> b = (cid \<in> committed k))"

subsection \<open>Store and sink agree on the last committed checkpoint\<close>

text \<open>\<open>lc\<close> is the last checkpoint whose transaction committed, none at the start.\<close>

definition consistent :: "Store \<Rightarrow> bytes set \<Rightarrow> bytes option \<Rightarrow> bool" where
  "consistent a C lc \<longleftrightarrow>
     (\<forall>c. lc = Some c \<longrightarrow> c \<in> C) \<and>
     (\<forall>c d. recs a c = Some d \<longrightarrow> ID d = c \<and> valid_utf8 c \<and> marshal_checkpoint d = Some d) \<and>
     (\<forall>c. lc = Some c \<longrightarrow> recs a c \<noteq> None) \<and>
     (case latest_id a of
        None \<Rightarrow> lc = None \<and> completed_id a = None
      | Some c \<Rightarrow> (case recs a c of
          None \<Rightarrow> False
        | Some d \<Rightarrow> if Completed d \<or> c \<in> C then lc = Some c else completed_id a = lc))"

text \<open>The newest record is completed but the pointer to the newest completed one is behind.\<close>

definition stale :: "Store \<Rightarrow> bool" where
  "stale a \<longleftrightarrow> (\<exists>c d. latest_id a = Some c \<and> recs a c = Some d \<and> Completed d \<and> completed_id a \<noteq> Some c)"

definition ready :: "Store \<Rightarrow> bytes set \<Rightarrow> bytes option \<Rightarrow> bool" where
  "ready a C lc \<longleftrightarrow> consistent a C lc \<and> completed_id a = lc"

definition last_after :: "bytes \<Rightarrow> bytes set \<Rightarrow> bytes option \<Rightarrow> bytes option" where
  "last_after cid C lc = (if cid \<in> C then Some cid else lc)"

text \<open>A record survives a second trip through JSON.\<close>

lemma json_map_values: "snd ` set (json_map m) \<subseteq> snd ` set m"
proof -
  have "snd ` set (fold (\<lambda>(k, v) acc. map_put (utf8_coerce k) v acc) xs acc) \<subseteq> snd ` set xs \<union> snd ` set acc"
    for xs and acc :: "(bytes, 'a) gomap"
  proof (induction xs arbitrary: acc)
    case (Cons x xs)
    have "snd ` set (map_put k v acc) \<subseteq> insert v (snd ` set acc)" for k v and acc :: "(bytes, 'a) gomap"
      by (induction acc) auto
    from this [of "utf8_coerce (fst x)" "snd x" acc] Cons.IH [of "map_put (utf8_coerce (fst x)) (snd x) acc"]
    show ?case by (simp add: case_prod_beta) (rule subset_trans, assumption, blast)
  qed simp
  from this [of "sort_key fst m" "[]"] show ?thesis by (simp add: json_map_def)
qed

lemma json_dirs_idem:
  fixes m :: "(bytes, bytes) gomap"
  defines "c \<equiv> map (\<lambda>(k, v). (k :: bytes, utf8_coerce v))"
  shows "json_map (c (json_map (c m))) = json_map (c m)"
proof -
  have "valid_utf8 v" if "(k, v) \<in> set (json_map (c m))" for k v
    using json_map_values [of "c m"] that by (force simp: c_def)
  then have "c (json_map (c m)) = json_map (c m)"
    unfolding c_def by (intro map_idI) (auto simp: utf8_coerce_valid)
  then show ?thesis by (simp add: json_map_idem)
qed

lemma marshal_idem: "marshal_checkpoint d = Some m \<Longrightarrow> marshal_checkpoint m = Some m"
  by (auto simp: marshal_checkpoint_def json_map_idem json_dirs_idem utf8_coerce_valid split: if_splits)

lemma marshal_status: "marshal_checkpoint d = Some d \<Longrightarrow> marshal_checkpoint (d\<lparr> CStatus := s \<rparr>) = Some (d\<lparr> CStatus := s \<rparr>)"
  by (cases d) (auto simp: marshal_checkpoint_def split: if_splits)

lemma marshal_ID: "marshal_checkpoint d = Some m \<Longrightarrow> valid_utf8 (ID d) \<Longrightarrow> ID m = ID d \<and> CStatus m = CStatus d"
  by (auto simp: marshal_checkpoint_def utf8_coerce_valid split: if_splits)

text \<open>Storing the prepared record, stage by stage.\<close>

definition fresh_id :: "Store \<Rightarrow> bytes set \<Rightarrow> bytes \<Rightarrow> bool" where
  "fresh_id a C cid \<longleftrightarrow> recs a cid = None \<and> cid \<notin> C \<and> valid_utf8 cid"

lemma prepared_stages:
  assumes "ready a C lc" "fresh_id a C (ID d)" "marshal_checkpoint d = Some m" "CStatus d = StatusPrepared"
  shows "consistent a C lc" "consistent (save_record d m a) C lc"
    "ready (save_latest d (save_record d m a)) C lc"
    "consistent (save_latest d (save_record d m a)) (insert (ID d) C) (Some (ID d))"
proof -
  have a: "consistent a C lc" "completed_id a = lc" and f: "recs a (ID d) = None" "ID d \<notin> C" "valid_utf8 (ID d)"
    using assms(1,2) by (simp_all add: ready_def fresh_id_def)
  have m: "ID m = ID d" "CStatus m = StatusPrepared" "marshal_checkpoint m = Some m" "\<not> Completed m"
    using marshal_ID [OF assms(3) f(3)] marshal_idem [OF assms(3)] assms(4) by (simp_all add: Completed_def)
  have "lc \<noteq> Some (ID d)" using a f by (auto simp: consistent_def)
  then show "consistent a C lc" "consistent (save_record d m a) C lc"
    "ready (save_latest d (save_record d m a)) C lc"
    "consistent (save_latest d (save_record d m a)) (insert (ID d) C) (Some (ID d))"
    using a f m
    by (auto simp: consistent_def ready_def save_record_def save_latest_def split: option.splits)
qed

lemma promoted_stages:
  assumes "consistent a C (Some cid)" "latest_id a = Some cid" "recs a cid = Some d" "cid \<in> C"
  defines "d' \<equiv> d\<lparr> CStatus := StatusCompleted \<rparr>"
  shows "consistent (save_record d' d' a) C (Some cid)" "consistent (save_latest d' (save_record d' d' a)) C (Some cid)"
    "ready (save_completed d' (save_latest d' (save_record d' d' a))) C (Some cid)"
proof -
  have d: "ID d = cid" "valid_utf8 cid" "marshal_checkpoint d = Some d" using assms(1,3) by (auto simp: consistent_def)
  then have d': "ID d' = cid" "marshal_checkpoint d' = Some d'" "Completed d'" "CStatus (with_status d') = StatusCompleted"
    using marshal_status by (simp_all add: d'_def Completed_def with_status_def)
  show "consistent (save_record d' d' a) C (Some cid)" "consistent (save_latest d' (save_record d' d' a)) C (Some cid)"
    "ready (save_completed d' (save_latest d' (save_record d' d' a))) C (Some cid)"
    using assms d d'
    by (auto simp: consistent_def ready_def save_record_def save_latest_def save_completed_def split: option.splits)
qed

text \<open>The source positions in the records.\<close>

definition sources :: "Store \<Rightarrow> bytes \<Rightarrow> (bytes, bytes) gomap option" where
  "sources a = (\<lambda>c. map_option Source (recs a c))"

lemma UpdateStatus_promotes:
  assumes "wf_store fs" "consistent (abs_store fs) C (Some cid)" "latest_id (abs_store fs) = Some cid" "cid \<in> C"
    "UpdateStatus ord cid StatusCompleted fs = (fs', r)"
  shows "wf_store fs' \<and> consistent (abs_store fs') C (Some cid) \<and> (r = Inr () \<longrightarrow> ready (abs_store fs') C (Some cid)) \<and>
    latest_id (abs_store fs') = Some cid \<and> sources (abs_store fs') = sources (abs_store fs)"
proof -
  obtain d where d: "recs (abs_store fs) cid = Some d" using assms(2) by (auto simp: consistent_def)
  define d' where "d' = d\<lparr> CStatus := StatusCompleted \<rparr>"
  obtain fs1 r1 where l: "loadSpecificLocked cid fs = (fs1, r1)" by fastforce
  have k: "answers fs (fs1, r1) (Some d)" using LoadSpecific_answers [OF assms(1), of cid] by (simp add: l d)
  have k1: "wf_store fs1" "abs_store fs1 = abs_store fs" using k assms(1) abs_store_files [of fs1 fs] by (auto simp: answers_def)
  show ?thesis
  proof (cases "\<exists>e. r1 = Inl e")
    case True
    then show ?thesis using assms k1 l by (auto simp: UpdateStatus_def)
  next
    case False
    then have r1: "r1 = Inr (Some d)" using k by (auto simp: answers_def)
    then have s: "saveLocked ord d' fs1 = (fs', r)" using assms(5) l by (simp add: UpdateStatus_def d'_def)
    have "marshal_checkpoint d = Some d" "ID d = cid" using assms(2) d by (auto simp: consistent_def)
    then have m: "marshal_checkpoint (with_status d') = Some d'" "ID d' = cid"
      using marshal_status by (simp_all add: d'_def with_status_def)
    note st = save_stages [OF s m(1), unfolded k1(2)]
    note p = promoted_stages [OF assms(2,3) d assms(4), folded d'_def]
    have lat: "latest_id (save_record d' d' (abs_store fs)) = Some cid" "latest_id (save_latest d' (save_record d' d' (abs_store fs))) = Some cid"
      "latest_id (save_completed d' (save_latest d' (save_record d' d' (abs_store fs)))) = Some cid"
      using assms(3) m(2) by (simp_all add: save_record_def save_latest_def save_completed_def)
    have src: "sources (save_record d' d' (abs_store fs)) = sources (abs_store fs)"
      using d m(2) by (auto simp: sources_def save_record_def d'_def fun_eq_iff)
    then have "sources (save_latest d' (save_record d' d' (abs_store fs))) = sources (abs_store fs)"
      "sources (save_completed d' (save_latest d' (save_record d' d' (abs_store fs)))) = sources (abs_store fs)"
      by (simp_all add: sources_def save_latest_def save_completed_def)
    then show ?thesis using st p lat src assms(2,3) k1(1) unfolding ready_def by auto
  qed
qed

subsection \<open>One checkpoint, with every failure\<close>

text \<open>The hook may simulate a crash at any step; injected failures are left to the tests.\<close>

definition no_injection :: "'k coord_config \<Rightarrow> bool" where
  "no_injection cfg \<longleftrightarrow> (\<forall>h s cid. hook cfg = Some h \<longrightarrow> h s cid \<noteq> HookFail)"

definition alive :: "('k, 's) world \<Rightarrow> bool" where
  "alive w \<longleftrightarrow> fatal (coord w) = None \<and> \<not> halted (coord w)"

lemma step_keeps:
  assumes "no_injection cfg" "step cfg s cid w = (w', go_on)"
  shows "storage w' = storage w \<and> sink w' = sink w \<and> (go_on \<longrightarrow> w' = w) \<and> (\<not> go_on \<longrightarrow> \<not> alive w')"
  using assms by (auto simp: step_def no_injection_def alive_def split: option.splits HookAction.splits)

lemma reportFatal_keeps: "storage (reportFatal e w) = storage w \<and> sink (reportFatal e w) = sink w \<and> \<not> alive (reportFatal e w)"
  by (simp add: reportFatal_def alive_def)

lemma abs_DeleteStateDirs [simp]: "abs_store (DeleteStateDirs cid fs) = abs_store fs" "wf_store (DeleteStateDirs cid fs) = wf_store fs"
  by (simp_all add: DeleteStateDirs_def abs_store_def wf_store_def)

subsection \<open>Lives of a pipeline\<close>

text \<open>
  The pipeline is deterministic: \<open>out i j\<close> is what it emits for the input from position \<open>i\<close> to
  \<open>j\<close>, when it starts with the operator state of position \<open>i\<close>. A life starts with recovery, which
  tells the position to resume from, and goes on with checkpoints until one of them fails or the
  process dies inside it. In a life, the output since the last barrier is staged in the sink together
  with the barrier, and the offsets of the new checkpoint are those of its position. System calls
  fail at will: every life and every checkpoint meets an arbitrary list of outcomes.
\<close>

definition source_pos :: "(bytes \<Rightarrow> nat) \<Rightarrow> (bytes, bytes) gomap option \<Rightarrow> nat" where
  "source_pos dec src =
     (case src of None \<Rightarrow> 0 | Some m \<Rightarrow> (case map_of m ''offset'' of Some b \<Rightarrow> dec b | None \<Rightarrow> 0))"

definition resume_at :: "(bytes \<Rightarrow> nat) \<Rightarrow> CheckpointData option \<Rightarrow> nat" where
  "resume_at dec d = source_pos dec (map_option Source d)"

inductive lives ::
  "'k CheckpointedSink \<Rightarrow> ('k \<Rightarrow> bool) \<Rightarrow> ('k \<Rightarrow> bytes set) \<Rightarrow> ('k \<Rightarrow> 'o list) \<Rightarrow> ('k \<Rightarrow> bytes \<Rightarrow> 'o list option) \<Rightarrow>
    (nat \<Rightarrow> bytes) \<Rightarrow> (bytes \<Rightarrow> nat) \<Rightarrow> (nat \<Rightarrow> nat \<Rightarrow> 'o list) \<Rightarrow> ('k, 's) world \<Rightarrow> bytes option \<Rightarrow> nat option \<Rightarrow> bool"
  for cs sinv committed visible staged enc dec out where
  first_start: "sinv k \<Longrightarrow> committed k = {} \<Longrightarrow> visible k = [] \<Longrightarrow>
    lives cs sinv committed visible staged enc dec out \<lparr> coord = NewCoordinator, storage = NewFileStorage os, sink = k \<rparr> None None"
| restart: "lives cs sinv committed visible staged enc dec out w lc pos \<Longrightarrow> \<not> stale (abs_store (storage w)) \<Longrightarrow>
    resolveCoordinatedRecovery ord cs (sink w) ((storage w)\<lparr> outcomes := os \<rparr>) = (k, fs, Inr d) \<Longrightarrow>
    lives cs sinv committed visible staged enc dec out \<lparr> coord = NewCoordinator, storage = fs, sink = k \<rparr> lc (Some (resume_at dec d))"
| failed_restart: "lives cs sinv committed visible staged enc dec out w lc pos \<Longrightarrow>
    resolveCoordinatedRecovery ord cs (sink w) ((storage w)\<lparr> outcomes := os \<rparr>) = (k, fs, Inl e) \<Longrightarrow>
    lives cs sinv committed visible staged enc dec out \<lparr> coord = NewCoordinator, storage = fs, sink = k \<rparr> lc None"
| checkpoint: "lives cs sinv committed visible staged enc dec out w lc (Some i) \<Longrightarrow>
    sinv k \<Longrightarrow> committed k = committed (sink w) \<Longrightarrow> visible k = visible (sink w) \<Longrightarrow>
    no_injection cfg \<Longrightarrow> cfg_sink cfg = cs \<Longrightarrow> fatal c = None \<Longrightarrow> \<not> halted c \<Longrightarrow>
    map_of (pending c) cid = Some p \<Longrightarrow> offsets p = Some (enc j) \<Longrightarrow> i \<le> j \<Longrightarrow> (sinkErr p = None \<longrightarrow> staged k cid = Some (out i j)) \<Longrightarrow>
    marshal_checkpoint (checkpoint_data cfg cid p) = Some m \<Longrightarrow> fresh_id (abs_store (storage w)) (committed (sink w)) cid \<Longrightarrow>
    finalize cfg cid (w\<lparr> coord := c, storage := (storage w)\<lparr> outcomes := os \<rparr>, sink := k \<rparr>) = w' \<Longrightarrow>
    lives cs sinv committed visible staged enc dec out w' (last_after cid (committed (sink w')) lc)
      (if alive w' then Some j else None)"

context checkpointed_sink
begin

definition agree :: "('k, 's) world \<Rightarrow> bytes option \<Rightarrow> bool" where
  "agree w lc \<longleftrightarrow> wf_store (storage w) \<and> sinv (sink w) \<and> consistent (abs_store (storage w)) (committed (sink w)) lc \<and>
     (alive w \<longrightarrow> ready (abs_store (storage w)) (committed (sink w)) lc)"

lemma agreeI:
  "wf_store (storage w) \<Longrightarrow> sinv (sink w) \<Longrightarrow> consistent (abs_store (storage w)) (committed (sink w)) lc \<Longrightarrow> \<not> alive w \<Longrightarrow> agree w lc"
  "wf_store (storage w) \<Longrightarrow> sinv (sink w) \<Longrightarrow> ready (abs_store (storage w)) (committed (sink w)) lc \<Longrightarrow> agree w lc"
  by (simp_all add: agree_def ready_def)

lemma abort_agrees:
  assumes "cfg_sink cfg = cs" "wf_store (storage w)" "sinv (sink w)" "consistent (abs_store (storage w)) (committed (sink w)) lc"
  shows "agree (abortFatal cfg cid e w) lc \<and> committed (sink (abortFatal cfg cid e w)) = committed (sink w) \<and>
    visible (sink (abortFatal cfg cid e w)) = visible (sink w) \<and> \<not> alive (abortFatal cfg cid e w) \<and>
    abs_store (storage (abortFatal cfg cid e w)) = abs_store (storage w)"
  using assms abort_sink [OF assms(3), of cid] reportFatal_keeps
  by (auto simp: abortFatal_def cleanupStateDirs_def Let_def intro!: agreeI(1))

lemma offsets_agrees:
  assumes "no_injection cfg" "wf_store (storage w)" "sinv (sink w)" "ready (abs_store (storage w)) (committed (sink w)) lc"
  shows "agree (finalize_offsets cfg cid p w) lc \<and> sink (finalize_offsets cfg cid p w) = sink w \<and>
    storage (finalize_offsets cfg cid p w) = storage w"
proof -
  define w1 where "w1 = (case offsets p of
      Some offs \<Rightarrow> if commits_offsets cfg
        then w\<lparr> coord := (coord w)\<lparr> offset_commits := offset_commits (coord w) @ [offs] \<rparr> \<rparr> else w
    | None \<Rightarrow> w)"
  have w1: "storage w1 = storage w" "sink w1 = sink w" by (simp_all add: w1_def split: option.splits)
  obtain w2 g where st: "step cfg StepOffsetsCommitted cid w1 = (w2, g)" by fastforce
  then have "finalize_offsets cfg cid p w = w2" by (simp add: finalize_offsets_def w1_def)
  then show ?thesis using step_keeps [OF assms(1) st] assms(2-4) by (auto simp: w1 intro!: agreeI(2))
qed

lemma completed_agrees:
  assumes "no_injection cfg" "wf_store (storage w)" "sinv (sink w)" "consistent (abs_store (storage w)) (committed (sink w)) (Some cid)"
    "latest_id (abs_store (storage w)) = Some cid" "cid \<in> committed (sink w)"
  shows "agree (finalize_completed cfg cid p w) (Some cid) \<and> sink (finalize_completed cfg cid p w) = sink w \<and>
    sources (abs_store (storage (finalize_completed cfg cid p w))) = sources (abs_store (storage w))"
proof -
  obtain fs r where u: "UpdateStatus (dir_order cfg) cid StatusCompleted (storage w) = (fs, r)" by fastforce
  note k = UpdateStatus_promotes [OF assms(2,4,5,6) u]
  show ?thesis
  proof (cases r)
    case (Inl e)
    then have "finalize_completed cfg cid p w = reportFatal (PersistCompleted cid e) (w\<lparr> storage := fs \<rparr>)"
      using u by (simp add: finalize_completed_def)
    then show ?thesis using k assms(3) reportFatal_keeps by (auto intro!: agreeI(1))
  next
    case (Inr x)
    define w1 where "w1 = w\<lparr> storage := fs, coord := (coord w)\<lparr> completed_calls := completed_calls (coord w) @ [cid] \<rparr> \<rparr>"
    obtain w2 g where st: "step cfg StepPersistCompleted cid w1 = (w2, g)" by fastforce
    have eq: "finalize_completed cfg cid p w = (if \<not> g then w2 else finalize_offsets cfg cid p w2)"
      using u Inr st by (simp add: finalize_completed_def w1_def)
    note k2 = step_keeps [OF assms(1) st]
    have r: "ready (abs_store (storage w2)) (committed (sink w2)) (Some cid)" "wf_store (storage w2)" "sinv (sink w2)" "sink w2 = sink w"
      "sources (abs_store (storage w2)) = sources (abs_store (storage w))"
      using k k2 Inr assms(3) by (simp_all add: w1_def)
    show ?thesis unfolding eq using r offsets_agrees [OF assms(1) r(2,3,1)] by (auto intro!: agreeI(2))
  qed
qed

lemma commit_agrees:
  assumes "no_injection cfg" "cfg_sink cfg = cs" "wf_store (storage w)" "sinv (sink w)"
    "consistent (abs_store (storage w)) (committed (sink w)) lc"
    "consistent (abs_store (storage w)) (insert cid (committed (sink w))) (Some cid)"
    "latest_id (abs_store (storage w)) = Some cid" "cid \<notin> committed (sink w)" "staged (sink w) cid = Some outs"
  shows "agree (finalize_commit cfg cid p w) (last_after cid (committed (sink (finalize_commit cfg cid p w))) lc) \<and>
    visible (sink (finalize_commit cfg cid p w)) =
      visible (sink w) @ (if cid \<in> committed (sink (finalize_commit cfg cid p w)) then outs else []) \<and>
    sources (abs_store (storage (finalize_commit cfg cid p w))) = sources (abs_store (storage w)) \<and>
    (alive (finalize_commit cfg cid p w) \<longrightarrow> cid \<in> committed (sink (finalize_commit cfg cid p w)))"
proof -
  obtain k ok where c: "Commit cs cid (sink w) = (k, ok)" by fastforce
  note kk = commit_sink [OF assms(4,9), unfolded c fst_conv snd_conv]
  show ?thesis
  proof (cases ok)
    case False
    then have "finalize_commit cfg cid p w = reportFatal (SinkCommitFailed cid) (w\<lparr> sink := k \<rparr>)"
      using c assms(2) by (simp add: finalize_commit_def)
    then show ?thesis using kk assms(3,5,6,8) reportFatal_keeps by (auto simp: last_after_def intro!: agreeI(1))
  next
    case True
    then have C: "committed k = insert cid (committed (sink w))" "visible k = visible (sink w) @ outs" "sinv k" using kk by auto
    obtain w1 g where st: "step cfg StepSinkCommitted cid (w\<lparr> sink := k \<rparr>) = (w1, g)" by fastforce
    have eq: "finalize_commit cfg cid p w = (if \<not> g then w1 else finalize_completed cfg cid p w1)"
      using c True assms(2) st by (simp add: finalize_commit_def)
    note k2 = step_keeps [OF assms(1) st]
    have w1: "wf_store (storage w1)" "sinv (sink w1)" "consistent (abs_store (storage w1)) (committed (sink w1)) (Some cid)"
      "latest_id (abs_store (storage w1)) = Some cid" "cid \<in> committed (sink w1)" "visible (sink w1) = visible (sink w) @ outs"
      using k2 C assms(3,6,7) by simp_all
    show ?thesis
    proof (cases g)
      case True
      then show ?thesis using completed_agrees [OF assms(1) w1(1-5), of p] w1(5,6) k2 by (simp add: eq last_after_def)
    next
      case False
      then have "agree w1 (Some cid)" using agreeI(1) [OF w1(1-3)] k2 by simp
      then show ?thesis using False w1(5,6) k2 by (simp add: eq last_after_def)
    qed
  qed
qed

text \<open>The whole of \<open>finalize\<close>: store and sink agree on the last committed checkpoint afterwards.\<close>

lemma finalize_agrees:
  assumes cfg: "no_injection cfg" "cfg_sink cfg = cs" and w: "agree w lc" "alive w" and p: "map_of (pending (coord w)) cid = Some p"
    and f: "fresh_id (abs_store (storage w)) (committed (sink w)) cid" and m: "marshal_checkpoint (checkpoint_data cfg cid p) = Some m"
    and st: "sinkErr p = None \<longrightarrow> staged (sink w) cid = Some outs"
  shows "agree (finalize cfg cid w) (last_after cid (committed (sink (finalize cfg cid w))) lc) \<and>
    visible (sink (finalize cfg cid w)) = visible (sink w) @ (if cid \<in> committed (sink (finalize cfg cid w)) then outs else []) \<and>
    (sources (abs_store (storage (finalize cfg cid w))) = (sources (abs_store (storage w)))(cid \<mapsto> Source m) \<or>
     sources (abs_store (storage (finalize cfg cid w))) = sources (abs_store (storage w)) \<and> cid \<notin> committed (sink (finalize cfg cid w))) \<and>
    (alive (finalize cfg cid w) \<longrightarrow> cid \<in> committed (sink (finalize cfg cid w)))"
proof -
  let ?d = "checkpoint_data cfg cid p" and ?C = "committed (sink w)" and ?a = "abs_store (storage w)"
  define w1 where "w1 = w\<lparr> coord := (coord w)\<lparr> pending := map_del cid (pending (coord w)) \<rparr> \<rparr>"
  have w1: "wf_store (storage w1)" "sinv (sink w1)" "ready (abs_store (storage w1)) (committed (sink w1)) lc"
    "storage w1 = storage w" "sink w1 = sink w" "consistent ?a ?C lc" "cid \<notin> ?C"
    using w f by (auto simp: w1_def agree_def ready_def fresh_id_def)
  have d: "ID ?d = cid" "CStatus ?d = StatusPrepared" "with_status ?d = ?d"
    by (simp_all add: checkpoint_data_def with_status_def)
  note stages = prepared_stages [OF w1(3) _ m d(2), unfolded w1(4,5) d(1), OF f]
  show ?thesis
  proof (cases "sinkErr p")
    case (Some e)
    then have "finalize cfg cid w = abortFatal cfg cid (SinkPrepareFailed cid) w1"
      using w(2) p by (simp add: finalize_def alive_def w1_def)
    then show ?thesis using abort_agrees [OF cfg(2) w1(1,2)] w1(4-7) by (simp add: last_after_def)
  next
    case None
    then have eq: "finalize cfg cid w = finalize_prepared cfg cid p w1"
      using w(2) p by (simp add: finalize_def alive_def w1_def)
    obtain fs r where s: "Save (dir_order cfg) ?d (storage w1) = (fs, r)" by fastforce
    note sv = save_stages [OF s [unfolded Save_def], unfolded d(3), OF m, unfolded w1(4)]
    have src: "sources (save_record ?d m ?a) = (sources ?a)(cid \<mapsto> Source m)"
      "sources (save_latest ?d (save_record ?d m ?a)) = (sources ?a)(cid \<mapsto> Source m)"
      using d(1) by (auto simp: sources_def save_record_def save_latest_def fun_eq_iff)
    show ?thesis
    proof (cases r)
      case (Inl e)
      then have so: "sources (abs_store fs) = sources ?a \<or> sources (abs_store fs) = (sources ?a)(cid \<mapsto> Source m)"
        using sv src by auto
      have "consistent (abs_store fs) ?C lc" "wf_store fs" using sv stages Inl w1(1,4) by (auto simp: ready_def)
      then show ?thesis
        using s Inl abort_agrees [OF cfg(2), of "w1\<lparr> storage := fs \<rparr>" lc cid "PersistPrepared cid e"] w1 so
        by (auto simp: eq finalize_prepared_def last_after_def)
    next
      case (Inr x)
      have a: "abs_store fs = save_latest ?d (save_record ?d m ?a)" "wf_store fs"
        using sv Inr d(2,3) w1(1,4) by (auto simp: save_completed_def)
      obtain w2 g where hk: "step cfg StepPersistPrepared cid (w1\<lparr> storage := fs \<rparr>) = (w2, g)" by fastforce
      note k2 = step_keeps [OF cfg(1) hk]
      have e2: "finalize cfg cid w = (if \<not> g then w2 else finalize_commit cfg cid p w2)"
        using s Inr hk by (simp add: eq finalize_prepared_def)
      have w2: "wf_store (storage w2)" "sinv (sink w2)" "consistent (abs_store (storage w2)) (committed (sink w2)) lc"
        "consistent (abs_store (storage w2)) (insert cid (committed (sink w2))) (Some cid)"
        "latest_id (abs_store (storage w2)) = Some cid" "cid \<notin> committed (sink w2)"
        "staged (sink w2) cid = Some outs"
        using k2 a stages(3,4) w1 d(1) st None by (simp_all add: ready_def save_latest_def)
      show ?thesis
      proof (cases g)
        case True
        then show ?thesis using commit_agrees [OF cfg w2, of p] k2 w1(5) a(1) src(2) by (simp add: e2)
      next
        case False
        then have "agree w2 lc" using agreeI(1) [OF w2(1-3)] k2 by simp
        then show ?thesis using False w2(6) k2 w1(5) a(1) src(2) by (simp add: e2 last_after_def)
      qed
    qed
  qed
qed

text \<open>Recovery returns the record of the last committed checkpoint, and nothing else.\<close>

lemma recovery_exact:
  assumes wf: "wf_store fs" and k: "sinv k" and c: "consistent (abs_store fs) (committed k) lc"
    and r: "resolveCoordinatedRecovery ord cs k fs = (k', fs', r)"
  shows "wf_store fs' \<and> sinv k' \<and> committed k' = committed k \<and> visible k' = visible k \<and> consistent (abs_store fs') (committed k') lc \<and>
    sources (abs_store fs') = sources (abs_store fs) \<and>
    (\<forall>d. r = Inr d \<longrightarrow> map_option ID d = lc \<and> map_option Source d = Option.bind lc (sources (abs_store fs)) \<and> (\<not> stale (abs_store fs) \<longrightarrow> ready (abs_store fs') (committed k') lc))"
proof -
  obtain fs1 r1 where l: "Load fs = (fs1, r1)" by fastforce
  have a: "answers fs (fs1, r1) (find_record (abs_store fs) (latest_id (abs_store fs)))"
    using Load_answers [OF wf] l by (simp add: Load_def)
  have fs1: "wf_store fs1" "abs_store fs1 = abs_store fs" using a wf abs_store_files [of fs1 fs] by (auto simp: answers_def)
  show ?thesis
  proof (cases r1)
    case (Inl e)
    then show ?thesis using r l fs1 c k by (auto simp: resolveCoordinatedRecovery_def)
  next
    case (Inr x)
    then have x: "x = find_record (abs_store fs) (latest_id (abs_store fs))" using a by (auto simp: answers_def)
    show ?thesis
    proof (cases x)
      case None
      then have "lc = None" "completed_id (abs_store fs) = None"
        using c x by (auto simp: consistent_def find_record_def split: option.splits)
      then show ?thesis using r l Inr None fs1 c k by (auto simp: resolveCoordinatedRecovery_def ready_def)
    next
      case (Some d)
      then obtain cid where cid: "latest_id (abs_store fs) = Some cid" "recs (abs_store fs) cid = Some d"
        using x by (auto simp: find_record_def split: option.splits)
      then have d: "ID d = cid" using c by (auto simp: consistent_def)
      obtain k1 q where was: "WasCommitted cs cid k = (k1, q)" by fastforce
      note k1 = probe_sink [OF k, of cid, unfolded was fst_conv snd_conv]
      have cases: "Completed d \<or> cid \<in> committed k \<Longrightarrow> lc = Some cid" "\<not> Completed d \<Longrightarrow> cid \<notin> committed k \<Longrightarrow> completed_id (abs_store fs) = lc"
        using c cid by (auto simp: consistent_def)
      consider "Completed d" | "\<not> Completed d" "q = None" | "\<not> Completed d" "q = Some True" "cid \<in> committed k"
        | "\<not> Completed d" "q = Some False" "cid \<notin> committed k"
        using k1 by (cases q) auto
      then show ?thesis
      proof cases
        case 1
        then have "k' = k" "fs' = fs1" "r = Inr (Some d)"
          using r l Inr Some by (simp_all add: resolveCoordinatedRecovery_def)
        moreover have "\<not> stale (abs_store fs) \<Longrightarrow> completed_id (abs_store fs) = lc"
          using 1 cid cases(1) by (auto simp: stale_def)
        ultimately show ?thesis using fs1 c k cases(1) 1 d cid by (auto simp: ready_def sources_def)
      next
        case 2
        then have "k' = k1" "fs' = fs1" "\<exists>e. r = Inl e"
          using r l Inr Some was d by (auto simp: resolveCoordinatedRecovery_def)
        then show ?thesis using fs1 c k1 by auto
      next
        case 3
        obtain fs2 r2 where u: "UpdateStatus ord cid StatusCompleted fs1 = (fs2, r2)" by fastforce
        have lc: "lc = Some cid" using cases(1) 3 by blast
        note up = UpdateStatus_promotes [OF fs1(1) _ _ 3(3) u, unfolded fs1(2), OF c [unfolded lc] cid(1)]
        have "k' = k1" "fs' = fs2" "\<And>x. r = Inr x \<Longrightarrow> r2 = Inr () \<and> x = Some (d\<lparr> CStatus := StatusCompleted \<rparr>)"
          using r l Inr Some was d 3 u by (auto simp: resolveCoordinatedRecovery_def split: sum.splits)
        then show ?thesis using up k1 lc d cid by (auto simp: sources_def)
      next
        case 4
        obtain fs2 r2 where u: "LoadLatestCompleted fs1 = (fs2, r2)" by fastforce
        have lc: "completed_id (abs_store fs) = lc" using cases(2) 4 by blast
        have a2: "answers fs1 (fs2, r2) (find_completed (abs_store fs))"
          using LoadLatestCompleted_answers [OF fs1(1)] u fs1(2) by simp
        have fs2: "wf_store fs2" "abs_store fs2 = abs_store fs" using a2 fs1 abs_store_files [of fs2 fs1] by (auto simp: answers_def)
        have "map_option ID (find_completed (abs_store fs)) = lc \<and>
          map_option Source (find_completed (abs_store fs)) = Option.bind lc (sources (abs_store fs))"
          using c lc cid 4(1) by (auto simp: find_completed_def find_record_def consistent_def sources_def split: option.splits)
        moreover have "k' = fst (Abort cs cid k1)" "fs' = fs2" "\<And>x. r = Inr x \<Longrightarrow> r2 = Inr x"
          using r l Inr Some was d 4 u by (auto simp: resolveCoordinatedRecovery_def Let_def split: sum.splits)
        moreover have "\<And>x. r2 = Inr x \<Longrightarrow> x = find_completed (abs_store fs)" using a2 by (auto simp: answers_def)
        ultimately show ?thesis
          using fs2 k1 abort_sink [of k1 cid] c lc by (auto simp: ready_def)
      qed
    qed
  qed
qed


text \<open>The committed output is always that of the input up to the last committed checkpoint.\<close>

lemma lives_exact:
  assumes codec: "\<And>j. dec (enc j) = j" and out: "out 0 0 = []" "\<And>i j. i \<le> j \<Longrightarrow> out 0 i @ out i j = out 0 j"
  shows "lives cs sinv committed visible staged enc dec out w lc pos \<Longrightarrow>
    wf_store (storage w) \<and> sinv (sink w) \<and> consistent (abs_store (storage w)) (committed (sink w)) lc \<and>
    visible (sink w) = out 0 (source_pos dec (Option.bind lc (sources (abs_store (storage w))))) \<and>
    (\<forall>i. pos = Some i \<longrightarrow> ready (abs_store (storage w)) (committed (sink w)) lc \<and>
      i = source_pos dec (Option.bind lc (sources (abs_store (storage w)))))"
proof (induction rule: lives.induct)
  case (first_start k os)
  then show ?case by (simp add: consistent_def abs_store_def source_pos_def out) (simp add: NewFileStorage_def)
next
  case (restart w lc pos ord os k fs d)
  let ?fs = "(storage w)\<lparr> outcomes := os \<rparr>"
  have fs: "wf_store ?fs" "abs_store ?fs = abs_store (storage w)" using restart.IH by (simp_all add: wf_store_def abs_store_def)
  from recovery_exact [OF fs(1) _ _ restart.hyps(3), of lc] show ?case
    using restart.IH restart.hyps(2) by (auto simp: fs(2) resume_at_def)
next
  case (failed_restart w lc pos ord os k fs e)
  let ?fs = "(storage w)\<lparr> outcomes := os \<rparr>"
  have fs: "wf_store ?fs" "abs_store ?fs = abs_store (storage w)" using failed_restart.IH by (simp_all add: wf_store_def abs_store_def)
  from recovery_exact [OF fs(1) _ _ failed_restart.hyps(2), of lc] show ?case
    using failed_restart.IH by (auto simp: fs(2))
next
  case (checkpoint w lc i k cfg c cid p j m os w')
  let ?w = "w\<lparr> coord := c, storage := (storage w)\<lparr> outcomes := os \<rparr>, sink := k \<rparr>" and ?a = "abs_store (storage w)"
  have fs: "wf_store (storage ?w)" "abs_store (storage ?w) = ?a" using checkpoint.IH by (simp_all add: wf_store_def abs_store_def)
  have rdy: "ready ?a (committed k) lc" and i: "i = source_pos dec (Option.bind lc (sources ?a))"
    and vis: "visible k = out 0 i" using checkpoint.IH checkpoint.hyps(3,4) by auto
  have w: "agree ?w lc" "alive ?w"
    using fs rdy checkpoint.hyps(2,7,8) by (auto simp: agree_def alive_def ready_def)
  have f: "fresh_id (abs_store (storage ?w)) (committed (sink ?w)) cid" using checkpoint.hyps(3,14) fs by simp
  note fin = finalize_agrees [OF checkpoint.hyps(5,6) w _ f checkpoint.hyps(13), of "out i j", unfolded checkpoint.hyps(15)]
  have src: "source_pos dec (Some (Source m)) = j"
    using checkpoint.hyps(10,13) codec json_map_valid [of "[(''offset'', enc j)]"] valid_utf8_ascii [of "''offset''"]
    by (auto simp: marshal_checkpoint_def checkpoint_data_def source_pos_def split: if_splits)
  have nl: "lc \<noteq> Some cid" using rdy f checkpoint.hyps(3) by (auto simp: ready_def consistent_def fresh_id_def)
  have fin': "agree w' (last_after cid (committed (sink w')) lc)"
    "visible (sink w') = out 0 i @ (if cid \<in> committed (sink w') then out i j else [])"
    "sources (abs_store (storage w')) = (sources ?a)(cid \<mapsto> Source m) \<or>
     sources (abs_store (storage w')) = sources ?a \<and> cid \<notin> committed (sink w')"
    "alive w' \<longrightarrow> cid \<in> committed (sink w')"
    using fin checkpoint.hyps(9,12) fs(2) vis by simp_all
  have pos: "source_pos dec (Option.bind (last_after cid (committed (sink w')) lc) (sources (abs_store (storage w')))) =
      (if cid \<in> committed (sink w') then j else i)"
    using fin'(3) src nl i by (cases lc) (auto simp: last_after_def)
  then show ?case
    using fin' pos out(2) [OF checkpoint.hyps(11)] by (auto simp: agree_def)
qed

end

subsection \<open>Properties\<close>

lemma syscall_Cons: "outcomes fs = b # bs \<Longrightarrow> syscall fs = (b, fs\<lparr> outcomes := bs \<rparr>)"
  by (simp add: syscall_def)

lemma write_five: "outcomes fs = True # True # True # True # True # os \<Longrightarrow>
    \<exists>fs'. writeFileSync p c fs = (fs', Inr ()) \<and> outcomes fs' = os"
  by (simp add: writeFileSync_def syscall_def put_file_def remove_file_def Let_def)

lemma write_refused: "outcomes fs = [False] \<Longrightarrow> writeFileSync p c fs = (fs\<lparr> outcomes := [] \<rparr>, Inl EWriteFile)"
  by (simp add: writeFileSync_def syscall_def Let_def)

text \<open>The promotion dies after the record and before the pointer.\<close>

lemma promotion_dies:
  assumes wf: "wf_store fs" and d: "recs (abs_store fs) c2 = Some d2" "ID d2 = c2" "marshal_checkpoint d2 = Some d2" "StateDirs d2 = []"
    and os: "outcomes fs = replicate 12 True @ [False]"
  shows "\<exists>fs1. UpdateStatus ord c2 StatusCompleted fs = (fs1, Inl EWriteFile) \<and> outcomes fs1 = [] \<and> wf_store fs1 \<and>
    abs_store fs1 = save_latest d2 (save_record d2 (d2\<lparr> CStatus := StatusCompleted \<rparr>) (abs_store fs))"
proof -
  define d' where "d' = d2\<lparr> CStatus := StatusCompleted \<rparr>"
  define fs0 where "fs0 = fs\<lparr> outcomes := replicate 11 True @ [False] \<rparr>"
  define fs1 where "fs1 = fs0\<lparr> outcomes := replicate 10 True @ [False] \<rparr>"
  have k: "wf_store fs1" "abs_store fs1 = abs_store fs" using wf by (simp_all add: fs1_def fs0_def wf_store_def abs_store_def)
  have "map_of (files fs) (checkpoint_path c2) = Some (Json d2)"
    using d(1) by (cases "map_of (files fs) (checkpoint_path c2)" rule: json_of.cases) (auto simp: abs_store_def)
  then have l: "loadSpecificLocked c2 fs = (fs0, Inr (Some d2))"
    using os by (simp add: loadSpecificLocked_def read_file_def syscall_def fs0_def eval_nat_numeral)
  have m: "mkdir_all fs0 = (fs1, Inr ())" by (simp add: mkdir_all_def syscall_def fs1_def fs0_def eval_nat_numeral)
  obtain fs2 where s2: "writeFileSync (checkpoint_path (ID d')) (Json d') fs1 = (fs2, Inr ())" "outcomes fs2 = replicate 5 True @ [False]"
    using write_five [of fs1 "replicate 5 True @ [False]"] by (auto simp: fs1_def eval_nat_numeral)
  obtain fs3 where s3: "writeFileSync latest_path (Plain (ID d')) fs2 = (fs3, Inr ())" "outcomes fs3 = [False]"
    using write_five [of fs2 "[False]"] s2(2) by (auto simp: eval_nat_numeral)
  note s4 = write_refused [OF s3(2), of latest_completed_path "Plain (ID d')"]
  have md: "marshal_checkpoint (with_status d') = Some d'" "CStatus (with_status d') = StatusCompleted" "StateDirs d' = []"
    using marshal_status [OF d(3)] d(4) by (simp_all add: d'_def with_status_def)
  have "UpdateStatus ord c2 StatusCompleted fs = (fs3\<lparr> outcomes := [] \<rparr>, Inl EWriteFile)"
    unfolding UpdateStatus_def l and_then_simps option.case d'_def [symmetric] saveLocked_eq [OF md(1)]
    using m s2 s3 s4 md by simp
  moreover have "abs_store (fs3\<lparr> outcomes := [] \<rparr>) = save_latest d2 (save_record d2 d' (abs_store fs))" "wf_store (fs3\<lparr> outcomes := [] \<rparr>)"
    using write_record [OF s2(1)] write_latest [OF s3(1)] k abs_store_files [of "fs3\<lparr> outcomes := [] \<rparr>" fs3]
    by (simp_all add: save_latest_def save_record_def d'_def)
  ultimately show ?thesis by (auto simp: d'_def)
qed

text \<open>
  C35. A crash in the wrong place makes recovery replay committed output. Checkpoint \<open>c2\<close> is the newest
  record and its transaction has committed; the pointer to the newest completed checkpoint still names
  \<open>c1\<close>. If the process dies in \<open>UpdateStatus\<close> after rewriting the record of \<open>c2\<close> and before writing
  that pointer, the next recovery rightly resumes from \<open>c2\<close> but leaves the pointer as it is. If the
  process then dies again with its next checkpoint \<open>c3\<close> prepared and not committed, recovery falls back to
  \<open>c1\<close>, and the output between \<open>c1\<close> and \<open>c2\<close> is emitted a second time.
\<close>

theorem stale_pointer_replays:
  assumes "wf_store fs" "latest_id (abs_store fs) = Some c2" "completed_id (abs_store fs) = Some c1" "c1 \<noteq> c2"
    "recs (abs_store fs) c1 = Some d1" "recs (abs_store fs) c2 = Some d2" "ID d2 = c2" "marshal_checkpoint d2 = Some d2" "StateDirs d2 = []"
    "outcomes fs = replicate 12 True @ [False]"
    "marshal_checkpoint d3 = Some d3" "CStatus d3 = StatusPrepared" "StateDirs d3 = []" "ID d3 \<notin> {c1, c2}"
    "snd (WasCommitted cs (ID d3) k3) = Some False"
  shows "\<exists>fs1 fs2. UpdateStatus ord c2 StatusCompleted fs = (fs1, Inl EWriteFile) \<and>
    snd (snd (resolveCoordinatedRecovery ord cs k fs1)) = Inr (Some (d2\<lparr> CStatus := StatusCompleted \<rparr>)) \<and>
    Save ord d3 fs1 = (fs2, Inr ()) \<and>
    snd (snd (resolveCoordinatedRecovery ord cs k3 fs2)) = Inr (Some d1)"
proof -
  let ?d' = "d2\<lparr> CStatus := StatusCompleted \<rparr>"
  obtain fs1 where fs1: "UpdateStatus ord c2 StatusCompleted fs = (fs1, Inl EWriteFile)" "outcomes fs1 = []" "wf_store fs1"
    "abs_store fs1 = save_latest d2 (save_record d2 ?d' (abs_store fs))"
    using promotion_dies [OF assms(1,6-10)] by blast
  have load: "Load f = (fst (Load f), Inr (find_record (abs_store f) (latest_id (abs_store f))))" if "wf_store f" "outcomes f = []" for f :: "'a FileStorage"
    using Load_answers [OF that(1)] that(2) by (cases "Load f") (simp add: Load_def answers_def)
  have r1: "find_record (abs_store fs1) (latest_id (abs_store fs1)) = Some ?d'"
    using assms(2,7) fs1(4) by (simp add: find_record_def save_latest_def save_record_def)
  have d3: "with_status d3 = d3" using assms(12) by (simp add: with_status_def)
  obtain fs2 where s: "Save ord d3 fs1 = (fs2, Inr ())" "outcomes fs2 = []"
    using save_succeeds [OF fs1(2), of d3 d3 ord] assms(11,13) d3 by (auto simp: Save_def)
  have fs2: "wf_store fs2" "abs_store fs2 = save_latest d3 (save_record d3 d3 (abs_store fs1))"
    using save_stages [OF s(1) [unfolded Save_def], unfolded d3, OF assms(11)] fs1(3) assms(12) d3 by (auto simp: save_completed_def)
  have r2: "find_record (abs_store fs2) (latest_id (abs_store fs2)) = Some d3" "find_completed (abs_store fs2) = Some d1"
    using fs1(4) fs2(2) assms(3,4,5,7,14) by (auto simp: find_record_def find_completed_def save_latest_def save_record_def)
  let ?f = "fst (Load fs2)"
  have f: "wf_store ?f" "abs_store ?f = abs_store fs2" "outcomes ?f = []"
    using Load_answers [OF fs2(1)] s(2) fs2(1) abs_store_files [of ?f fs2] by (auto simp: Load_def answers_def)
  have "LoadLatestCompleted ?f = (fst (LoadLatestCompleted ?f), Inr (Some d1))"
    using LoadLatestCompleted_answers [OF f(1)] f r2(2) by (cases "LoadLatestCompleted ?f") (simp add: answers_def)
  then have "snd (snd (resolveCoordinatedRecovery ord cs k3 fs2)) = Inr (Some d1)"
    using load [OF fs2(1) s(2)] r2(1) assms(12,15)
    by (cases "WasCommitted cs (ID d3) k3") (auto simp: resolveCoordinatedRecovery_def Completed_def Let_def split: prod.splits)
  moreover have "snd (snd (resolveCoordinatedRecovery ord cs k fs1)) = Inr (Some ?d')"
    using load [OF fs1(3,2)] r1 by (auto simp: resolveCoordinatedRecovery_def Completed_def split: prod.splits)
  ultimately show ?thesis using fs1(1) s(1) by blast
qed

definition demo_store :: "unit FileStorage" where
  "demo_store = \<lparr> files = [(checkpoint_path ''1'', Json ((demo_data ''1'')\<lparr> CStatus := StatusCompleted \<rparr>)),
       (checkpoint_path ''2'', Json (demo_data ''2'')), (latest_path, Plain ''2''), (latest_completed_path, Plain ''1'')],
     state_dirs = [], outcomes = replicate 12 True @ [False] \<rparr>"

definition silent_sink :: "unit CheckpointedSink" where
  "silent_sink = \<lparr> Commit = (\<lambda>_ k. (k, True)), Abort = (\<lambda>_ k. (k, True)), WasCommitted = (\<lambda>_ k. (k, Some False)) \<rparr>"

theorem stale_pointer_replays_witness:
  "\<exists>fs1 fs2. UpdateStatus in_order ''2'' StatusCompleted demo_store = (fs1, Inl EWriteFile) \<and>
    snd (snd (resolveCoordinatedRecovery in_order silent_sink () fs1)) = Inr (Some ((demo_data ''2'')\<lparr> CStatus := StatusCompleted \<rparr>)) \<and>
    Save in_order (demo_data ''3'') fs1 = (fs2, Inr ()) \<and>
    snd (snd (resolveCoordinatedRecovery in_order silent_sink () fs2)) = Inr (Some ((demo_data ''1'')\<lparr> CStatus := StatusCompleted \<rparr>))"
proof (rule stale_pointer_replays)
  show "marshal_checkpoint (demo_data ''2'') = Some (demo_data ''2'')" "marshal_checkpoint (demo_data ''3'') = Some (demo_data ''3'')"
    by (rule demo_marshal, rule valid_utf8_ascii, simp)+
qed (simp_all add: demo_store_def wf_store_def abs_store_def, simp_all add: demo_data_def silent_sink_def)

lemma finalize_succeeds:
  assumes "hook cfg = None" "\<not> halted (coord w)" "map_of (pending (coord w)) cid = Some p" "sinkErr p = None"
    "wf_store (storage w)" "outcomes (storage w) = []" "marshal_checkpoint (checkpoint_data cfg cid p) = Some m"
    "pstateDirs p = []" "valid_utf8 cid" "Commit (cfg_sink cfg) cid (sink w) = (k, True)"
  shows "sink (finalize cfg cid w) = k \<and> wf_store (storage (finalize cfg cid w)) \<and>
    latest_id (abs_store (storage (finalize cfg cid w))) = Some cid \<and> completed_id (abs_store (storage (finalize cfg cid w))) = Some cid \<and>
    recs (abs_store (storage (finalize cfg cid w))) cid = Some (m\<lparr> CStatus := StatusCompleted \<rparr>)"
proof -
  let ?d = "checkpoint_data cfg cid p" and ?d' = "m\<lparr> CStatus := StatusCompleted \<rparr>"
  have d: "ID ?d = cid" "with_status ?d = ?d" "StateDirs ?d = []" "CStatus ?d = StatusPrepared"
    using assms(8) by (simp_all add: checkpoint_data_def with_status_def)
  obtain fs1 where s1: "saveLocked (dir_order cfg) ?d (storage w) = (fs1, Inr ())" "outcomes fs1 = []"
    using save_succeeds [OF assms(6), of ?d m "dir_order cfg"] assms(7) d by auto
  have a1: "wf_store fs1" "recs (abs_store fs1) cid = Some m"
    using save_stages [OF s1(1), unfolded d(2), OF assms(7)] assms(5) d by (auto simp: save_completed_def save_latest_def save_record_def)
  have m: "ID m = cid" "marshal_checkpoint m = Some m"
    using marshal_ID [OF assms(7)] marshal_idem [OF assms(7)] assms(9) d(1) by auto
  have "StateDirs m = []"
    using assms(7) d(3) by (auto simp: marshal_checkpoint_def json_map_def split: if_splits)
  note m = m this
  have m': "with_status ?d' = ?d'" "marshal_checkpoint ?d' = Some ?d'" "ID ?d' = cid" "StateDirs ?d' = []"
    using marshal_status [OF m(2)] m by (simp_all add: with_status_def)
  obtain fs2 where l: "loadSpecificLocked cid fs1 = (fs2, Inr (Some m))" "outcomes fs2 = []" "wf_store fs2"
    using LoadSpecific_answers [OF a1(1), of cid] s1(2) a1 abs_store_files [of _ fs1]
    by (cases "loadSpecificLocked cid fs1") (auto simp: answers_def)
  obtain fs3 where s3: "saveLocked (dir_order cfg) ?d' fs2 = (fs3, Inr ())"
    using save_succeeds [OF l(2), of ?d' ?d' "dir_order cfg"] m' by auto
  have "wf_store fs3" "latest_id (abs_store fs3) = Some cid" "completed_id (abs_store fs3) = Some cid" "recs (abs_store fs3) cid = Some ?d'"
    using save_stages [OF s3, unfolded m'(1), OF m'(2)] l(3) m' by (auto simp: save_completed_def save_latest_def save_record_def with_status_def)
  then show ?thesis
    using assms(1-4,10) s1 l s3
    by (simp add: finalize_def finalize_prepared_def finalize_commit_def finalize_completed_def finalize_offsets_def step_def
        Save_def UpdateStatus_def Let_def split: option.splits)
qed

text \<open>
  C36. An aborted checkpoint does not stop the coordinator. When the sink fails to stage checkpoint
  \<open>c1\<close>, its transaction is aborted and the error is reported, but a later checkpoint \<open>c2\<close> that the
  sink prepares before the pipeline is torn down is still committed and completed, with the source
  offsets of its own barrier: a restart resumes after the records of the aborted interval, whose
  output is lost.
\<close>

theorem aborted_interval_lost:
  assumes "hook cfg = None" "\<not> halted (coord w)" "wf_store (storage w)" "outcomes (storage w) = []"
    and "map_of (pending (coord w)) c1 = Some p1" "sinkErr p1 = Some e"
    and "map_of (pending (coord w)) c2 = Some p2" "sinkErr p2 = None" "pstateDirs p2 = []" "c1 \<noteq> c2" "valid_utf8 c2"
    and "marshal_checkpoint (checkpoint_data cfg c2 p2) = Some m"
    and "Abort (cfg_sink cfg) c1 (sink w) = (k1, ok)" "Commit (cfg_sink cfg) c2 k1 = (k2, True)"
    and "w1 = finalize cfg c1 w" "w2 = finalize cfg c2 w1"
  shows "sink w1 = k1 \<and> fatal (coord w1) \<noteq> None \<and> sink w2 = k2 \<and>
    find_completed (abs_store (storage w2)) = Some (m\<lparr> CStatus := StatusCompleted \<rparr>) \<and> Source m = json_map (Source (checkpoint_data cfg c2 p2))"
proof -
  have w1: "sink w1 = k1" "fatal (coord w1) \<noteq> None" "\<not> halted (coord w1)" "map_of (pending (coord w1)) c2 = Some p2"
    "wf_store (storage w1)" "outcomes (storage w1) = []"
    using assms(2-7,10,13,15)
    by (auto simp: finalize_def abortFatal_def cleanupStateDirs_def reportFatal_def Let_def) (simp_all add: DeleteStateDirs_def)
  have "Source m = json_map (Source (checkpoint_data cfg c2 p2))"
    using assms(12) by (auto simp: marshal_checkpoint_def split: if_splits)
  then show ?thesis
    using w1 finalize_succeeds [OF assms(1) w1(3,4) assms(8) w1(5,6) assms(12,9,11), of k2] assms(14,16)
    by (simp add: find_completed_def)
qed

definition demo_config :: "unit coord_config" where
  "demo_config = \<lparr> now = 0, dir_order = in_order, cfg_sink = silent_sink, cfg_txn = ''t'', hook = None, commits_offsets = False \<rparr>"

definition demo_world :: "(unit, unit) world" where
  "demo_world = \<lparr> coord = NewCoordinator\<lparr> pending := [(''1'', new_pending\<lparr> sinkErr := Some ''down'' \<rparr>), (''2'', new_pending)] \<rparr>,
     storage = NewFileStorage [], sink = () \<rparr>"

theorem aborted_interval_lost_witness:
  "fatal (coord (finalize demo_config ''1'' demo_world)) \<noteq> None \<and>
   map_option ID (find_completed (abs_store (storage (finalize demo_config ''2'' (finalize demo_config ''1'' demo_world))))) = Some ''2''"
proof -
  have v: "valid_utf8 ''2''" "valid_utf8 ''t''" by (rule valid_utf8_ascii, simp)+
  define m where "m = checkpoint_data demo_config ''2'' new_pending"
  have m: "marshal_checkpoint (checkpoint_data demo_config ''2'' new_pending) = Some m"
    using i64_in_calendar [of 0] v
    by (simp add: m_def marshal_checkpoint_def checkpoint_data_def demo_config_def new_pending_def in_i64_def json_map_def utf8_coerce_valid)
  have "m = m\<lparr> ID := ''2'' \<rparr>"
    by (simp add: m_def checkpoint_data_def)
  then have "ID m = ''2''"
    by (metis CheckpointData.select_convs(1) CheckpointData.surjective CheckpointData.update_convs(1))
  have fs: "wf_store (NewFileStorage [] :: unit FileStorage)" "outcomes (NewFileStorage [] :: unit FileStorage) = []"
    by (simp_all add: NewFileStorage_def wf_store_def)
  have w: "hook demo_config = None" "\<not> halted (coord demo_world)" "wf_store (storage demo_world)" "outcomes (storage demo_world) = []"
    "map_of (pending (coord demo_world)) ''1'' = Some (new_pending\<lparr> sinkErr := Some ''down'' \<rparr>)"
    "sinkErr (new_pending\<lparr> sinkErr := Some ''down'' \<rparr>) = Some ''down''"
    "map_of (pending (coord demo_world)) ''2'' = Some new_pending" "sinkErr new_pending = None" "pstateDirs new_pending = []" "''1'' \<noteq> ''2''"
    "Abort (cfg_sink demo_config) ''1'' (sink demo_world) = ((), True)" "Commit (cfg_sink demo_config) ''2'' () = ((), True)"
    using fs by (simp_all add: demo_config_def demo_world_def NewCoordinator_def new_pending_def silent_sink_def)
  show ?thesis
    using aborted_interval_lost [OF w(1-10) v(1) m w(11,12) refl refl] \<open>ID m = ''2''\<close> by simp
qed

end
