(* ===== verification/Kafka_Txn_Sink.thy ===== *)
theory Kafka_Txn_Sink
  imports Exactly_Once
begin

text \<open>
  \<open>sink/kafka_txn.go\<close>: the transactional Kafka sink, the implementation of the sink interface that
  exactly-once pipelines use. The Kafka client (franz-go) and the brokers behind it are a parameter
  \<open>kgo\<close>: the calls the sink makes on a state that holds client and brokers. \<open>kafka_client\<close>
  states what the sink relies on. Authentication, timeouts and the dashboard are left out.
\<close>

subsection \<open>The client\<close>

record krec =
  ktopic :: bytes
  kkey :: bytes
  kvalue :: bytes
  ktime :: gotime
  kheaders :: "(bytes \<times> bytes) list"

datatype fetch_error = DeadlineExceeded | FetchFailed

record fetch =
  ferrors :: "fetch_error list"
  frecords :: "krec list"

text \<open>
  Every call returns the new state and whether it succeeded; \<open>Produce\<close> the result its promise gets.
  \<open>PollFetches t c n\<close> is the answer to the \<open>n\<close>-th poll of a consumer of topic \<open>t\<close> that reads committed
  records from the start.
\<close>

record 'c kgo =
  NewClient :: "'c \<Rightarrow> 'c \<times> bool"
  BeginTransaction :: "'c \<Rightarrow> 'c \<times> bool"
  Produce :: "krec \<Rightarrow> 'c \<Rightarrow> 'c \<times> bool"
  Flush :: "'c \<Rightarrow> 'c \<times> bool"
  EndTransaction :: "bool \<Rightarrow> 'c \<Rightarrow> 'c \<times> bool"
  AbortBufferedRecords :: "'c \<Rightarrow> 'c \<times> bool"
  ListEndOffsets :: "bytes \<Rightarrow> 'c \<Rightarrow> int list option"
  PollFetches :: "bytes \<Rightarrow> 'c \<Rightarrow> nat \<Rightarrow> fetch"

subsection \<open>The sink\<close>

record txnKafkaConfig =
  brokers :: "bytes list"
  topic :: bytes
  txnID :: bytes
  markerTopic :: bytes
  serializer :: "(Record \<Rightarrow> bytes option) option"

record 'c TxnKafkaSink =
  kafka :: 'c
  client_set :: bool
  waiters :: "bytes list"
  produceErr :: bool

text \<open>Missing configuration panics.\<close>

definition NewTxnKafkaSink :: "txnKafkaConfig \<Rightarrow> 'c \<Rightarrow> (txnKafkaConfig \<times> 'c TxnKafkaSink) option" where
  "NewTxnKafkaSink cfg c =
     (if length (brokers cfg) = 0 then None
      else if topic cfg = [] then None
      else if txnID cfg = [] then None
      else Some (if markerTopic cfg = [] then cfg\<lparr> markerTopic := topic cfg @ ''.checkpoints'' \<rparr> else cfg,
                 \<lparr> kafka = c, client_set = False, waiters = [], produceErr = False \<rparr>))"

definition setProduceErr :: "'c TxnKafkaSink \<Rightarrow> 'c TxnKafkaSink" where
  "setProduceErr s = s\<lparr> produceErr := True \<rparr>"

definition clearProduceErr :: "'c TxnKafkaSink \<Rightarrow> 'c TxnKafkaSink" where
  "clearProduceErr s = s\<lparr> produceErr := False \<rparr>"

definition produce :: "'c kgo \<Rightarrow> krec \<Rightarrow> 'c TxnKafkaSink \<Rightarrow> 'c TxnKafkaSink" where
  "produce api r s =
     (let (c, ok) = Produce api r (kafka s); s1 = s\<lparr> kafka := c \<rparr>
      in if ok then s1 else setProduceErr s1)"

definition marker :: "txnKafkaConfig \<Rightarrow> bytes \<Rightarrow> krec" where
  "marker cfg cid = \<lparr> ktopic = markerTopic cfg, kkey = txnID cfg, kvalue = cid, ktime = zeroTime, kheaders = [] \<rparr>"

definition data_record :: "(bytes \<times> bytes) range_ord \<Rightarrow> txnKafkaConfig \<Rightarrow> Record \<Rightarrow> bytes \<Rightarrow> krec" where
  "data_record ord cfg r v =
     \<lparr> ktopic = topic cfg, kkey = Key r, kvalue = v, ktime = Timestamp r, kheaders = visit ord (Headers r) \<rparr>"

text \<open>The value to write; \<open>None\<close> when the serializer fails.\<close>

definition serialized :: "txnKafkaConfig \<Rightarrow> Record \<Rightarrow> bytes option" where
  "serialized cfg r = (case serializer cfg of None \<Rightarrow> Some (Value r) | Some f \<Rightarrow> f r)"

text \<open>The start of \<open>Write\<close>: the client with its transactional identifier, and the first transaction.\<close>

definition write_open :: "'c kgo \<Rightarrow> 'c TxnKafkaSink \<Rightarrow> 'c TxnKafkaSink \<times> bool" where
  "write_open api s =
     (let (c, ok) = NewClient api (kafka s)
      in if \<not> ok then (s\<lparr> kafka := c \<rparr>, False)
         else let (c, ok) = BeginTransaction api c
           in (s\<lparr> kafka := c, client_set := True \<rparr>, ok))"

text \<open>
  One turn of the loop of \<open>Write\<close>. At a barrier the coordinator is told the identifier and whether
  staging failed, and the loop waits until \<open>Commit\<close> or \<open>Abort\<close> signals.
\<close>

definition write_record ::
  "(bytes \<times> bytes) range_ord \<Rightarrow> txnKafkaConfig \<Rightarrow> 'c kgo \<Rightarrow> Record \<Rightarrow> 'c TxnKafkaSink \<Rightarrow>
    'c TxnKafkaSink \<times> (bytes \<times> bool) option" where
  "write_record ord cfg api r s =
     (if IsWatermark r then (s, None)
      else if IsBarrier r
      then (let s1 = produce api (marker cfg (CheckpointID r)) s;
                (c, flushed) = Flush api (kafka s1);
                flushErr = (\<not> flushed \<or> produceErr s1);
                s2 = s1\<lparr> kafka := c, waiters := List.insert (CheckpointID r) (waiters s1) \<rparr>
            in (s2, Some (CheckpointID r, flushErr)))
      else (case serialized cfg r of
              None \<Rightarrow> (setProduceErr s, None)
            | Some v \<Rightarrow> (produce api (data_record ord cfg r v) s, None)))"

text \<open>The end of \<open>Write\<close>: what was produced after the last barrier is aborted.\<close>

definition write_close :: "'c kgo \<Rightarrow> 'c TxnKafkaSink \<Rightarrow> 'c TxnKafkaSink" where
  "write_close api s =
     (let (c, _) = AbortBufferedRecords api (kafka s); (c, _) = EndTransaction api False c
      in s\<lparr> kafka := c \<rparr>)"

definition signal :: "bytes \<Rightarrow> 'c TxnKafkaSink \<Rightarrow> 'c TxnKafkaSink" where
  "signal cid s = s\<lparr> waiters := removeAll cid (waiters s) \<rparr>"

definition Commit_Txn :: "'c kgo \<Rightarrow> bytes \<Rightarrow> 'c TxnKafkaSink \<Rightarrow> 'c TxnKafkaSink \<times> bool" where
  "Commit_Txn api cid s =
     (if \<not> client_set s then (s, False)
      else let (c, ok) = EndTransaction api True (kafka s); s = s\<lparr> kafka := c \<rparr>
        in if \<not> ok then (s, False)
           else let (c, ok) = BeginTransaction api (kafka s); s = s\<lparr> kafka := c \<rparr>
             in if \<not> ok then (s, False) else (signal cid (clearProduceErr s), True))"

definition Abort_Txn :: "'c kgo \<Rightarrow> bytes \<Rightarrow> 'c TxnKafkaSink \<Rightarrow> 'c TxnKafkaSink \<times> bool" where
  "Abort_Txn api cid s =
     (if \<not> client_set s then (s, True)
      else let (c, ok) = AbortBufferedRecords api (kafka s); s = s\<lparr> kafka := c \<rparr>
        in if \<not> ok then (s, False)
           else let (c, ok) = EndTransaction api False (kafka s); s = s\<lparr> kafka := c \<rparr>
             in if \<not> ok then (s, False)
                else let (c, ok) = BeginTransaction api (kafka s); s = s\<lparr> kafka := c \<rparr>
                  in if \<not> ok then (s, False) else (signal cid (clearProduceErr s), True))"

text \<open>
  The loop of the marker probe from the \<open>n\<close>-th poll on: \<open>None\<close> when it polls forever, \<open>Some None\<close> when a
  fetch fails.
\<close>

partial_function (option) probe_loop ::
  "txnKafkaConfig \<Rightarrow> bytes \<Rightarrow> (nat \<Rightarrow> fetch) \<Rightarrow> nat \<Rightarrow> nat \<Rightarrow> bool option option" where
  "probe_loop cfg cid poll n emptyPolls =
     (if \<exists>e\<in>set (ferrors (poll n)). e \<noteq> DeadlineExceeded then Some None
      else if \<exists>r\<in>set (frecords (poll n)). kkey r = txnID cfg \<and> kvalue r = cid then Some (Some True)
      else if frecords (poll n) \<noteq> [] then probe_loop cfg cid poll (n + 1) 0
      else if emptyPolls + 1 \<ge> 2 then Some (Some False)
      else probe_loop cfg cid poll (n + 1) (emptyPolls + 1))"

declare probe_loop.simps [code]

text \<open>A probe that fails or never ends gives no answer.\<close>

definition WasCommitted_Txn ::
  "txnKafkaConfig \<Rightarrow> 'c kgo \<Rightarrow> bytes \<Rightarrow> 'c TxnKafkaSink \<Rightarrow> 'c TxnKafkaSink \<times> bool option" where
  "WasCommitted_Txn cfg api cid s =
     (s, case ListEndOffsets api (markerTopic cfg) (kafka s) of
           None \<Rightarrow> None
         | Some ends \<Rightarrow>
             (let hasData = (\<exists>lo\<in>set ends. lo > 0)
              in if \<not> hasData then Some False
                 else case probe_loop cfg cid (PollFetches api (markerTopic cfg) (kafka s)) 0 0 of
                        None \<Rightarrow> None
                      | Some answer \<Rightarrow> answer))"

definition txn_sink :: "txnKafkaConfig \<Rightarrow> 'c kgo \<Rightarrow> 'c TxnKafkaSink CheckpointedSink" where
  "txn_sink cfg api = \<lparr> Commit = Commit_Txn api, Abort = Abort_Txn api, WasCommitted = WasCommitted_Txn cfg api \<rparr>"

subsection \<open>What the sink relies on\<close>

text \<open>
  \<open>log\<close> is what a reader of committed records sees, \<open>pend\<close> the records of the open transaction. A
  commit that fails may have happened on the brokers. A new client with the transactional identifier
  fences the old one, whose open transaction is aborted. Polling delivers the committed records of
  the topic, and two polls without records mean that it has delivered them all.
\<close>

definition delivers :: "(nat \<Rightarrow> fetch) \<Rightarrow> krec set \<Rightarrow> bool" where
  "delivers poll R \<longleftrightarrow> (\<exists>n. (\<Union>i<n. set (frecords (poll i))) = R \<and> (\<forall>i\<ge>n. frecords (poll i) = []) \<and>
     (\<forall>i. frecords (poll i) = [] \<and> frecords (poll (i + 1)) = [] \<longrightarrow> n \<le> i))"

definition has_marker :: "txnKafkaConfig \<Rightarrow> bytes \<Rightarrow> krec list \<Rightarrow> bool" where
  "has_marker cfg cid rs \<longleftrightarrow> (\<exists>r\<in>set rs. kkey r = txnID cfg \<and> kvalue r = cid)"

lemma probe_loop_unfold:
  "probe_loop cfg cid poll n e =
    (if \<exists>e\<in>set (ferrors (poll n)). e \<noteq> DeadlineExceeded then Some None
     else if has_marker cfg cid (frecords (poll n)) then Some (Some True)
     else if frecords (poll n) \<noteq> [] then probe_loop cfg cid poll (n + 1) 0
     else if e + 1 \<ge> 2 then Some (Some False)
     else probe_loop cfg cid poll (n + 1) (e + 1))"
  by (subst probe_loop.simps) (simp add: has_marker_def)

text \<open>The probe ends, and answers whether the marker is among the committed records.\<close>

lemma probe_loop_answers:
  assumes del: "(\<Union>i<N. set (frecords (poll i))) = R" "\<forall>i\<ge>N. frecords (poll i) = []"
    "\<forall>i. frecords (poll i) = [] \<and> frecords (poll (i + 1)) = [] \<longrightarrow> N \<le> i"
    and e: "e = 0 \<or> e = 1 \<and> 0 < n \<and> frecords (poll (n - 1)) = []"
    and seen: "\<forall>i<n. \<not> has_marker cfg cid (frecords (poll i))" and n: "n \<le> N + e"
  shows "probe_loop cfg cid poll n e = Some None \<and> (\<exists>i. \<exists>e\<in>set (ferrors (poll i)). e \<noteq> DeadlineExceeded) \<or>
    probe_loop cfg cid poll n e = Some (Some (\<exists>r\<in>R. kkey r = txnID cfg \<and> kvalue r = cid))"
  using e seen n
proof (induction "N + 2 - n" arbitrary: n e rule: less_induct)
  case less
  let ?P = "\<exists>r\<in>R. kkey r = txnID cfg \<and> kvalue r = cid"
  consider "\<exists>e\<in>set (ferrors (poll n)). e \<noteq> DeadlineExceeded" | "has_marker cfg cid (frecords (poll n))"
      "\<not> (\<exists>e\<in>set (ferrors (poll n)). e \<noteq> DeadlineExceeded)"
    | "\<not> has_marker cfg cid (frecords (poll n))" "frecords (poll n) \<noteq> []" "\<not> (\<exists>e\<in>set (ferrors (poll n)). e \<noteq> DeadlineExceeded)"
    | "\<not> has_marker cfg cid (frecords (poll n))" "frecords (poll n) = []" "\<not> (\<exists>e\<in>set (ferrors (poll n)). e \<noteq> DeadlineExceeded)"
    by blast
  then show ?case
  proof cases
    case 1
    then show ?thesis by (subst (1 2) probe_loop_unfold) auto
  next
    case 2
    then have lt: "n < N" using del(2) by (cases "n < N") (auto simp: has_marker_def not_less)
    have "set (frecords (poll n)) \<subseteq> R" using del(1) lt by auto
    then have "?P" using 2(1) unfolding has_marker_def by blast
    then show ?thesis using 2 by (subst (1 2) probe_loop_unfold) simp
  next
    case 3
    then have lt: "n < N" using del(2) by (meson not_less)
    have seen: "\<forall>i<n + 1. \<not> has_marker cfg cid (frecords (poll i))" using less.prems(2) 3(1) less_Suc_eq by auto
    have "probe_loop cfg cid poll n e = probe_loop cfg cid poll (n + 1) 0"
      using 3 by (subst probe_loop_unfold) simp
    then show ?thesis using less.hyps [of "n + 1" 0] seen lt by simp
  next
    case 4
    have seen: "\<forall>i<n + 1. \<not> has_marker cfg cid (frecords (poll i))" using less.prems(2) 4(1) less_Suc_eq by auto
    show ?thesis
    proof (cases "e = 0")
      case True
      then have "probe_loop cfg cid poll n e = probe_loop cfg cid poll (n + 1) 1"
        using 4 by (subst probe_loop_unfold) simp
      then show ?thesis using less.hyps [of "n + 1" 1] seen less.prems(3) 4 True by simp
    next
      case False
      then have e: "e = 1" "0 < n" "frecords (poll (n - 1)) = []" using less.prems(1) by auto
      have "frecords (poll (n - 1 + 1)) = []" using 4(2) e(2) by simp
      then have "N \<le> n - 1" using del(3) e(3) by blast
      then have "\<forall>i<N. \<not> has_marker cfg cid (frecords (poll i))" using less.prems(2) e(2) by simp
      then have "\<not> ?P" unfolding del(1) [symmetric] has_marker_def by blast
      then show ?thesis using 4 e by (subst (1 2) probe_loop_unfold) simp
    qed
  qed
qed

lemma probe_delivered:
  assumes "delivers poll R"
  shows "probe_loop cfg cid poll 0 0 = Some None \<and> (\<exists>i. \<exists>e\<in>set (ferrors (poll i)). e \<noteq> DeadlineExceeded) \<or>
    probe_loop cfg cid poll 0 0 = Some (Some (\<exists>r\<in>R. kkey r = txnID cfg \<and> kvalue r = cid))"
proof -
  obtain N where N: "(\<Union>i<N. set (frecords (poll i))) = R" "\<forall>i\<ge>N. frecords (poll i) = []"
    "\<forall>i. frecords (poll i) = [] \<and> frecords (poll (i + 1)) = [] \<longrightarrow> N \<le> i"
    using assms unfolding delivers_def by blast
  show ?thesis by (rule probe_loop_answers [OF N]) simp_all
qed

locale kafka_client =
  fixes api :: "'c kgo"
    and log :: "'c \<Rightarrow> krec list"
    and pend :: "'c \<Rightarrow> krec list"
    and in_txn :: "'c \<Rightarrow> bool"
  assumes new_client: "log (fst (NewClient api c)) = log c \<and> (snd (NewClient api c) \<longrightarrow> pend (fst (NewClient api c)) = [])"
    and begin_txn: "log (fst (BeginTransaction api c)) = log c \<and> pend (fst (BeginTransaction api c)) = pend c \<and>
      (snd (BeginTransaction api c) \<longrightarrow> in_txn (fst (BeginTransaction api c)))"
    and produce_txn: "in_txn c \<Longrightarrow> log (fst (Produce api r c)) = log c \<and> in_txn (fst (Produce api r c)) \<and>
      (snd (Produce api r c) \<longrightarrow> pend (fst (Produce api r c)) = pend c @ [r])"
    and flush_txn: "log (fst (Flush api c)) = log c \<and> pend (fst (Flush api c)) = pend c \<and> in_txn (fst (Flush api c)) = in_txn c"
    and commit_txn: "in_txn c \<Longrightarrow> log (fst (EndTransaction api True c)) = log c @ pend c \<and>
        (snd (EndTransaction api True c) \<longrightarrow> pend (fst (EndTransaction api True c)) = []) \<or>
      log (fst (EndTransaction api True c)) = log c \<and> \<not> snd (EndTransaction api True c)"
    and abort_txn: "log (fst (EndTransaction api False c)) = log c \<and>
      (snd (EndTransaction api False c) \<longrightarrow> pend (fst (EndTransaction api False c)) = [])"
    and abort_buffered: "log (fst (AbortBufferedRecords api c)) = log c"
    and end_offsets: "ListEndOffsets api t c = Some ends \<Longrightarrow> (\<forall>lo\<in>set ends. lo \<le> 0) \<Longrightarrow> \<forall>r\<in>set (log c). ktopic r \<noteq> t"
    and polls: "delivers (PollFetches api t c) {r \<in> set (log c). ktopic r = t}"

definition marks :: "txnKafkaConfig \<Rightarrow> krec list \<Rightarrow> bytes set" where
  "marks cfg rs = kvalue ` {r \<in> set rs. ktopic r = markerTopic cfg \<and> kkey r = txnID cfg}"

lemma marks_simps:
  "marks cfg (rs @ ss) = marks cfg rs \<union> marks cfg ss" "\<forall>r\<in>set rs. ktopic r \<noteq> markerTopic cfg \<Longrightarrow> marks cfg rs = {}"
  "marks cfg [marker cfg cid] = {cid}"
proof -
  have "{r. (r = marker cfg cid) \<and> ktopic r = markerTopic cfg \<and> kkey r = txnID cfg} = {marker cfg cid}"
    by (auto simp: marker_def)
  then show "marks cfg [marker cfg cid] = {cid}" by (simp add: marks_def) (simp add: marker_def)
qed (auto simp: marks_def)

lemma mem_marks: "cid \<in> marks cfg rs \<longleftrightarrow> (\<exists>r\<in>{r \<in> set rs. ktopic r = markerTopic cfg}. kkey r = txnID cfg \<and> kvalue r = cid)"
  by (auto simp: marks_def)

definition txn_committed :: "txnKafkaConfig \<Rightarrow> ('c \<Rightarrow> krec list) \<Rightarrow> 'c TxnKafkaSink \<Rightarrow> bytes set" where
  "txn_committed cfg lg s = marks cfg (lg (kafka s))"

definition txn_visible :: "txnKafkaConfig \<Rightarrow> ('c \<Rightarrow> krec list) \<Rightarrow> 'c TxnKafkaSink \<Rightarrow> krec list" where
  "txn_visible cfg lg s = filter (\<lambda>r. ktopic r \<noteq> markerTopic cfg) (lg (kafka s))"

text \<open>The open transaction holds the output and, last, the marker.\<close>

definition txn_staged ::
  "txnKafkaConfig \<Rightarrow> ('c \<Rightarrow> krec list) \<Rightarrow> ('c \<Rightarrow> bool) \<Rightarrow> 'c TxnKafkaSink \<Rightarrow> bytes \<Rightarrow> krec list option" where
  "txn_staged cfg pnd intx s cid =
     (let rs = pnd (kafka s)
      in if client_set s \<and> intx (kafka s) \<and> rs \<noteq> [] \<and> last rs = marker cfg cid \<and>
           (\<forall>r\<in>set (butlast rs). ktopic r \<noteq> markerTopic cfg)
         then Some (butlast rs) else None)"

lemma txn_staged_Some:
  "txn_staged cfg pnd intx s cid = Some outs \<Longrightarrow> client_set s \<and> intx (kafka s) \<and> pnd (kafka s) = outs @ [marker cfg cid] \<and>
    (\<forall>r\<in>set outs. ktopic r \<noteq> markerTopic cfg)"
  by (auto simp: txn_staged_def Let_def split: if_splits) (metis append_butlast_last_id)

context kafka_client
begin

lemma Commit_Txn_log:
  assumes "in_txn (kafka s)" "client_set s" "Commit_Txn api cid s = (s', ok)"
  shows "log (kafka s') = log (kafka s) @ pend (kafka s) \<or> log (kafka s') = log (kafka s) \<and> \<not> ok"
proof -
  obtain c1 ok1 where e: "EndTransaction api True (kafka s) = (c1, ok1)" by fastforce
  obtain c2 ok2 where b: "BeginTransaction api c1 = (c2, ok2)" by fastforce
  have "log c1 = log (kafka s) @ pend (kafka s) \<or> log c1 = log (kafka s) \<and> \<not> ok1"
    using commit_txn [OF assms(1)] e by auto
  moreover have "log c2 = log c1" using begin_txn [of c1] b by simp
  ultimately show ?thesis
    using assms(2,3) e b by (auto simp: Commit_Txn_def signal_def clearProduceErr_def Let_def split: if_splits)
qed

lemma Abort_Txn_log: "log (kafka (fst (Abort_Txn api cid s))) = log (kafka s)"
proof -
  obtain c1 ok1 where a: "AbortBufferedRecords api (kafka s) = (c1, ok1)" by fastforce
  obtain c2 ok2 where e: "EndTransaction api False c1 = (c2, ok2)" by fastforce
  obtain c3 ok3 where b: "BeginTransaction api c2 = (c3, ok3)" by fastforce
  have "log c1 = log (kafka s)" "log c2 = log c1" "log c3 = log c2"
    using abort_buffered [of "kafka s"] a abort_txn [of c1] e begin_txn [of c2] b by simp_all
  then show ?thesis using a e b by (simp add: Abort_Txn_def signal_def clearProduceErr_def Let_def)
qed

end

sublocale kafka_client \<subseteq> txn: checkpointed_sink "txn_sink cfg api" "\<lambda>_. True" "txn_committed cfg log"
    "txn_visible cfg log" "txn_staged cfg pend in_txn" for cfg
proof unfold_locales
  fix k cid outs
  assume "txn_staged cfg pend in_txn k cid = Some outs"
  note st = txn_staged_Some [OF this]
  obtain k' ok where c: "Commit_Txn api cid k = (k', ok)" by fastforce
  have "log (kafka k') = log (kafka k) @ outs @ [marker cfg cid] \<or> log (kafka k') = log (kafka k) \<and> \<not> ok"
    using Commit_Txn_log [OF _ _ c] st by auto
  then show "True \<and> (txn_committed cfg log (fst (Commit (txn_sink cfg api) cid k)) = insert cid (txn_committed cfg log k) \<and>
        txn_visible cfg log (fst (Commit (txn_sink cfg api) cid k)) = txn_visible cfg log k @ outs \<or>
      txn_committed cfg log (fst (Commit (txn_sink cfg api) cid k)) = txn_committed cfg log k \<and>
        txn_visible cfg log (fst (Commit (txn_sink cfg api) cid k)) = txn_visible cfg log k \<and> \<not> snd (Commit (txn_sink cfg api) cid k))"
    using st c by (auto simp: txn_sink_def txn_committed_def txn_visible_def marks_simps marker_def [of cfg cid, THEN arg_cong, of ktopic])
next
  fix k cid
  show "True \<and> txn_committed cfg log (fst (Abort (txn_sink cfg api) cid k)) = txn_committed cfg log k \<and>
      txn_visible cfg log (fst (Abort (txn_sink cfg api) cid k)) = txn_visible cfg log k"
    by (simp add: txn_sink_def txn_committed_def txn_visible_def Abort_Txn_log)
  have "b = (cid \<in> txn_committed cfg log k)" if was: "snd (WasCommitted_Txn cfg api cid k) = Some b" for b
  proof -
    obtain ends where ends: "ListEndOffsets api (markerTopic cfg) (kafka k) = Some ends"
      using was by (auto simp: WasCommitted_Txn_def split: option.splits)
    show ?thesis
    proof (cases "\<exists>lo\<in>set ends. lo > 0")
      case True
      then show ?thesis
        using was ends probe_delivered [OF polls, of cfg cid "markerTopic cfg" "kafka k"]
        by (auto simp: WasCommitted_Txn_def txn_committed_def mem_marks)
    next
      case False
      then show ?thesis
        using was ends end_offsets [OF ends] by (auto simp: WasCommitted_Txn_def txn_committed_def mem_marks not_less)
    qed
  qed
  then show "True \<and> txn_committed cfg log (fst (WasCommitted (txn_sink cfg api) cid k)) = txn_committed cfg log k \<and>
      txn_visible cfg log (fst (WasCommitted (txn_sink cfg api) cid k)) = txn_visible cfg log k \<and>
      (\<forall>b. snd (WasCommitted (txn_sink cfg api) cid k) = Some b \<longrightarrow> b = (cid \<in> txn_committed cfg log k))"
    by (simp add: txn_sink_def) (simp add: WasCommitted_Txn_def)
qed

subsection \<open>An interval of output\<close>

definition txn_out :: "(bytes \<times> bytes) range_ord \<Rightarrow> txnKafkaConfig \<Rightarrow> Record list \<Rightarrow> krec list" where
  "txn_out ord cfg rs =
     concat (map (\<lambda>r. if IsWatermark r then [] else
       (case serialized cfg r of None \<Rightarrow> [] | Some v \<Rightarrow> [data_record ord cfg r v])) rs)"

definition write_all ::
  "(bytes \<times> bytes) range_ord \<Rightarrow> txnKafkaConfig \<Rightarrow> 'c kgo \<Rightarrow> Record list \<Rightarrow> 'c TxnKafkaSink \<Rightarrow> 'c TxnKafkaSink" where
  "write_all ord cfg api rs s = fold (\<lambda>r s. fst (write_record ord cfg api r s)) rs s"

text \<open>An open transaction of the running sink.\<close>

definition txn_open :: "('c \<Rightarrow> bool) \<Rightarrow> 'c TxnKafkaSink \<Rightarrow> bool" where
  "txn_open intx s \<longleftrightarrow> client_set s \<and> intx (kafka s)"

lemma txn_out_topic: "r \<in> set (txn_out ord cfg rs) \<Longrightarrow> ktopic r = topic cfg"
  by (auto simp: txn_out_def data_record_def split: if_splits option.splits)

context kafka_client
begin

lemma produce_keeps:
  assumes "txn_open in_txn s"
  shows "txn_open in_txn (produce api r s) \<and> log (kafka (produce api r s)) = log (kafka s) \<and>
    (\<not> produceErr (produce api r s) \<longrightarrow> \<not> produceErr s \<and> pend (kafka (produce api r s)) = pend (kafka s) @ [r])"
  using produce_txn [of "kafka s" r] assms
  by (auto simp: produce_def txn_open_def setProduceErr_def Let_def split: prod.splits if_splits)

lemma write_all_keeps:
  assumes "txn_open in_txn s" "\<forall>r\<in>set rs. \<not> IsBarrier r"
  shows "txn_open in_txn (write_all ord cfg api rs s) \<and> log (kafka (write_all ord cfg api rs s)) = log (kafka s) \<and>
    (\<not> produceErr (write_all ord cfg api rs s) \<longrightarrow>
      \<not> produceErr s \<and> pend (kafka (write_all ord cfg api rs s)) = pend (kafka s) @ txn_out ord cfg rs)"
  using assms
proof (induction rs arbitrary: s)
  case Nil
  then show ?case by (simp add: write_all_def txn_out_def)
next
  case (Cons r rs)
  define s1 where "s1 = fst (write_record ord cfg api r s)"
  have s1: "txn_open in_txn s1" "log (kafka s1) = log (kafka s)"
    "\<not> produceErr s1 \<Longrightarrow> \<not> produceErr s \<and> pend (kafka s1) = pend (kafka s) @ txn_out ord cfg [r]"
    using Cons.prems produce_keeps [OF Cons.prems(1)]
    by (auto simp: s1_def write_record_def txn_out_def setProduceErr_def txn_open_def split: option.splits if_splits)
  have "txn_out ord cfg (r # rs) = txn_out ord cfg [r] @ txn_out ord cfg rs" by (simp add: txn_out_def)
  moreover have "write_all ord cfg api (r # rs) s = write_all ord cfg api rs s1" by (simp add: write_all_def s1_def)
  ultimately show ?case using Cons.IH [OF s1(1)] s1 Cons.prems(2) by simp
qed

text \<open>A barrier that reports no error has staged the interval.\<close>

lemma barrier_stages:
  assumes "txn_open in_txn s" "pend (kafka s) = []" "\<forall>r\<in>set rs. \<not> IsBarrier r" "IsBarrier b" "\<not> IsWatermark b"
    "topic cfg \<noteq> markerTopic cfg" "write_record ord cfg api b (write_all ord cfg api rs s) = (s', Some (cid, err))"
  shows "cid = CheckpointID b \<and> txn_open in_txn s' \<and> log (kafka s') = log (kafka s) \<and>
    (\<not> err \<longrightarrow> txn_staged cfg pend in_txn s' cid = Some (txn_out ord cfg rs))"
proof -
  define s1 where "s1 = write_all ord cfg api rs s"
  define s2 where "s2 = produce api (marker cfg (CheckpointID b)) s1"
  obtain c fl where f: "Flush api (kafka s2) = (c, fl)" by fastforce
  have k1: "txn_open in_txn s1" "log (kafka s1) = log (kafka s)" "\<not> produceErr s1 \<longrightarrow> pend (kafka s1) = txn_out ord cfg rs"
    using write_all_keeps [OF assms(1,3), of ord cfg] assms(2) by (simp_all add: s1_def)
  have k2: "txn_open in_txn s2" "log (kafka s2) = log (kafka s)"
    "\<not> produceErr s2 \<longrightarrow> pend (kafka s2) = txn_out ord cfg rs @ [marker cfg (CheckpointID b)]"
    using produce_keeps [OF k1(1), of "marker cfg (CheckpointID b)"] k1 by (auto simp: s2_def)
  have s': "s' = s2\<lparr> kafka := c, waiters := List.insert (CheckpointID b) (waiters s2) \<rparr>" "cid = CheckpointID b"
    "err = (\<not> fl \<or> produceErr s2)"
    using assms(4,5,7) f by (auto simp: write_record_def s1_def [symmetric] s2_def [symmetric] Let_def)
  have "\<forall>r\<in>set (txn_out ord cfg rs). ktopic r \<noteq> markerTopic cfg" using txn_out_topic assms(6) by metis
  then show ?thesis
    using k2 flush_txn [of "kafka s2"] f by (auto simp: s' txn_open_def txn_staged_def)
qed

lemma probe_answers:
  assumes "ListEndOffsets api (markerTopic cfg) (kafka s) = Some ends"
    "\<forall>i. set (ferrors (PollFetches api (markerTopic cfg) (kafka s) i)) \<subseteq> {DeadlineExceeded}"
  shows "WasCommitted_Txn cfg api cid s = (s, Some (cid \<in> txn_committed cfg log s))"
proof (cases "\<exists>lo\<in>set ends. lo > 0")
  case True
  then show ?thesis
    using assms probe_delivered [OF polls, of cfg cid "markerTopic cfg" "kafka s"]
    by (auto simp: WasCommitted_Txn_def txn_committed_def mem_marks)
next
  case False
  then show ?thesis
    using assms(1) end_offsets [OF assms(1)] by (auto simp: WasCommitted_Txn_def txn_committed_def mem_marks not_less)
qed

lemma write_open_log: "log (kafka (fst (write_open api s))) = log (kafka s)"
proof -
  obtain c1 ok1 where n: "NewClient api (kafka s) = (c1, ok1)" by fastforce
  obtain c2 ok2 where b: "BeginTransaction api c1 = (c2, ok2)" by fastforce
  have "log c1 = log (kafka s)" "log c2 = log c1" using new_client [of "kafka s"] n begin_txn [of c1] b by simp_all
  then show ?thesis using n b by (simp add: write_open_def)
qed

lemma lives_resume:
  assumes "\<And>j. dec (enc j) = j" "out 0 0 = []" "\<And>i j. i \<le> j \<Longrightarrow> out 0 i @ out i j = out 0 j"
    and lives: "lives (txn_sink cfg api) (\<lambda>_. True) (txn_committed cfg log) (txn_visible cfg log) (txn_staged cfg pend in_txn) enc dec out w lc pos"
    and rec: "resolveCoordinatedRecovery ord (txn_sink cfg api) (sink w) ((storage w)\<lparr> outcomes := os \<rparr>) = (k, fs, Inr d)"
  shows "map_option ID d = lc \<and> txn_visible cfg log (sink w) = out 0 (resume_at dec d) \<and> txn_visible cfg log k = txn_visible cfg log (sink w)"
proof -
  note ex = txn.lives_exact [OF assms(1-3) lives]
  have fs: "wf_store ((storage w)\<lparr> outcomes := os \<rparr>)" "abs_store ((storage w)\<lparr> outcomes := os \<rparr>) = abs_store (storage w)"
    using ex by (simp_all add: wf_store_def abs_store_def)
  from txn.recovery_exact [OF fs(1) _ _ rec, of lc] show ?thesis using ex by (auto simp: fs(2) resume_at_def)
qed

lemma interval_visible:
  assumes "txn_open in_txn s" "pend (kafka s) = []" "\<forall>r\<in>set rs. \<not> IsBarrier r" "IsBarrier b" "\<not> IsWatermark b"
    "topic cfg \<noteq> markerTopic cfg" "write_record ord cfg api b (write_all ord cfg api rs s) = (s', Some (cid, False))"
    "Commit_Txn api cid s' = (s'', ok)"
  shows "txn_visible cfg log s'' = txn_visible cfg log s @ txn_out ord cfg rs \<and> txn_committed cfg log s'' = insert cid (txn_committed cfg log s) \<or>
    txn_visible cfg log s'' = txn_visible cfg log s \<and> txn_committed cfg log s'' = txn_committed cfg log s \<and> \<not> ok"
proof -
  note b = barrier_stages [OF assms(1-7)]
  then have "txn_staged cfg pend in_txn s' cid = Some (txn_out ord cfg rs)" "log (kafka s') = log (kafka s)" by auto
  then show ?thesis
    using txn.commit_sink [where cfg = cfg and k = s' and cid = cid] assms(8) by (auto simp: txn_sink_def txn_visible_def txn_committed_def)
qed

end

subsection \<open>A broker that satisfies the assumptions\<close>

record mem_broker =
  blog :: "krec list"
  bpend :: "krec list"
  btxn :: bool

definition mem_kgo :: "mem_broker kgo" where
  "mem_kgo =
     \<lparr> NewClient = (\<lambda>c. (c\<lparr> bpend := [], btxn := False \<rparr>, True)),
       BeginTransaction = (\<lambda>c. (c\<lparr> btxn := True \<rparr>, True)),
       Produce = (\<lambda>r c. (c\<lparr> bpend := bpend c @ [r] \<rparr>, True)),
       Flush = (\<lambda>c. (c, True)),
       EndTransaction = (\<lambda>commit c. (c\<lparr> blog := (if commit then blog c @ bpend c else blog c), bpend := [], btxn := False \<rparr>, True)),
       AbortBufferedRecords = (\<lambda>c. (c, True)),
       ListEndOffsets = (\<lambda>t c. Some [int (length (filter (\<lambda>r. ktopic r = t) (blog c)))]),
       PollFetches = (\<lambda>t c n. \<lparr> ferrors = [], frecords = (if n = 0 then filter (\<lambda>r. ktopic r = t) (blog c) else []) \<rparr>) \<rparr>"

definition mem_broker0 :: mem_broker where
  "mem_broker0 = \<lparr> blog = [], bpend = [], btxn = False \<rparr>"

lemma mem_delivers: "delivers (PollFetches mem_kgo t c) {r \<in> set (blog c). ktopic r = t}"
proof -
  let ?p = "PollFetches mem_kgo t c" and ?n = "if filter (\<lambda>r. ktopic r = t) (blog c) = [] then 0 else (1 :: nat)"
  have p: "frecords (?p i) = (if i = 0 then filter (\<lambda>r. ktopic r = t) (blog c) else [])" for i by (simp add: mem_kgo_def)
  show ?thesis
    unfolding delivers_def
  proof (intro exI [of _ ?n] conjI allI impI)
    show "(\<Union>i<?n. set (frecords (?p i))) = {r \<in> set (blog c). ktopic r = t}"
      by (auto simp: p filter_empty_conv)
  qed (auto simp: p split: if_splits)
qed

lemma mem_kafka: "kafka_client mem_kgo blog bpend btxn"
proof (rule kafka_client.intro)
  fix t c ends
  show "ListEndOffsets mem_kgo t c = Some ends \<Longrightarrow> \<forall>lo\<in>set ends. lo \<le> 0 \<Longrightarrow> \<forall>r\<in>set (blog c). ktopic r \<noteq> t"
    by (auto simp: mem_kgo_def filter_empty_conv)
qed (auto simp: mem_delivers, auto simp: mem_kgo_def)

definition demo_txn :: txnKafkaConfig where
  "demo_txn = \<lparr> brokers = [''b''], topic = ''orders'', txnID = ''t'', markerTopic = ''marks'', serializer = None \<rparr>"

definition demo_sink :: "mem_broker TxnKafkaSink" where
  "demo_sink = \<lparr> kafka = \<lparr> blog = [], bpend = [], btxn = True \<rparr>, client_set = True, waiters = [], produceErr = False \<rparr>"

subsection \<open>Properties\<close>






definition demo_out :: "nat \<Rightarrow> nat \<Rightarrow> krec list" where
  "demo_out i j = replicate (j - i) (data_record in_order demo_txn (NewRecord 5 ''k'' ''v'') ''v'')"

definition demo_enc :: "nat \<Rightarrow> bytes" where
  "demo_enc j = replicate j CHR ''a''"

definition staged_sink :: "mem_broker TxnKafkaSink" where
  "staged_sink = \<lparr> kafka = \<lparr> blog = [], bpend = demo_out 0 1 @ [marker demo_txn ''cp''], btxn = True \<rparr>, client_set = True, waiters = [], produceErr = False \<rparr>"

definition demo_coord :: "mem_broker TxnKafkaSink coord_config" where
  "demo_coord = \<lparr> now = 0, dir_order = in_order, cfg_sink = txn_sink demo_txn mem_kgo, cfg_txn = ''t'', hook = None, commits_offsets = False \<rparr>"

abbreviation demo_lives :: "(mem_broker TxnKafkaSink, unit) world \<Rightarrow> bytes option \<Rightarrow> nat option \<Rightarrow> bool" where
  "demo_lives \<equiv> lives (txn_sink demo_txn mem_kgo) (\<lambda>_. True) (txn_committed demo_txn blog) (txn_visible demo_txn blog)
     (txn_staged demo_txn bpend btxn) demo_enc length demo_out"

lemma recovery_of_completed:
  assumes "wf_store fs" "outcomes fs = []" "latest_id (abs_store fs) = Some cid" "recs (abs_store fs) cid = Some d" "Completed d"
  shows "\<exists>fs'. resolveCoordinatedRecovery ord cs k fs = (k, fs', Inr (Some d))"
  using Load_answers [OF assms(1)] assms(2-5)
  by (cases "loadLatestLocked fs") (auto simp: answers_def find_record_def resolveCoordinatedRecovery_def Load_def)

lemma demo_life:
  "\<exists>w pos d. demo_lives w (Some ''cp'') pos \<and> wf_store (storage w) \<and> latest_id (abs_store (storage w)) = Some ''cp'' \<and>
     recs (abs_store (storage w)) ''cp'' = Some d \<and> Completed d"
proof -
  have v: "valid_utf8 ''cp''" "valid_utf8 ''t''" by (rule valid_utf8_ascii, simp)+
  define p where "p = new_pending\<lparr> offsets := Some (demo_enc 1) \<rparr>"
  define c where "c = NewCoordinator\<lparr> pending := [(''cp'', p)] \<rparr>"
  let ?w0 = "\<lparr> coord = NewCoordinator, storage = NewFileStorage [], sink = demo_sink \<rparr> :: (mem_broker TxnKafkaSink, unit) world"
  have w0: "demo_lives ?w0 None None"
    by (rule lives.first_start) (simp_all add: demo_sink_def txn_committed_def txn_visible_def marks_def)
  have l0: "Load (NewFileStorage [] :: unit FileStorage) = (NewFileStorage [], Inr None)"
    by (simp add: Load_def NewFileStorage_def loadLatestLocked_def read_file_def syscall_def and_then_def)
  have "demo_lives ?w0 None (Some (resume_at length None))"
    by (rule lives.restart [OF w0, where ord = in_order and os = "[]", simplified])
      (simp_all add: stale_def abs_store_def NewFileStorage_def, simp_all add: resolveCoordinatedRecovery_def l0 [unfolded NewFileStorage_def])
  then have w1: "demo_lives ?w0 None (Some 0)" by (simp add: resume_at_def source_pos_def)
  let ?w = "?w0\<lparr> coord := c, storage := (storage ?w0)\<lparr> outcomes := [] \<rparr>, sink := staged_sink \<rparr>"
  obtain m where m: "marshal_checkpoint (checkpoint_data demo_coord ''cp'' p) = Some m"
    using i64_in_calendar [of 0] v
    by (simp add: p_def marshal_checkpoint_def checkpoint_data_def demo_coord_def new_pending_def in_i64_def json_map_def utf8_coerce_valid)
  obtain k where k: "Commit (cfg_sink demo_coord) ''cp'' (sink ?w) = (k, True)" "''cp'' \<in> txn_committed demo_txn blog k"
    by (simp add: demo_coord_def txn_sink_def Commit_Txn_def mem_kgo_def staged_sink_def txn_committed_def marks_def marker_def
        demo_txn_def signal_def clearProduceErr_def image_iff) (metis krec.select_convs(1,2,3))
  have f: "sink (finalize demo_coord ''cp'' ?w) = k \<and> wf_store (storage (finalize demo_coord ''cp'' ?w)) \<and>
      latest_id (abs_store (storage (finalize demo_coord ''cp'' ?w))) = Some ''cp'' \<and>
      completed_id (abs_store (storage (finalize demo_coord ''cp'' ?w))) = Some ''cp'' \<and>
      recs (abs_store (storage (finalize demo_coord ''cp'' ?w))) ''cp'' = Some (m\<lparr> CStatus := StatusCompleted \<rparr>)"
    by (rule finalize_succeeds [OF _ _ _ _ _ _ m _ v(1) k(1)])
      (simp_all add: demo_coord_def c_def p_def NewCoordinator_def new_pending_def NewFileStorage_def wf_store_def)
  have "demo_lives (finalize demo_coord ''cp'' ?w) (last_after ''cp'' (txn_committed demo_txn blog (sink (finalize demo_coord ''cp'' ?w))) None)
      (if alive (finalize demo_coord ''cp'' ?w) then Some 1 else None)"
  proof (rule lives.checkpoint [OF w1 _ _ _ _ _ _ _ _ _ _ _ m _ refl])
    show "sinkErr p = None \<longrightarrow> txn_staged demo_txn bpend btxn staged_sink ''cp'' = Some (demo_out 0 1)"
      by (simp add: txn_staged_def staged_sink_def demo_out_def demo_txn_def data_record_def)
  qed (simp_all add: txn_committed_def txn_visible_def staged_sink_def demo_sink_def no_injection_def demo_coord_def c_def p_def
      NewCoordinator_def new_pending_def fresh_id_def abs_store_def NewFileStorage_def v marks_def)
  then show ?thesis using f k(2) by (auto simp: last_after_def Completed_def)
qed


end
