(* ===== verification/Watermark_Source.thy ===== *)
theory Watermark_Source
  imports Window_Proofs
begin

text \<open>
  Watermark generation: the bounded-out-of-orderness generator (\<open>watermark/bounded.go\<close>) behind its
  interface (\<open>watermark/watermark.go\<close>), the source wrapper that injects watermarks into the stream
  (\<open>source/watermark.go\<close>) and the wrapping of the Kafka source
  (\<open>source/kafka_watermark_tracker.go\<close>). The select loop of the wrapper is a function of the events it
  receives, in the order the scheduler picked them. The lemmas connect the wrapper with the window
  operator: a stream whose disorder stays within the bound loses no record.
\<close>

subsection \<open>The generator\<close>

record 'g WatermarkGenerator =
  OnRecord :: "gotime \<Rightarrow> 'g \<Rightarrow> 'g"
  GetWatermark :: "'g \<Rightarrow> gotime"
  CurrentWatermark :: "'g \<Rightarrow> gotime"

record BoundedOutOfOrderness =
  maxTimestamp :: gotime
  allowedLateness :: duration

definition NewBoundedOutOfOrderness :: "duration \<Rightarrow> BoundedOutOfOrderness" where
  "NewBoundedOutOfOrderness lateness = \<lparr> maxTimestamp = zeroTime, allowedLateness = lateness \<rparr>"

definition OnRecord_Bounded :: "gotime \<Rightarrow> BoundedOutOfOrderness \<Rightarrow> BoundedOutOfOrderness" where
  "OnRecord_Bounded timestamp g = (if maxTimestamp g < timestamp then g\<lparr> maxTimestamp := timestamp \<rparr> else g)"

definition GetWatermark_Bounded :: "BoundedOutOfOrderness \<Rightarrow> gotime" where
  "GetWatermark_Bounded g =
     (if IsZero (maxTimestamp g) then zeroTime else maxTimestamp g + i64 (- allowedLateness g))"

definition CurrentWatermark_Bounded :: "BoundedOutOfOrderness \<Rightarrow> gotime" where
  "CurrentWatermark_Bounded g = GetWatermark_Bounded g"

definition bounded_generator :: "BoundedOutOfOrderness WatermarkGenerator" where
  "bounded_generator =
     \<lparr> OnRecord = OnRecord_Bounded, GetWatermark = GetWatermark_Bounded, CurrentWatermark = CurrentWatermark_Bounded \<rparr>"

subsection \<open>The wrapped source\<close>

text \<open>
  One iteration of the loop: a record was received and then forwarded, or the context ended while it
  waited for the consumer; the source closed its channel with its error; the ticker fired and the
  watermark was sent or given up; the context ended. The flag \<open>flushed\<close> of the three exits tells whether
  the final watermark reached the consumer within its five seconds.
\<close>

datatype ws_event =
    Forwarded Record
  | CancelledSend Record (flushed: bool)
  | SourceClosed (src_err: "bytes option") (flushed: bool)
  | Tick (sent: bool)
  | CtxDone (flushed: bool)

datatype ws_exit = CtxErr | SourceResult "bytes option"

definition maxWatermark :: Record where
  "maxWatermark = NewWatermark ((day_number 9999 1 1 - day_number 1970 1 1) * 86400000000000)"

definition emitMaxWatermark :: "bool \<Rightarrow> Record list" where
  "emitMaxWatermark ok = (if ok then [maxWatermark] else [])"

definition tick_output :: "'g WatermarkGenerator \<Rightarrow> bool \<Rightarrow> 'g \<Rightarrow> Record list" where
  "tick_output gen ok g =
     (let wm = GetWatermark gen g in if \<not> IsZero wm \<and> ok then [NewWatermark wm] else [])"

fun Run_Watermark :: "'g WatermarkGenerator \<Rightarrow> ws_event list \<Rightarrow> 'g \<Rightarrow> 'g \<times> Record list \<times> ws_exit option" where
  "Run_Watermark gen [] g = (g, [], None)"
| "Run_Watermark gen (Forwarded r # es) g =
     (let (g', out, ex) = Run_Watermark gen es (OnRecord gen (Timestamp r) g) in (g', r # out, ex))"
| "Run_Watermark gen (CancelledSend r ok # es) g = (OnRecord gen (Timestamp r) g, emitMaxWatermark ok, Some CtxErr)"
| "Run_Watermark gen (SourceClosed err ok # es) g = (g, emitMaxWatermark ok, Some (SourceResult err))"
| "Run_Watermark gen (Tick ok # es) g =
     (let (g', out, ex) = Run_Watermark gen es g in (g', tick_output gen ok g @ out, ex))"
| "Run_Watermark gen (CtxDone ok # es) g = (g, emitMaxWatermark ok, Some CtxErr)"

record watermarkTracker =
  outOfOrderness :: duration
  wt_interval :: duration

definition wt_enabled :: "watermarkTracker \<Rightarrow> bool" where
  "wt_enabled w \<longleftrightarrow> outOfOrderness w > 0"

record ('s, 'g) WatermarkSource =
  ws_source :: 's
  ws_generator :: 'g
  ws_interval :: duration

definition wrap :: "watermarkTracker \<Rightarrow> 's \<Rightarrow> ('s, BoundedOutOfOrderness) WatermarkSource" where
  "wrap w inner =
     \<lparr> ws_source = inner, ws_generator = NewBoundedOutOfOrderness (outOfOrderness w), ws_interval = wt_interval w \<rparr>"

text \<open>The records that the wrapper took from its source and forwarded.\<close>

fun received :: "ws_event list \<Rightarrow> Record list" where
  "received (Forwarded r # es) = r # received es"
| "received (Tick ok # es) = received es"
| "received es = []"

subsection \<open>What a generator promises\<close>

text \<open>
  \<open>tracks T g\<close>: the generator has been shown the instants \<open>T\<close>. Its watermark stays behind the latest
  of them by the allowed disorder, and does not go back.
\<close>

locale watermark_generator =
  fixes gen :: "'g WatermarkGenerator"
    and tracks :: "gotime set \<Rightarrow> 'g \<Rightarrow> bool"
    and slack :: duration
  assumes on_record: "tracks T g \<Longrightarrow> zeroTime < t \<Longrightarrow> tracks (insert t T) (OnRecord gen t g)"
    and watermark_behind: "tracks T g \<Longrightarrow> GetWatermark gen g \<noteq> zeroTime \<Longrightarrow> \<exists>t\<in>T. GetWatermark gen g \<le> t - slack"
    and watermark_grows: "tracks T g \<Longrightarrow> T \<noteq> {} \<Longrightarrow> zeroTime < t \<Longrightarrow> GetWatermark gen g \<le> GetWatermark gen (OnRecord gen t g)"
begin

lemma run_accepts:
  assumes "tracks T g" "wm = zeroTime \<or> (\<exists>t\<in>T. wm \<le> t - slack)"
    "\<forall>r\<in>set (received es). is_data r \<and> zeroTime < Timestamp r \<and> (\<forall>t\<in>T. t - slack \<le> Timestamp r)"
    "sorted_wrt (\<lambda>a b. Timestamp a - slack \<le> Timestamp b) (received es)"
  shows "accepted wm (map Recv (fst (snd (Run_Watermark gen es g)))) = received es"
  using assms
proof (induction es arbitrary: T g wm rule: received.induct)
  case (1 r es)
  have "accepted wm (map Recv (fst (snd (Run_Watermark gen es (OnRecord gen (Timestamp r) g))))) = received es"
    by (rule "1.IH" [OF on_record [OF "1.prems"(1)]]) (use 1 in auto)
  moreover have "wm = zeroTime \<or> wm \<le> Timestamp r" using "1.prems"(2,3) by fastforce
  ultimately show ?case
    using "1.prems"(3) by (auto simp: is_data_def IsZero_def split: prod.split)
next
  case (2 ok es)
  let ?wm = "GetWatermark gen g"
  have *: "accepted wm' (map Recv (fst (snd (Run_Watermark gen es g)))) = received es"
    if "wm' = zeroTime \<or> (\<exists>t\<in>T. wm' \<le> t - slack)" for wm'
    by (rule "2.IH" [OF "2.prems"(1) that]) (use "2.prems" in auto)
  have "max wm ?wm = zeroTime \<or> (\<exists>t\<in>T. max wm ?wm \<le> t - slack)" if "?wm \<noteq> zeroTime"
    using "2.prems"(2) watermark_behind [OF "2.prems"(1) that] that by (auto simp: max_def)
  then show ?case
    using * "2.prems"(2) by (auto simp: tick_output_def Let_def IsZero_def NewWatermark_def split: prod.split)
qed (auto simp: emitMaxWatermark_def maxWatermark_def NewWatermark_def)

lemma watermark_le_max:
  "tracks T g \<Longrightarrow> \<forall>t\<in>T. t - slack \<le> Timestamp maxWatermark \<Longrightarrow> GetWatermark gen g \<le> Timestamp maxWatermark"
  using watermark_behind [of T g]
  by (cases "GetWatermark gen g = zeroTime")
    (force simp: zeroTime_def maxWatermark_def NewWatermark_def day_number_def days_before_def cum_days_def)+

lemma run_watermarks:
  assumes "tracks T g" "\<forall>t\<in>T. t - slack \<le> Timestamp maxWatermark"
    "\<forall>r\<in>set (received es). is_data r \<and> zeroTime < Timestamp r \<and> Timestamp r - slack \<le> Timestamp maxWatermark"
  shows "sorted (map Timestamp (filter IsWatermark (fst (snd (Run_Watermark gen es g))))) \<and>
    (T \<noteq> {} \<longrightarrow> (\<forall>r\<in>set (fst (snd (Run_Watermark gen es g))). IsWatermark r \<longrightarrow> GetWatermark gen g \<le> Timestamp r))"
  using assms
proof (induction es arbitrary: T g rule: received.induct)
  case (1 r es)
  let ?g = "OnRecord gen (Timestamp r) g"
  have "sorted (map Timestamp (filter IsWatermark (fst (snd (Run_Watermark gen es ?g))))) \<and>
    (insert (Timestamp r) T \<noteq> {} \<longrightarrow> (\<forall>r\<in>set (fst (snd (Run_Watermark gen es ?g))). IsWatermark r \<longrightarrow> GetWatermark gen ?g \<le> Timestamp r))"
    by (rule "1.IH" [OF on_record [OF "1.prems"(1)]]) (use 1 in auto)
  moreover have "T \<noteq> {} \<Longrightarrow> GetWatermark gen g \<le> GetWatermark gen ?g"
    using watermark_grows [OF "1.prems"(1), of "Timestamp r"] "1.prems"(3) by auto
  ultimately show ?case
    using "1.prems"(3) by (cases "Run_Watermark gen es ?g") (force simp: is_data_def)
next
  case (2 ok es)
  have "sorted (map Timestamp (filter IsWatermark (fst (snd (Run_Watermark gen es g))))) \<and>
    (T \<noteq> {} \<longrightarrow> (\<forall>r\<in>set (fst (snd (Run_Watermark gen es g))). IsWatermark r \<longrightarrow> GetWatermark gen g \<le> Timestamp r))"
    by (rule "2.IH") (use "2.prems" in auto)
  then show ?case
    using watermark_behind [OF "2.prems"(1)]
    by (cases "Run_Watermark gen es g") (auto simp: tick_output_def Let_def IsZero_def NewWatermark_def)
qed (use watermark_le_max in \<open>auto simp: emitMaxWatermark_def\<close>)

end

subsection \<open>The bounded generator keeps the promise\<close>

definition tracks_bounded :: "duration \<Rightarrow> gotime set \<Rightarrow> BoundedOutOfOrderness \<Rightarrow> bool" where
  "tracks_bounded L T g \<longleftrightarrow> 0 \<le> L \<and> in_i64 L \<and> allowedLateness g = L \<and> (\<forall>t\<in>T. zeroTime < t) \<and>
     maxTimestamp g \<in> (if T = {} then {zeroTime} else T)"

interpretation bounded: watermark_generator bounded_generator "tracks_bounded L" L
proof
  have neg: "i64 (- L) = - L" if "0 \<le> L" "in_i64 L"
    using that by (intro i64_id) (auto simp: in_i64_def)
  fix T g t
  show "tracks_bounded L T g \<Longrightarrow> zeroTime < t \<Longrightarrow> tracks_bounded L (insert t T) (OnRecord bounded_generator t g)"
    by (auto simp: tracks_bounded_def bounded_generator_def OnRecord_Bounded_def split: if_splits)
  show "tracks_bounded L T g \<Longrightarrow> GetWatermark bounded_generator g \<noteq> zeroTime \<Longrightarrow> \<exists>t\<in>T. GetWatermark bounded_generator g \<le> t - L"
    by (auto simp: tracks_bounded_def bounded_generator_def GetWatermark_Bounded_def IsZero_def neg split: if_splits)
  show "tracks_bounded L T g \<Longrightarrow> T \<noteq> {} \<Longrightarrow> zeroTime < t \<Longrightarrow>
      GetWatermark bounded_generator g \<le> GetWatermark bounded_generator (OnRecord bounded_generator t g)"
    by (auto simp: tracks_bounded_def bounded_generator_def GetWatermark_Bounded_def OnRecord_Bounded_def IsZero_def split: if_splits)
qed

lemma accepted_barriers:
  "\<forall>b\<in>set bs. IsBarrier b \<longrightarrow> \<not> IsWatermark b \<Longrightarrow>
    accepted wm (map Recv bs) = accepted wm (map Recv (filter (\<lambda>r. \<not> IsBarrier r) bs))"
  by (induction bs arbitrary: wm) auto

lemma run_data: "set (filter is_data (fst (snd (Run_Watermark gen es g)))) \<subseteq> set (received es)"
  by (induction es arbitrary: g rule: received.induct)
    (auto simp: tick_output_def Let_def emitMaxWatermark_def maxWatermark_def NewWatermark_def is_data_def case_prod_unfold)

lemma moderate_range: "moderate t \<Longrightarrow> 0 \<le> L \<Longrightarrow> zeroTime < t \<and> t - L \<le> Timestamp maxWatermark"
  by (auto simp: moderate_def zeroTime_def maxWatermark_def NewWatermark_def day_number_def days_before_def cum_days_def)

subsection \<open>Properties\<close>

text \<open>
  C4. A stream whose disorder stays within the bound is windowed completely. Run the watermark wrapper
  with lateness \<open>L\<close> on any schedule of records, ticks and exits in which no record is more than \<open>L\<close> older
  than one received before it, and feed its output, with barriers inserted anywhere, to the window
  operator with tumbling or sliding windows. The watermarks never go back, no record arrives late, and
  each window of each key fires once, with all the records of the source that belong to it.
\<close>

theorem bounded_disorder_windows_complete:
  assumes "sound_assigner A" "\<not> IsSession A" "in_i64 (Start w)" "in_i64 (End w)" "0 \<le> L" "in_i64 L"
    and "Run_Watermark bounded_generator evs (ws_generator (wrap \<lparr> outOfOrderness = L, wt_interval = i \<rparr> src)) = (g, out, ex)"
    and "\<forall>r\<in>set (received evs). is_data r \<and> moderate (Timestamp r)"
    and "sorted_wrt (\<lambda>a b. Timestamp a - L \<le> Timestamp b) (received evs)"
    and "filter (\<lambda>r. \<not> IsBarrier r) bs = out" "\<forall>b\<in>set bs. IsBarrier b \<longrightarrow> \<not> IsWatermark b"
  shows "sorted (map Timestamp (filter IsWatermark out)) \<and>
    (\<exists>op res snaps. Process_Window (memory_backend ordv ordl) A red (map Recv bs) NewMemoryBackend = Some (op, res, snaps) \<and>
      filter (from_window k w) res = window_result red w (map encodeRecord (filter (belongs A k w) (received evs))))"
proof -
  let ?g = "NewBoundedOutOfOrderness L"
  have g: "tracks_bounded L {} ?g" using assms(5,6) by (simp add: tracks_bounded_def NewBoundedOutOfOrderness_def)
  have out: "out = fst (snd (Run_Watermark bounded_generator evs ?g))" using assms(7) by (simp add: wrap_def)
  have rs: "\<forall>r\<in>set (received evs). is_data r \<and> zeroTime < Timestamp r \<and> Timestamp r - L \<le> Timestamp maxWatermark"
    using assms(8) moderate_range [OF _ assms(5)] by blast
  have "accepted zeroTime (map Recv bs) = received evs"
    using accepted_barriers [OF assms(11)] bounded.run_accepts [OF g, of zeroTime evs] rs assms(9,10) by (simp add: out)
  moreover have "moderate_events (map Recv bs)"
  proof -
    have "r \<in> set (received evs)" if "r \<in> set bs" "is_data r" for r
      using run_data [of bounded_generator evs ?g] that unfolding out [symmetric] assms(10) [symmetric] by (auto simp: is_data_def)
    then show ?thesis using assms(8) by (auto simp: moderate_events_def)
  qed
  moreover have "sorted (map Timestamp (filter IsWatermark out))"
    using bounded.run_watermarks [OF g, of evs] rs by (simp add: out)
  ultimately show ?thesis
    using wmem.loop_exact [OF assms(1-4) fresh_midway(2), of "map Recv bs" ordv ordl red k] by (simp add: Process_fresh fresh_lists)
qed

definition demo_run :: "ws_event list" where
  "demo_run = [Forwarded (NewRecord 5 ''a'' ''1''), Forwarded (NewRecord 12 ''a'' ''2''), Tick True,
     Forwarded (NewRecord 8 ''a'' ''3''), SourceClosed None True]"

theorem bounded_disorder_windows_complete_witness:
  "\<exists>op res snaps. Process_Window (memory_backend in_order in_order) (Tumbling 10 0) None
      (map Recv (fst (snd (Run_Watermark bounded_generator demo_run (NewBoundedOutOfOrderness 5))))) NewMemoryBackend = Some (op, res, snaps) \<and>
    filter (from_window ''a'' \<lparr> Start = 0, End = 10 \<rparr>) res =
      window_result None \<lparr> Start = 0, End = 10 \<rparr> (map encodeRecord [NewRecord 5 ''a'' ''1'', NewRecord 8 ''a'' ''3''])"
proof -
  let ?r = "Run_Watermark bounded_generator demo_run (NewBoundedOutOfOrderness 5)"
  have b: "filter (belongs (Tumbling 10 0) ''a'' \<lparr> Start = 0, End = 10 \<rparr>) (received demo_run) = [NewRecord 5 ''a'' ''1'', NewRecord 8 ''a'' ''3'']"
    by (simp add: demo_run_def belongs_def mk_window_def AssignWindows_Tumbling_def WindowStart_def go_quot_def NewRecord_def zeroRecord_def UnixNano_def Unix0_def i64_def)
  have nb: "filter (\<lambda>r. \<not> IsBarrier r) (fst (snd ?r)) = fst (snd ?r)"
    by (simp add: demo_run_def NewRecord_def zeroRecord_def bounded_generator_def tick_output_def Let_def emitMaxWatermark_def maxWatermark_def NewWatermark_def)
  have rs: "\<forall>r\<in>set (received demo_run). is_data r \<and> moderate (Timestamp r)" "sorted_wrt (\<lambda>a b. Timestamp a - 5 \<le> Timestamp b) (received demo_run)"
    by (simp_all add: demo_run_def NewRecord_def zeroRecord_def is_data_def moderate_def)
  have run: "Run_Watermark bounded_generator demo_run (ws_generator (wrap \<lparr> outOfOrderness = 5, wt_interval = 0 \<rparr> ())) = (fst ?r, fst (snd ?r), snd (snd ?r))"
    by (simp add: wrap_def)
  have "\<forall>b\<in>set (fst (snd ?r)). IsBarrier b \<longrightarrow> \<not> IsWatermark b"
    using nb by (metis (mono_tags, lifting) filter_id_conv)
  from bounded_disorder_windows_complete [OF _ _ _ _ _ _ run rs nb this, of "Tumbling 10 0" "\<lparr> Start = 0, End = 10 \<rparr>" in_order in_order None "''a''", unfolded b]
  show ?thesis by (simp add: in_i64_def)
qed

end
