(* ===== verification/Go_Text.thy ===== *)
theory Go_Text
  imports Go_Time "HOL-Library.List_Lexorder" "HOL-Library.Char_ord"
begin

text \<open>
  Decimal text as \<open>fmt\<close> and \<open>strconv\<close> print it, with the facts the identifiers built from it need: the
  text has digits only and parses back.
\<close>

fun nat_text :: "nat \<Rightarrow> string" where
  "nat_text n = (if n < 10 then [digit (int n)] else nat_text (n div 10) @ [digit (int (n mod 10))])"

declare nat_text.simps [simp del]

definition int_text :: "int \<Rightarrow> string" where
  "int_text i = (if i < 0 then CHR ''-'' # nat_text (nat (- i)) else nat_text (nat i))"

lemma parse_digits_append:
  "parse_digits acc (xs @ ys) = (case parse_digits acc xs of None \<Rightarrow> None | Some v \<Rightarrow> parse_digits v ys)"
  by (induction xs arbitrary: acc) (auto split: option.splits)

lemma parse_nat_text: "parse_digits 0 (nat_text n) = Some (int n)"
proof (induction n rule: nat_text.induct)
  case (1 n)
  show ?case
    using 1 by (subst nat_text.simps) (auto simp: parse_digits_append zdiv_int zmod_int)
qed

lemma nat_text_inj [simp]: "nat_text m = nat_text n \<longleftrightarrow> m = n"
  by (metis parse_nat_text option.inject of_nat_eq_iff)

lemma nat_text_digits: "c \<in> set (nat_text n) \<Longrightarrow> digit_val c \<noteq> None"
proof (induction n rule: nat_text.induct)
  case (1 n)
  then show ?case by (subst (asm) nat_text.simps) (auto simp: zmod_int split: if_splits)
qed

lemma nat_text_no_dash [simp]: "CHR ''-'' \<notin> set (nat_text n)"
  using nat_text_digits [of "CHR ''-''" n] by (auto simp: digit_val_def Let_def)

lemma nat_text_ne [simp]: "nat_text n \<noteq> []"
  by (subst nat_text.simps) simp

lemma split_last_dash:
  assumes "CHR ''-'' \<notin> set ys" "CHR ''-'' \<notin> set zs"
  shows "xs @ CHR ''-'' # ys = us @ CHR ''-'' # zs \<longleftrightarrow> xs = us \<and> ys = zs"
  using assms last_index_append [of "CHR ''-''" ys xs] last_index_append [of "CHR ''-''" zs us]
  by (metis append_eq_append_conv option.inject list.inject)

lemma digit_chars [simp]:
  "digit 0 = CHR ''0''" "digit 1 = CHR ''1''" "digit 2 = CHR ''2''" "digit 3 = CHR ''3''" "digit 4 = CHR ''4''"
  "digit 5 = CHR ''5''" "digit 6 = CHR ''6''" "digit 7 = CHR ''7''" "digit 8 = CHR ''8''" "digit 9 = CHR ''9''"
  by code_simp+

text \<open>
  Instants of the same second differ in the fraction only. The printed fraction has no trailing zeros, so
  the order of the texts is not the order of the instants.
\<close>

lemma div_parts:
  fixes q r B D :: int
  assumes "0 \<le> r" "r < B" "0 < D"
  shows "(q * B + r) div (B * D) = q div D" "(q * B + r) mod (B * D) = B * (q mod D) + r"
    "(B * (q mod D) + r) div B = q mod D" "(B * (q mod D) + r) mod B = r" "(q * B + r) div B = q" "(q * B + r) mod B = r"
proof -
  have b: "0 < B" using assms by simp
  have d: "(q * B + r) div B = q" "(q * B + r) mod B = r" using assms b by simp_all
  show "(q * B + r) div (B * D) = q div D" using b assms(3) d(1) by (simp add: zdiv_zmult2_eq)
  show "(q * B + r) mod (B * D) = B * (q mod D) + r" using b assms(3) d by (simp add: zmod_zmult2_eq)
  show "(B * (q mod D) + r) div B = q mod D" "(B * (q mod D) + r) mod B = r" using assms b by simp_all
  show "(q * B + r) div B = q" "(q * B + r) mod B = r" by (rule d)+
qed

lemma second_parts:
  assumes "0 \<le> r" "r < 1000000000"
  shows "rfc3339 (q * 1000000000 + r) = take 19 (rfc3339 (q * 1000000000)) @ format_frac r @ ''Z''"
proof -
  have B: "(1000000000 :: int) * 86400 = 86400000000000" by simp
  note p = div_parts [OF assms, of 86400 q, unfolded B] and z = div_parts [of 0 1000000000 86400 q, unfolded B add_0_right]
  have d: "length (digits4 x) = 4" "length (digits2 x) = 2" for x by (simp_all add: digits4_def digits2_def)
  show ?thesis
    unfolding rfc3339_def Let_def p(1) [OF zero_less_numeral] p(2) [OF zero_less_numeral] p(3) [OF zero_less_numeral] p(4) [OF zero_less_numeral]
      z(1) [OF order_refl zero_less_numeral zero_less_numeral] z(2) [OF order_refl zero_less_numeral zero_less_numeral]
      z(3) [OF order_refl zero_less_numeral zero_less_numeral] z(4) [OF order_refl zero_less_numeral zero_less_numeral]
    by (simp add: d)
qed

lemma append_less: "(p @ xs :: char list) < p @ ys \<longleftrightarrow> xs < ys"
  by (induction p) auto

lemma less_same_second:
  assumes "0 \<le> r" "r < 1000000000" "0 \<le> r'" "r' < 1000000000" "format_frac r @ ''Z'' < format_frac r' @ ''Z''"
  shows "rfc3339 (q * 1000000000 + r) < rfc3339 (q * 1000000000 + r')"
  unfolding second_parts [OF assms(1,2)] second_parts [OF assms(3,4)] append_less by (rule assms(5))

lemmas frac_simps = format_frac_def digits9_def digits4_def digits2_def trim_zeros_def

lemma text_order_reversed: "rfc3339 (q * 1000000000 + 120000000) < rfc3339 (q * 1000000000 + 100000000)"
  by (rule less_same_second) (simp_all add: frac_simps)

end
