(* ===== verification/Control_Store.thy ===== *)
theory Control_Store
  imports Stream_Record Go_Text
begin

text \<open>
  The durable state and the environment of the job control plane: the phases and the restart policy
  (\<open>control/lifecycle/lifecycle.go\<close>), the store of jobs, runs and transitions
  (\<open>control/store/store.go\<close>, \<open>control/store/sqlite.go\<close>) and the interface to the containers
  (\<open>control/backend/backend.go\<close>) with its in-memory implementation (\<open>control/backend/fake.go\<close>). A table is
  the list of its rows in the order of their insertion, with instants in the text form the database
  holds; each statement consumes one outcome, so that it may fail, and succeeds when none are left.
\<close>

subsection \<open>Phases and the restart policy\<close>

definition Submitted :: bytes where "Submitted = ''submitted''"
definition Starting :: bytes where "Starting = ''starting''"
definition Running :: bytes where "Running = ''running''"
definition Cancelling :: bytes where "Cancelling = ''cancelling''"
definition Cancelled :: bytes where "Cancelled = ''cancelled''"
definition Finished :: bytes where "Finished = ''finished''"
definition Failed :: bytes where "Failed = ''failed''"

lemmas phase_names = Submitted_def Starting_def Running_def Cancelling_def Cancelled_def Finished_def Failed_def

definition Terminal :: "bytes \<Rightarrow> bool" where
  "Terminal p \<longleftrightarrow> p \<in> {Cancelled, Finished, Failed}"

definition valid_edges :: "(bytes, bytes list) gomap" where
  "valid_edges =
     [(Submitted, [Starting, Failed, Cancelled]), (Starting, [Running, Failed, Cancelling]),
      (Running, [Cancelling, Cancelled, Finished, Failed]), (Cancelling, [Cancelled, Finished, Failed])]"

definition CanTransition :: "bytes \<Rightarrow> bytes \<Rightarrow> bool" where
  "CanTransition from to \<longleftrightarrow> (case map_of valid_edges from of None \<Rightarrow> False | Some ps \<Rightarrow> to \<in> set ps)"

definition FromAgent :: "bytes \<Rightarrow> bytes" where
  "FromAgent agentPhase =
     (if agentPhase \<in> {Starting, Running, Cancelling, Finished, Failed} then agentPhase else Failed)"

record RestartPolicy =
  MaxAttempts :: int
  BaseBackoff :: duration
  MaxBackoff :: duration

definition DefaultRestartPolicy :: RestartPolicy where
  "DefaultRestartPolicy = \<lparr> MaxAttempts = 5, BaseBackoff = 2000000000, MaxBackoff = 60000000000 \<rparr>"

definition ShouldRestart :: "RestartPolicy \<Rightarrow> bytes \<Rightarrow> int \<Rightarrow> bool" where
  "ShouldRestart p phase attempt \<longleftrightarrow> (if MaxAttempts p \<le> 0 then False else phase = Failed \<and> attempt < MaxAttempts p)"

function backoff_loop :: "RestartPolicy \<Rightarrow> int \<Rightarrow> int \<Rightarrow> duration \<Rightarrow> duration" where
  "backoff_loop p attempt i d =
     (if i < attempt
      then (let d = i64 (d * 2) in if MaxBackoff p > 0 \<and> d \<ge> MaxBackoff p then MaxBackoff p else backoff_loop p attempt (i + 1) d)
      else d)"
  by pat_completeness auto

termination
  by (relation "measure (\<lambda>(p, attempt, i, d). nat (attempt - i))") auto

declare backoff_loop.simps [simp del]

definition Backoff :: "RestartPolicy \<Rightarrow> int \<Rightarrow> duration" where
  "Backoff p attempt = backoff_loop p (if attempt < 1 then 1 else attempt) 1 (BaseBackoff p)"

subsection \<open>Jobs, runs and transitions\<close>

definition DesiredRunning :: bytes where "DesiredRunning = ''running''"
definition DesiredStopped :: bytes where "DesiredStopped = ''stopped''"
definition KindYAML :: bytes where "KindYAML = ''yaml''"
definition KindSDK :: bytes where "KindSDK = ''sdk''"

lemmas store_names = DesiredRunning_def DesiredStopped_def KindYAML_def KindSDK_def

text \<open>The graph of a job is held as its JSON text.\<close>

record Job =
  JobID :: bytes
  JobName :: bytes
  Kind :: bytes
  Spec :: bytes
  Image :: bytes
  Delivery :: bytes
  Graph :: bytes
  Desired :: bytes
  Created :: gotime
  Updated :: gotime

record Run =
  RunID :: bytes
  RunJob :: bytes
  ContainerID :: bytes
  HostPort :: int
  RunPhase :: bytes
  Attempt :: int
  RunError :: bytes
  Started :: gotime
  Stopped :: "gotime option"

record Transition =
  TransJob :: bytes
  TransRun :: bytes
  From :: bytes
  To :: bytes
  Reason :: bytes
  At :: gotime

datatype ctl_error =
    ESql | ENoRows | EConstraint | ENotFound bytes | EInvalid bytes | EActiveRun bytes | ELaunch bytes | EAgent | EBackend

text \<open>The rows hold every instant as text.\<close>

record job_row =
  jr_job :: Job
  jr_created :: bytes
  jr_updated :: bytes

record run_row =
  rr_run :: Run
  rr_started :: bytes
  rr_stopped :: "bytes option"

record SQLite =
  job_rows :: "job_row list"
  run_rows :: "run_row list"
  trans_rows :: "Transition list"
  sql_outcomes :: "bool list"

definition OpenSQLite :: "bool list \<Rightarrow> SQLite" where
  "OpenSQLite oks = \<lparr> job_rows = [], run_rows = [], trans_rows = [], sql_outcomes = oks \<rparr>"

definition exec :: "SQLite \<Rightarrow> SQLite \<times> bool" where
  "exec s = (case sql_outcomes s of [] \<Rightarrow> (s, True) | ok # oks \<Rightarrow> (s\<lparr> sql_outcomes := oks \<rparr>, ok))"

definition nullTime :: "gotime option \<Rightarrow> bytes option" where
  "nullTime t = map_option rfc3339 t"

definition parse_time :: "bytes \<Rightarrow> gotime" where
  "parse_time s = (case rfc3339_parse s of Some t \<Rightarrow> t | None \<Rightarrow> zeroTime)"

definition scanJob :: "job_row \<Rightarrow> Job" where
  "scanJob r = (jr_job r)\<lparr> Created := parse_time (jr_created r), Updated := parse_time (jr_updated r) \<rparr>"

definition scanRun :: "run_row \<Rightarrow> Run" where
  "scanRun r = (rr_run r)\<lparr> Started := parse_time (rr_started r), Stopped := map_option parse_time (rr_stopped r) \<rparr>"

definition CreateJob :: "Job \<Rightarrow> SQLite \<Rightarrow> SQLite \<times> (ctl_error + unit)" where
  "CreateJob j s =
     (let kind = (if Kind j = [] then KindYAML else Kind j); (s, ok) = exec s
      in if \<not> ok then (s, Inl ESql)
         else if JobID j \<in> (\<lambda>r. JobID (jr_job r)) ` set (job_rows s) then (s, Inl EConstraint)
         else (s\<lparr> job_rows := job_rows s @ [\<lparr> jr_job = j\<lparr> Kind := kind \<rparr>, jr_created = rfc3339 (Created j), jr_updated = rfc3339 (Updated j) \<rparr>] \<rparr>, Inr ()))"

definition GetJob :: "bytes \<Rightarrow> SQLite \<Rightarrow> SQLite \<times> (ctl_error + Job)" where
  "GetJob jid s =
     (let (s, ok) = exec s
      in if \<not> ok then (s, Inl ESql)
         else (case filter (\<lambda>r. JobID (jr_job r) = jid) (job_rows s) of [] \<Rightarrow> (s, Inl ENoRows) | r # _ \<Rightarrow> (s, Inr (scanJob r))))"

text \<open>\<open>ORDER BY ... DESC\<close> on a text column; rows that tie come in any order.\<close>

definition order_desc :: "'r range_ord \<Rightarrow> ('r \<Rightarrow> bytes) \<Rightarrow> 'r list \<Rightarrow> 'r list" where
  "order_desc ord col rows = rev (sort_key col (visit ord rows))"

definition ListJobs :: "job_row range_ord \<Rightarrow> SQLite \<Rightarrow> SQLite \<times> (ctl_error + Job list)" where
  "ListJobs ord s =
     (let (s, ok) = exec s in if \<not> ok then (s, Inl ESql) else (s, Inr (map scanJob (order_desc ord jr_created (job_rows s)))))"

definition SetDesired :: "gotime \<Rightarrow> bytes \<Rightarrow> bytes \<Rightarrow> SQLite \<Rightarrow> SQLite \<times> (ctl_error + unit)" where
  "SetDesired now jid d s =
     (let (s, ok) = exec s; here = (\<lambda>r. JobID (jr_job r) = jid)
      in if \<not> ok then (s, Inl ESql)
         else (s\<lparr> job_rows := map (\<lambda>r. if here r then r\<lparr> jr_job := (jr_job r)\<lparr> Desired := d \<rparr>, jr_updated := rfc3339 now \<rparr> else r) (job_rows s) \<rparr>,
               if list_ex here (job_rows s) then Inr () else Inl (ENotFound ''job'')))"

definition DeleteJob :: "bytes \<Rightarrow> SQLite \<Rightarrow> SQLite \<times> (ctl_error + unit)" where
  "DeleteJob jid s =
     (let (s, ok) = exec s
      in if \<not> ok then (s, Inl ESql)
         else let (s, ok) = exec (s\<lparr> trans_rows := filter (\<lambda>t. TransJob t \<noteq> jid) (trans_rows s) \<rparr>)
           in if \<not> ok then (s, Inl ESql)
              else let (s, ok) = exec (s\<lparr> run_rows := filter (\<lambda>r. RunJob (rr_run r) \<noteq> jid) (run_rows s) \<rparr>)
                in if \<not> ok then (s, Inl ESql)
                   else (s\<lparr> job_rows := filter (\<lambda>r. JobID (jr_job r) \<noteq> jid) (job_rows s) \<rparr>,
                         if list_ex (\<lambda>r. JobID (jr_job r) = jid) (job_rows s) then Inr () else Inl (ENotFound ''job'')))"

definition CreateRun :: "Run \<Rightarrow> SQLite \<Rightarrow> SQLite \<times> (ctl_error + unit)" where
  "CreateRun r s =
     (let (s, ok) = exec s
      in if \<not> ok then (s, Inl ESql)
         else if RunID r \<in> (\<lambda>r. RunID (rr_run r)) ` set (run_rows s) then (s, Inl EConstraint)
         else (s\<lparr> run_rows := run_rows s @ [\<lparr> rr_run = r, rr_started = rfc3339 (Started r), rr_stopped = nullTime (Stopped r) \<rparr>] \<rparr>, Inr ()))"

definition update_row :: "Run \<Rightarrow> run_row \<Rightarrow> run_row" where
  "update_row r x =
     (if RunID (rr_run x) = RunID r
      then x\<lparr> rr_run := (rr_run x)\<lparr> ContainerID := ContainerID r, HostPort := HostPort r, RunPhase := RunPhase r, Attempt := Attempt r, RunError := RunError r \<rparr>,
              rr_stopped := nullTime (Stopped r) \<rparr>
      else x)"

definition UpdateRun :: "Run \<Rightarrow> SQLite \<Rightarrow> SQLite \<times> (ctl_error + unit)" where
  "UpdateRun r s =
     (let (s, ok) = exec s
      in if \<not> ok then (s, Inl ESql)
         else (s\<lparr> run_rows := map (update_row r) (run_rows s) \<rparr>,
               if list_ex (\<lambda>x. RunID (rr_run x) = RunID r) (run_rows s) then Inr () else Inl (ENotFound ''run'')))"

definition GetRun :: "bytes \<Rightarrow> SQLite \<Rightarrow> SQLite \<times> (ctl_error + Run)" where
  "GetRun rid s =
     (let (s, ok) = exec s
      in if \<not> ok then (s, Inl ESql)
         else (case filter (\<lambda>r. RunID (rr_run r) = rid) (run_rows s) of [] \<Rightarrow> (s, Inl ENoRows) | r # _ \<Rightarrow> (s, Inr (scanRun r))))"

definition ListRuns :: "run_row range_ord \<Rightarrow> bytes \<Rightarrow> SQLite \<Rightarrow> SQLite \<times> (ctl_error + Run list)" where
  "ListRuns ord jid s =
     (let (s, ok) = exec s
      in if \<not> ok then (s, Inl ESql)
         else (s, Inr (map scanRun (order_desc ord rr_started (filter (\<lambda>r. RunJob (rr_run r) = jid) (run_rows s))))))"

definition LatestRun :: "run_row range_ord \<Rightarrow> bytes \<Rightarrow> SQLite \<Rightarrow> SQLite \<times> (ctl_error + Run option)" where
  "LatestRun ord jid s =
     (let (s, ok) = exec s
      in if \<not> ok then (s, Inl ESql)
         else (case order_desc ord rr_started (filter (\<lambda>r. RunJob (rr_run r) = jid) (run_rows s)) of
                 [] \<Rightarrow> (s, Inr None) | r # _ \<Rightarrow> (s, Inr (Some (scanRun r)))))"

definition ActiveRuns :: "run_row range_ord \<Rightarrow> SQLite \<Rightarrow> SQLite \<times> (ctl_error + Run list)" where
  "ActiveRuns ord s =
     (let (s, ok) = exec s
      in if \<not> ok then (s, Inl ESql)
         else (s, Inr (map scanRun (visit ord (filter (\<lambda>r. rr_stopped r = None) (run_rows s))))))"

definition AppendTransition :: "Transition \<Rightarrow> SQLite \<Rightarrow> SQLite \<times> (ctl_error + unit)" where
  "AppendTransition t s =
     (let (s, ok) = exec s in if \<not> ok then (s, Inl ESql) else (s\<lparr> trans_rows := trans_rows s @ [t] \<rparr>, Inr ()))"

definition ListTransitions :: "bytes \<Rightarrow> SQLite \<Rightarrow> SQLite \<times> (ctl_error + Transition list)" where
  "ListTransitions jid s =
     (let (s, ok) = exec s
      in if \<not> ok then (s, Inl ESql)
         else (s, Inr (map (\<lambda>t. t\<lparr> At := parse_time (rfc3339 (At t)) \<rparr>) (filter (\<lambda>t. TransJob t = jid) (trans_rows s)))))"

subsection \<open>Containers\<close>

datatype BPhase = PhaseRunning | PhaseExited | PhaseGone

record ResourceLimits =
  CPU :: bytes
  Memory :: bytes

record LaunchSpec =
  SpecJobID :: bytes
  SpecName :: bytes
  SpecImage :: bytes
  WorkflowDoc :: bytes
  Env :: "(bytes, bytes) gomap"
  ControlPort :: int
  RestoreSavepoint :: bytes
  PullPolicy :: bytes
  Resources :: "ResourceLimits option"

record BStatus =
  SPhase :: BPhase
  ExitCode :: int
  SHostPort :: int
  Address :: bytes

record 'b ContainerBackend =
  Launch :: "LaunchSpec \<Rightarrow> 'b \<Rightarrow> 'b \<times> (bytes + bytes)"
  Stop_Container :: "bytes \<Rightarrow> duration \<Rightarrow> 'b \<Rightarrow> 'b \<times> (bytes + unit)"
  Status_Container :: "bytes \<Rightarrow> 'b \<Rightarrow> 'b \<times> (bytes + BStatus)"
  Logs_Container :: "bytes \<Rightarrow> int \<Rightarrow> 'b \<Rightarrow> 'b \<times> (bytes + bytes)"
  Remove_Container :: "bytes \<Rightarrow> 'b \<Rightarrow> 'b \<times> (bytes + unit)"

text \<open>
  What the interface promises: a launch starts a container with a new identifier, or fails and starts
  none; a stopped container does not run any more; the status tells whether a container runs. \<open>live\<close>
  are the running containers with their jobs, \<open>known\<close> the identifiers given out.
\<close>

locale container_backend =
  fixes be :: "'b ContainerBackend"
    and binv :: "'b \<Rightarrow> bool"
    and live :: "'b \<Rightarrow> (bytes \<times> bytes) set"
    and known :: "'b \<Rightarrow> bytes set"
  assumes launch_ok: "binv b \<Longrightarrow> Launch be spec b = (b', Inr c) \<Longrightarrow>
      binv b' \<and> c \<notin> known b \<and> known b' = insert c (known b) \<and> live b' = insert (c, SpecJobID spec) (live b)"
    and launch_error: "binv b \<Longrightarrow> Launch be spec b = (b', Inl e) \<Longrightarrow> binv b' \<and> known b' = known b \<and> live b' = live b"
    and stop_ok: "binv b \<Longrightarrow> Stop_Container be c t b = (b', r) \<Longrightarrow> binv b' \<and> known b' = known b \<and> live b' = {x \<in> live b. fst x \<noteq> c}"
    and status_ok: "binv b \<Longrightarrow> Status_Container be c b = (b', q) \<Longrightarrow> binv b' \<and> known b' = known b \<and> live b' = live b \<and>
      (\<forall>st. q = Inr st \<longrightarrow> (SPhase st = PhaseRunning \<longleftrightarrow> (\<exists>j. (c, j) \<in> live b)))"

subsection \<open>The in-memory backend\<close>

record fakeContainer =
  fspec :: LaunchSpec
  fstatus :: BStatus
  flogs :: bytes
  removed :: bool

record Fake =
  fseq :: nat
  containers :: "(bytes, fakeContainer) gomap"
  LaunchErr :: "bytes option"

definition NewFake :: Fake where
  "NewFake = \<lparr> fseq = 0, containers = [], LaunchErr = None \<rparr>"

definition fake_id :: "bytes \<Rightarrow> nat \<Rightarrow> bytes" where
  "fake_id job n = ''fake-'' @ job @ ''-'' @ nat_text n"

definition new_container :: "LaunchSpec \<Rightarrow> nat \<Rightarrow> fakeContainer" where
  "new_container spec n =
     \<lparr> fspec = spec,
       fstatus = \<lparr> SPhase = PhaseRunning, ExitCode = 0, SHostPort = 30000 + int n, Address = ''127.0.0.1:'' @ nat_text (30000 + n) \<rparr>,
       flogs = [], removed = False \<rparr>"

definition Launch_Fake :: "LaunchSpec \<Rightarrow> Fake \<Rightarrow> Fake \<times> (bytes + bytes)" where
  "Launch_Fake spec f =
     (case LaunchErr f of
        Some err \<Rightarrow> (f\<lparr> LaunchErr := None \<rparr>, Inl err)
      | None \<Rightarrow>
          (let n = Suc (fseq f); cid = fake_id (SpecJobID spec) n
           in (f\<lparr> fseq := n, containers := map_put cid (new_container spec n) (containers f) \<rparr>, Inr cid)))"

definition SetPhase :: "bytes \<Rightarrow> BPhase \<Rightarrow> int \<Rightarrow> Fake \<Rightarrow> Fake" where
  "SetPhase cid phase code f =
     (case map_of (containers f) cid of
        None \<Rightarrow> f
      | Some c \<Rightarrow> f\<lparr> containers := map_put cid (c\<lparr> fstatus := (fstatus c)\<lparr> SPhase := phase, ExitCode := code \<rparr> \<rparr>) (containers f) \<rparr>)"

definition Stop_Fake :: "bytes \<Rightarrow> duration \<Rightarrow> Fake \<Rightarrow> Fake \<times> (bytes + unit)" where
  "Stop_Fake cid timeout f =
     ((case map_of (containers f) cid of
        None \<Rightarrow> f
      | Some c \<Rightarrow> f\<lparr> containers := map_put cid (c\<lparr> fstatus := (fstatus c)\<lparr> SPhase := PhaseExited, ExitCode := 0 \<rparr> \<rparr>) (containers f) \<rparr>), Inr ())"

definition Status_Fake :: "bytes \<Rightarrow> Fake \<Rightarrow> Fake \<times> (bytes + BStatus)" where
  "Status_Fake cid f =
     (f, Inr (case map_of (containers f) cid of
                None \<Rightarrow> \<lparr> SPhase = PhaseGone, ExitCode = 0, SHostPort = 0, Address = [] \<rparr>
              | Some c \<Rightarrow> if removed c then \<lparr> SPhase = PhaseGone, ExitCode = 0, SHostPort = 0, Address = [] \<rparr> else fstatus c))"

definition Logs_Fake :: "bytes \<Rightarrow> int \<Rightarrow> Fake \<Rightarrow> Fake \<times> (bytes + bytes)" where
  "Logs_Fake cid tail f = (f, Inr (case map_of (containers f) cid of None \<Rightarrow> [] | Some c \<Rightarrow> flogs c))"

definition Remove_Fake :: "bytes \<Rightarrow> Fake \<Rightarrow> Fake \<times> (bytes + unit)" where
  "Remove_Fake cid f =
     ((case map_of (containers f) cid of
        None \<Rightarrow> f | Some c \<Rightarrow> f\<lparr> containers := map_put cid (c\<lparr> removed := True \<rparr>) (containers f) \<rparr>), Inr ())"

definition fake_backend :: "Fake ContainerBackend" where
  "fake_backend =
     \<lparr> Launch = Launch_Fake, Stop_Container = Stop_Fake, Status_Container = Status_Fake, Logs_Container = Logs_Fake, Remove_Container = Remove_Fake \<rparr>"

definition fake_live :: "Fake \<Rightarrow> (bytes \<times> bytes) set" where
  "fake_live f = {(cid, SpecJobID (fspec c)) | cid c. map_of (containers f) cid = Some c \<and> \<not> removed c \<and> SPhase (fstatus c) = PhaseRunning}"

definition fake_known :: "Fake \<Rightarrow> bytes set" where
  "fake_known f = dom (map_of (containers f))"

definition fake_inv :: "Fake \<Rightarrow> bool" where
  "fake_inv f \<longleftrightarrow> fake_known f \<subseteq> {fake_id j n | j n. n \<le> fseq f}"

lemma fake_id_inj [simp]: "fake_id j m = fake_id k n \<longleftrightarrow> j = k \<and> m = n"
  using split_last_dash [of "nat_text m" "nat_text n" j k] by (simp add: fake_id_def)

lemma fake_update:
  assumes "map_of (containers f) c = Some k"
  shows "fake_known (f\<lparr> containers := map_put c k' (containers f) \<rparr>) = fake_known f"
    "fake_inv (f\<lparr> containers := map_put c k' (containers f) \<rparr>) = fake_inv f"
proof -
  show "fake_known (f\<lparr> containers := map_put c k' (containers f) \<rparr>) = fake_known f"
    using assms by (auto simp: fake_known_def)
  then show "fake_inv (f\<lparr> containers := map_put c k' (containers f) \<rparr>) = fake_inv f"
    by (simp add: fake_inv_def)
qed

interpretation fake: container_backend fake_backend fake_inv fake_live fake_known
proof
  fix f f' spec c e t r st q
  show "fake_inv f \<Longrightarrow> Launch fake_backend spec f = (f', Inr c) \<Longrightarrow>
      fake_inv f' \<and> c \<notin> fake_known f \<and> fake_known f' = insert c (fake_known f) \<and> fake_live f' = insert (c, SpecJobID spec) (fake_live f)"
  proof -
    assume f: "fake_inv f" "Launch fake_backend spec f = (f', Inr c)"
    have n: "fake_id (SpecJobID spec) (Suc (fseq f)) \<notin> fake_known f" using f(1) by (fastforce simp: fake_inv_def)
    define k where "k = new_container spec (Suc (fseq f))"
    have k: "c = fake_id (SpecJobID spec) (Suc (fseq f))" "SpecJobID (fspec k) = SpecJobID spec" "\<not> removed k"
      "SPhase (fstatus k) = PhaseRunning" "fseq f' = Suc (fseq f)" "containers f' = map_put c k (containers f)"
      using f(2) by (auto simp: fake_backend_def Launch_Fake_def Let_def k_def split: option.splits) (simp_all add: new_container_def)
    have known: "fake_known f' = insert c (fake_known f)" by (simp add: fake_known_def k(6))
    have "fake_known f \<subseteq> {fake_id j n | j n. n \<le> Suc (fseq f)}" using f(1) unfolding fake_inv_def by fastforce
    then have "fake_inv f'" by (auto simp: fake_inv_def known k(1,5))
    moreover have "fake_live f' = insert (c, SpecJobID spec) (fake_live f)"
      using n k by (auto simp: fake_live_def fake_known_def split: if_splits)
    ultimately show ?thesis using n known by (simp add: k(1))
  qed
  show "fake_inv f \<Longrightarrow> Launch fake_backend spec f = (f', Inl e) \<Longrightarrow> fake_inv f' \<and> fake_known f' = fake_known f \<and> fake_live f' = fake_live f"
    by (auto simp: fake_backend_def Launch_Fake_def Let_def split: option.splits) (simp_all add: fake_inv_def fake_known_def fake_live_def)
  show "fake_inv f \<Longrightarrow> Stop_Container fake_backend c t f = (f', r) \<Longrightarrow>
      fake_inv f' \<and> fake_known f' = fake_known f \<and> fake_live f' = {x \<in> fake_live f. fst x \<noteq> c}"
    by (cases "map_of (containers f) c")
      (auto simp: fake_backend_def Stop_Fake_def fake_update fake_live_def split: if_splits)
  show "fake_inv f \<Longrightarrow> Status_Container fake_backend c f = (f', q) \<Longrightarrow>
      fake_inv f' \<and> fake_known f' = fake_known f \<and> fake_live f' = fake_live f \<and>
      (\<forall>st. q = Inr st \<longrightarrow> (SPhase st = PhaseRunning \<longleftrightarrow> (\<exists>j. (c, j) \<in> fake_live f)))"
    by (auto simp: fake_backend_def Status_Fake_def fake_live_def split: option.splits if_splits)
qed

lemma NewFake_inv [simp]: "fake_inv NewFake" "fake_live NewFake = {}"
  by (simp_all add: NewFake_def fake_inv_def fake_known_def fake_live_def)

subsection \<open>The latest run\<close>

lemma exec_ok [simp]: "sql_outcomes s = [] \<Longrightarrow> exec s = (s, True)"
  by (simp add: exec_def)

lemma order_desc_head:
  assumes "r \<in> set rows" "\<forall>x\<in>set rows. x = r \<or> col x < col r"
  shows "\<exists>rest. order_desc ord col rows = r # rest"
proof -
  let ?xs = "sort_key col (visit ord rows)"
  have ne: "?xs \<noteq> []" using assms(1) by (metis empty_iff empty_set set_sort set_visit)
  have "last ?xs \<in> set rows" using ne last_in_set by fastforce
  moreover have "col r \<le> col (last ?xs)"
  proof -
    have "r \<in> set ?xs" using assms(1) by simp
    then obtain i where i: "i < length ?xs" "?xs ! i = r" by (metis in_set_conv_nth)
    have "sorted (map col ?xs)" by simp
    then have "map col ?xs ! i \<le> map col ?xs ! (length ?xs - 1)"
      using i(1) ne by (intro sorted_nth_mono) (auto simp del: sorted_sort_key)
    then show ?thesis using i ne by (simp add: last_conv_nth)
  qed
  ultimately have "last ?xs = r" using assms(2) by force
  then show ?thesis using ne by (metis order_desc_def rev.simps(2) append_butlast_last_id rev_append append_Cons append_Nil rev_rev_ident)
qed

end
