(* ===== verification/Job_Control.thy ===== *)
theory Job_Control
  imports Control_Store
begin

text \<open>
  The controller of the job control plane (\<open>control/controller.go\<close>, \<open>control/reconcile.go\<close>): submission,
  cancellation, restart, savepoint, launch with its fencing against a second live run, and the
  reconciliation pass with the restart policy. Parameters of the configuration stand for what the
  controller calls outside this model: the workflow compiler behind \<open>validate\<close>, the YAML decoding of an
  SDK manifest, the quantity syntax of Kubernetes, the HTTP request to a job agent, the clock and the
  source of identifiers. The n-th call of \<open>time.Now\<close> and of \<open>newID\<close> is the n-th value of a sequence.
\<close>

subsection \<open>State\<close>

record resourceSpec =
  rs_cpu :: bytes
  rs_memory :: bytes

record sdkManifest =
  m_kind :: bytes
  m_name :: bytes
  m_image :: bytes
  m_env :: "(bytes, bytes) gomap"
  m_resources :: "resourceSpec option"

record 'b ctl_config =
  backend :: "'b ContainerBackend"
  image :: bytes
  port :: int
  restart :: RestartPolicy
  stopTimeout :: duration
  NewID :: "nat \<Rightarrow> bytes"
  Now :: "nat \<Rightarrow> gotime"
  row_order :: "run_row range_ord"
  validate :: "bytes \<Rightarrow> (bytes, bytes) gomap \<Rightarrow> bytes + bytes \<times> bytes \<times> bytes"
  unmarshal_manifest :: "bytes \<Rightarrow> sdkManifest option"
  ParseQuantity :: "bytes \<Rightarrow> bool"
  post_savepoint :: "bytes \<Rightarrow> bytes \<Rightarrow> int option"

record 'b control =
  cstore :: SQLite
  cbackend :: 'b
  csecrets :: "(bytes, (bytes, bytes) gomap) gomap"
  readings :: nat
  id_calls :: nat

definition New_Controller :: "'b ctl_config \<Rightarrow> 'b ctl_config" where
  "New_Controller opts =
     opts\<lparr> port := (if port opts = 0 then 8080 else port opts),
           restart := (if restart opts = \<lparr> MaxAttempts = 0, BaseBackoff = 0, MaxBackoff = 0 \<rparr> then DefaultRestartPolicy else restart opts),
           stopTimeout := (if stopTimeout opts = 0 then 30000000000 else stopTimeout opts) \<rparr>"

definition new_control :: "SQLite \<Rightarrow> 'b \<Rightarrow> 'b control" where
  "new_control s b = \<lparr> cstore = s, cbackend = b, csecrets = [], readings = 0, id_calls = 0 \<rparr>"

definition time_now :: "'b ctl_config \<Rightarrow> 'b control \<Rightarrow> gotime \<times> 'b control" where
  "time_now cfg w = (Now cfg (readings w), w\<lparr> readings := Suc (readings w) \<rparr>)"

definition new_id :: "'b ctl_config \<Rightarrow> 'b control \<Rightarrow> bytes \<times> 'b control" where
  "new_id cfg w = (NewID cfg (id_calls w), w\<lparr> id_calls := Suc (id_calls w) \<rparr>)"

text \<open>\<open>strings.EqualFold(kind, "sdk")\<close>: either case, the long s and the Kelvin sign.\<close>

definition EqualFold_sdk :: "bytes \<Rightarrow> bool" where
  "EqualFold_sdk k \<longleftrightarrow>
     k \<in> set [a @ b @ c. a \<leftarrow> [''s'', ''S'', [CHR 0xC5, CHR 0xBF]], b \<leftarrow> [''d'', ''D''], c \<leftarrow> [''k'', ''K'', [CHR 0xE2, CHR 0x84, CHR 0xAA]]]"

definition parseSDKManifest :: "'b ctl_config \<Rightarrow> bytes \<Rightarrow> sdkManifest option" where
  "parseSDKManifest cfg doc =
     (case unmarshal_manifest cfg doc of None \<Rightarrow> None | Some m \<Rightarrow> if EqualFold_sdk (m_kind m) then Some m else None)"

definition validateResources :: "'b ctl_config \<Rightarrow> resourceSpec option \<Rightarrow> ctl_error + unit" where
  "validateResources cfg r =
     (case r of
        None \<Rightarrow> Inr ()
      | Some r \<Rightarrow>
          if rs_cpu r \<noteq> [] \<and> \<not> ParseQuantity cfg (rs_cpu r) then Inl (EInvalid ''resources.cpu'')
          else if rs_memory r \<noteq> [] \<and> \<not> ParseQuantity cfg (rs_memory r) then Inl (EInvalid ''resources.memory'')
          else Inr ())"

definition toLimits :: "resourceSpec option \<Rightarrow> ResourceLimits option" where
  "toLimits r =
     (case r of
        None \<Rightarrow> None
      | Some r \<Rightarrow> if rs_cpu r = [] \<and> rs_memory r = [] then None else Some \<lparr> CPU = rs_cpu r, Memory = rs_memory r \<rparr>)"

definition maps_Copy :: "(bytes, bytes) gomap \<Rightarrow> (bytes, bytes) gomap \<Rightarrow> (bytes, bytes) gomap" where
  "maps_Copy dst src = fold (\<lambda>(k, v). map_put k v) src dst"

definition mergeEnv :: "(bytes, bytes) gomap \<Rightarrow> (bytes, bytes) gomap \<Rightarrow> (bytes, bytes) gomap" where
  "mergeEnv base override = (if length base = 0 then override else maps_Copy (maps_Copy [] base) override)"

definition setSecrets :: "bytes \<Rightarrow> (bytes, bytes) gomap \<Rightarrow> 'b control \<Rightarrow> 'b control" where
  "setSecrets jid env w =
     (if length env = 0 then w else w\<lparr> csecrets := map_put jid (maps_Copy [] env) (csecrets w) \<rparr>)"

definition getSecrets :: "bytes \<Rightarrow> 'b control \<Rightarrow> (bytes, bytes) gomap" where
  "getSecrets jid w = (case map_of (csecrets w) jid of Some env \<Rightarrow> env | None \<Rightarrow> [])"

definition launchEnv :: "bytes \<Rightarrow> 'b control \<Rightarrow> (bytes, bytes) gomap" where
  "launchEnv jid w = maps_Copy [(''WEIBO_JOB_ID'', jid)] (getSecrets jid w)"

subsection \<open>Runs\<close>

definition transition :: "'b ctl_config \<Rightarrow> bytes \<Rightarrow> bytes \<Rightarrow> bytes \<Rightarrow> bytes \<Rightarrow> bytes \<Rightarrow> 'b control \<Rightarrow> 'b control" where
  "transition cfg jid rid from to reason w =
     (let (now, w) = time_now cfg w;
          (s, _) = AppendTransition \<lparr> TransJob = jid, TransRun = rid, From = from, To = to, Reason = reason, At = now \<rparr> (cstore w)
      in w\<lparr> cstore := s \<rparr>)"

definition finishRun :: "'b ctl_config \<Rightarrow> Run \<Rightarrow> bytes \<Rightarrow> bytes \<Rightarrow> bytes \<Rightarrow> 'b control \<Rightarrow> 'b control" where
  "finishRun cfg run from to reason w =
     (let (now, w) = time_now cfg w;
          (s, _) = UpdateRun (run\<lparr> RunPhase := to, Stopped := Some now \<rparr>) (cstore w)
      in transition cfg (RunJob run) (RunID run) from to reason (w\<lparr> cstore := s \<rparr>))"

definition launch_spec :: "'b ctl_config \<Rightarrow> Job \<Rightarrow> bytes \<Rightarrow> 'b control \<Rightarrow> LaunchSpec" where
  "launch_spec cfg job restore w =
     (let env = launchEnv (JobID job) w;
          (img, doc, env, limits) =
            (if Kind job = KindSDK
             then (case parseSDKManifest cfg (Spec job) of
                     Some m \<Rightarrow> (Image job, [], mergeEnv (m_env m) env, toLimits (m_resources m))
                   | None \<Rightarrow> (Image job, [], env, None))
             else (image cfg, Spec job, env, None))
      in \<lparr> SpecJobID = JobID job, SpecName = JobName job, SpecImage = img, WorkflowDoc = doc, Env = env, ControlPort = port cfg,
           RestoreSavepoint = restore, PullPolicy = ''ifnotpresent'', Resources = limits \<rparr>)"

definition launch_failed :: "'b ctl_config \<Rightarrow> Job \<Rightarrow> Run \<Rightarrow> gotime \<Rightarrow> bytes \<Rightarrow> 'b control \<Rightarrow> 'b control \<times> (ctl_error + unit)" where
  "launch_failed cfg job run now err w =
     (let (s, _) = CreateRun (run\<lparr> RunPhase := Failed, RunError := err, Stopped := Some now \<rparr>) (cstore w)
      in (transition cfg (JobID job) (RunID run) Starting Failed err (w\<lparr> cstore := s \<rparr>), Inl (ELaunch err)))"

definition launch_started :: "'b ctl_config \<Rightarrow> Job \<Rightarrow> Run \<Rightarrow> bytes \<Rightarrow> 'b control \<Rightarrow> 'b control \<times> (ctl_error + unit)" where
  "launch_started cfg job run cid w =
     (let (b, st) = Status_Container (backend cfg) cid (cbackend w);
          run = run\<lparr> ContainerID := cid, RunPhase := Running, HostPort := (case st of Inr st \<Rightarrow> SHostPort st | Inl _ \<Rightarrow> HostPort run) \<rparr>;
          (s, created) = CreateRun run (cstore w); w = w\<lparr> cbackend := b, cstore := s \<rparr>
      in case created of
           Inl e \<Rightarrow> (w, Inl e)
         | Inr _ \<Rightarrow> (transition cfg (JobID job) (RunID run) Submitted Running ''launched'' w, Inr ()))"

definition launch :: "'b ctl_config \<Rightarrow> Job \<Rightarrow> int \<Rightarrow> bytes \<Rightarrow> 'b control \<Rightarrow> 'b control \<times> (ctl_error + unit)" where
  "launch cfg job attempt restore w =
     (let (s, prev) = LatestRun (row_order cfg) (JobID job) (cstore w); w = w\<lparr> cstore := s \<rparr>
      in if (case prev of Inr (Some r) \<Rightarrow> Stopped r = None | _ \<Rightarrow> False) then (w, Inl (EActiveRun (JobID job)))
         else
           let (now, w) = time_now cfg w; (rid, w) = new_id cfg w;
               run = \<lparr> RunID = rid, RunJob = JobID job, ContainerID = [], HostPort = 0, RunPhase = Starting, Attempt = attempt,
                       RunError = [], Started = now, Stopped = None \<rparr>;
               (b, launched) = Launch (backend cfg) (launch_spec cfg job restore w) (cbackend w); w = w\<lparr> cbackend := b \<rparr>
           in case launched of
                Inl err \<Rightarrow> launch_failed cfg job run now err w
              | Inr cid \<Rightarrow> launch_started cfg job run cid w)"

subsection \<open>The operations of the API\<close>

definition submit_job :: "'b ctl_config \<Rightarrow> Job \<Rightarrow> (bytes, bytes) gomap \<Rightarrow> bytes \<Rightarrow> 'b control \<Rightarrow> 'b control \<times> (ctl_error + Job)" where
  "submit_job cfg job env reason w =
     (let (s, r) = CreateJob job (cstore w); w = w\<lparr> cstore := s \<rparr>
      in case r of
           Inl e \<Rightarrow> (w, Inl e)
         | Inr _ \<Rightarrow>
             (let w = transition cfg (JobID job) [] [] Submitted reason (setSecrets (JobID job) env w);
                  (w, l) = launch cfg job 1 [] w
              in case l of Inl e \<Rightarrow> (w, Inl e) | Inr _ \<Rightarrow> (w, Inr job)))"

definition submitSDK :: "'b ctl_config \<Rightarrow> bytes \<Rightarrow> sdkManifest \<Rightarrow> (bytes, bytes) gomap \<Rightarrow> 'b control \<Rightarrow> 'b control \<times> (ctl_error + Job)" where
  "submitSDK cfg doc m env w =
     (if m_name m = [] then (w, Inl (EInvalid ''name''))
      else if m_image m = [] then (w, Inl (EInvalid ''image''))
      else (case validateResources cfg (m_resources m) of
              Inl e \<Rightarrow> (w, Inl e)
            | Inr _ \<Rightarrow>
                (let (now, w) = time_now cfg w; (jid, w) = new_id cfg w
                 in submit_job cfg
                      \<lparr> JobID = jid, JobName = m_name m, Kind = KindSDK, Spec = doc, Image = m_image m, Delivery = [], Graph = [],
                        Desired = DesiredRunning, Created = now, Updated = now \<rparr> env ''submitted (sdk)'' w)))"

definition Submit :: "'b ctl_config \<Rightarrow> bytes \<Rightarrow> (bytes, bytes) gomap \<Rightarrow> 'b control \<Rightarrow> 'b control \<times> (ctl_error + Job)" where
  "Submit cfg doc env w =
     (case parseSDKManifest cfg doc of
        Some m \<Rightarrow> submitSDK cfg doc m env w
      | None \<Rightarrow>
          (case validate cfg doc env of
             Inl e \<Rightarrow> (w, Inl (EInvalid e))
           | Inr (name, delivery, graph) \<Rightarrow>
               (let (now, w) = time_now cfg w; (jid, w) = new_id cfg w
                in submit_job cfg
                     \<lparr> JobID = jid, JobName = name, Kind = KindYAML, Spec = doc, Image = [], Delivery = delivery, Graph = graph,
                       Desired = DesiredRunning, Created = now, Updated = now \<rparr> env ''submitted'' w)))"

definition stop_run :: "'b ctl_config \<Rightarrow> Run \<Rightarrow> bytes \<Rightarrow> 'b control \<Rightarrow> 'b control" where
  "stop_run cfg run reason w =
     (let (b, _) = Stop_Container (backend cfg) (ContainerID run) (stopTimeout cfg) (cbackend w)
      in finishRun cfg run Running Cancelled reason (w\<lparr> cbackend := b \<rparr>))"

definition set_desired :: "'b ctl_config \<Rightarrow> bytes \<Rightarrow> bytes \<Rightarrow> 'b control \<Rightarrow> 'b control \<times> (ctl_error + unit)" where
  "set_desired cfg jid d w =
     (let (now, w) = time_now cfg w; (s, r) = SetDesired now jid d (cstore w) in (w\<lparr> cstore := s \<rparr>, r))"

definition Cancel_Job :: "'b ctl_config \<Rightarrow> bytes \<Rightarrow> 'b control \<Rightarrow> 'b control \<times> (ctl_error + unit)" where
  "Cancel_Job cfg jid w =
     (let (s, j) = GetJob jid (cstore w); w = w\<lparr> cstore := s \<rparr>
      in case j of
           Inl e \<Rightarrow> (w, Inl e)
         | Inr _ \<Rightarrow>
             (let (w, d) = set_desired cfg jid DesiredStopped w
              in case d of
                   Inl e \<Rightarrow> (w, Inl e)
                 | Inr _ \<Rightarrow>
                     (let (s, latest) = LatestRun (row_order cfg) jid (cstore w); w = w\<lparr> cstore := s \<rparr>
                      in case latest of
                           Inl e \<Rightarrow> (w, Inl e)
                         | Inr None \<Rightarrow> (w, Inr ())
                         | Inr (Some run) \<Rightarrow>
                             if Stopped run \<noteq> None then (w, Inr ()) else (stop_run cfg run ''user cancel'' w, Inr ()))))"

definition doRestart :: "'b ctl_config \<Rightarrow> bytes \<Rightarrow> bytes \<Rightarrow> 'b control \<Rightarrow> 'b control \<times> (ctl_error + Job)" where
  "doRestart cfg jid restore w =
     (let (s, j) = GetJob jid (cstore w); w = w\<lparr> cstore := s \<rparr>
      in case j of
           Inl e \<Rightarrow> (w, Inl e)
         | Inr job \<Rightarrow>
             (let (s, latest) = LatestRun (row_order cfg) jid (cstore w); w = w\<lparr> cstore := s \<rparr>;
                  w = (case latest of
                         Inr (Some run) \<Rightarrow> if Stopped run = None then stop_run cfg run ''restart'' w else w
                       | _ \<Rightarrow> w);
                  (w, d) = set_desired cfg jid DesiredRunning w
              in case d of
                   Inl e \<Rightarrow> (w, Inl e)
                 | Inr _ \<Rightarrow>
                     (let (w, l) = launch cfg job 1 restore w
                      in case l of Inl e \<Rightarrow> (w, Inl e) | Inr _ \<Rightarrow> (w, Inr job))))"

definition Restart_Job :: "'b ctl_config \<Rightarrow> bytes \<Rightarrow> 'b control \<Rightarrow> 'b control \<times> (ctl_error + Job)" where
  "Restart_Job cfg jid w = doRestart cfg jid [] w"

definition RestartFromSavepoint :: "'b ctl_config \<Rightarrow> bytes \<Rightarrow> bytes \<Rightarrow> 'b control \<Rightarrow> 'b control \<times> (ctl_error + Job)" where
  "RestartFromSavepoint cfg jid label w =
     (if label = [] then (w, Inl (EInvalid ''label'')) else doRestart cfg jid label w)"

definition ControlAddress :: "'b ctl_config \<Rightarrow> bytes \<Rightarrow> 'b control \<Rightarrow> 'b control \<times> (ctl_error + bytes)" where
  "ControlAddress cfg jid w =
     (let (s, latest) = LatestRun (row_order cfg) jid (cstore w); w = w\<lparr> cstore := s \<rparr>
      in case latest of
           Inl e \<Rightarrow> (w, Inl e)
         | Inr None \<Rightarrow> (w, Inr [])
         | Inr (Some run) \<Rightarrow>
             if ContainerID run = [] \<or> Stopped run \<noteq> None then (w, Inr [])
             else (let (b, st) = Status_Container (backend cfg) (ContainerID run) (cbackend w); w = w\<lparr> cbackend := b \<rparr>
                   in case st of Inl e \<Rightarrow> (w, Inl EBackend) | Inr st \<Rightarrow> (w, Inr (Address st))))"

definition Savepoint :: "'b ctl_config \<Rightarrow> bytes \<Rightarrow> bytes \<Rightarrow> 'b control \<Rightarrow> 'b control \<times> (ctl_error + unit)" where
  "Savepoint cfg jid label w =
     (if label = [] then (w, Inl (EInvalid ''label''))
      else
        let (w, addr) = ControlAddress cfg jid w
        in case addr of
             Inl e \<Rightarrow> (w, Inl e)
           | Inr addr \<Rightarrow>
               if addr = [] then (w, Inl (EInvalid ''no running control surface''))
               else (case post_savepoint cfg addr label of
                       None \<Rightarrow> (w, Inl EAgent)
                     | Some code \<Rightarrow>
                         if code \<noteq> 202 then (w, Inl EAgent)
                         else (let (w, d) = set_desired cfg jid DesiredStopped w
                               in case d of
                                    Inl e \<Rightarrow> (w, Inl e)
                                  | Inr _ \<Rightarrow> (transition cfg jid [] Running Cancelling (''savepoint: '' @ label) w, Inr ()))))"

subsection \<open>Reconciliation\<close>

text \<open>\<open>done_in_backoff\<close> tells for which jobs the context ends while the restart waits for its backoff.\<close>

definition maybeRestart :: "'b ctl_config \<Rightarrow> (bytes \<Rightarrow> bool) \<Rightarrow> Job \<Rightarrow> Run \<Rightarrow> 'b control \<Rightarrow> 'b control" where
  "maybeRestart cfg done_in_backoff job run w =
     (if Desired job \<noteq> DesiredRunning then w
      else if \<not> ShouldRestart (restart cfg) Failed (Attempt run) then w
      else if Backoff (restart cfg) (Attempt run) > 0 \<and> done_in_backoff (JobID job) then w
      else fst (launch cfg job (Attempt run + 1) [] w))"

definition handleExit :: "'b ctl_config \<Rightarrow> (bytes \<Rightarrow> bool) \<Rightarrow> Job \<Rightarrow> Run \<Rightarrow> int \<Rightarrow> 'b control \<Rightarrow> 'b control" where
  "handleExit cfg done_in_backoff job run exitCode w =
     (let (to, reason) =
        (if Desired job = DesiredStopped then (Cancelled, ''stopped by request'')
         else if exitCode = 0 then (Finished, ''container exited'')
         else (Failed, ''nonzero exit''));
        w = finishRun cfg run Running to reason w
      in if to = Failed then maybeRestart cfg done_in_backoff job run w else w)"

definition reconcileRun :: "'b ctl_config \<Rightarrow> (bytes \<Rightarrow> bool) \<Rightarrow> Job \<Rightarrow> Run \<Rightarrow> BStatus \<Rightarrow> 'b control \<Rightarrow> 'b control" where
  "reconcileRun cfg done_in_backoff job run st w =
     (case SPhase st of
        PhaseRunning \<Rightarrow>
          if Desired job = DesiredStopped then stop_run cfg run ''desired stopped'' w
          else if RunPhase run \<noteq> Running \<or> (SHostPort st \<noteq> 0 \<and> HostPort run \<noteq> SHostPort st)
          then (let run = run\<lparr> RunPhase := Running, HostPort := (if SHostPort st \<noteq> 0 then SHostPort st else HostPort run) \<rparr>;
                    (s, _) = UpdateRun run (cstore w)
                in w\<lparr> cstore := s \<rparr>)
          else w
      | PhaseExited \<Rightarrow> handleExit cfg done_in_backoff job run (ExitCode st) w
      | PhaseGone \<Rightarrow>
          if Desired job = DesiredStopped then finishRun cfg run Running Cancelled ''container gone; desired stopped'' w
          else maybeRestart cfg done_in_backoff job run (finishRun cfg run Running Failed ''container gone'' w))"

definition reconcile_one :: "'b ctl_config \<Rightarrow> (bytes \<Rightarrow> bool) \<Rightarrow> Run \<Rightarrow> 'b control \<Rightarrow> 'b control" where
  "reconcile_one cfg done_in_backoff run w =
     (let (s, j) = GetJob (RunJob run) (cstore w); w = w\<lparr> cstore := s \<rparr>
      in case j of
           Inl _ \<Rightarrow> w
         | Inr job \<Rightarrow>
             (let (b, st) = Status_Container (backend cfg) (ContainerID run) (cbackend w); w = w\<lparr> cbackend := b \<rparr>
              in case st of Inl _ \<Rightarrow> w | Inr st \<Rightarrow> reconcileRun cfg done_in_backoff job run st w))"

definition Reconcile :: "'b ctl_config \<Rightarrow> (bytes \<Rightarrow> bool) \<Rightarrow> 'b control \<Rightarrow> 'b control \<times> (ctl_error + unit)" where
  "Reconcile cfg done_in_backoff w =
     (let (s, active) = ActiveRuns (row_order cfg) (cstore w); w = w\<lparr> cstore := s \<rparr>
      in case active of
           Inl e \<Rightarrow> (w, Inl e)
         | Inr runs \<Rightarrow> (fold (reconcile_one cfg done_in_backoff) runs w, Inr ()))"

subsection \<open>Histories of the control plane\<close>

text \<open>
  The operations one after the other, in any order; between them containers end, and the controller
  process restarts and forgets its secrets.
\<close>

datatype ctl_op =
    OSubmit bytes "(bytes, bytes) gomap" | OCancel bytes | ORestart bytes bytes | OSavepoint bytes bytes
  | OReconcile "bytes \<Rightarrow> bool" | OExits | OCrash

inductive control_step ::
  "('b \<Rightarrow> bool) \<Rightarrow> ('b \<Rightarrow> (bytes \<times> bytes) set) \<Rightarrow> 'b ctl_config \<Rightarrow> ctl_op \<Rightarrow> 'b control \<Rightarrow> 'b control \<Rightarrow> bool"
  for binv live cfg where
  submit: "Submit cfg doc env w = (w', r) \<Longrightarrow> control_step binv live cfg (OSubmit doc env) w w'"
| cancel: "Cancel_Job cfg jid w = (w', r) \<Longrightarrow> control_step binv live cfg (OCancel jid) w w'"
| restart: "doRestart cfg jid label w = (w', r) \<Longrightarrow> control_step binv live cfg (ORestart jid label) w w'"
| savepoint: "Savepoint cfg jid label w = (w', r) \<Longrightarrow> control_step binv live cfg (OSavepoint jid label) w w'"
| reconcile: "Reconcile cfg bo w = (w', r) \<Longrightarrow> control_step binv live cfg (OReconcile bo) w w'"
| exits: "binv b \<Longrightarrow> live b \<subseteq> live (cbackend w) \<Longrightarrow> control_step binv live cfg OExits w (w\<lparr> cbackend := b \<rparr>)"
| crash: "control_step binv live cfg OCrash w (w\<lparr> csecrets := [] \<rparr>)"

inductive history ::
  "('b \<Rightarrow> bool) \<Rightarrow> ('b \<Rightarrow> (bytes \<times> bytes) set) \<Rightarrow> 'b ctl_config \<Rightarrow> 'b control \<Rightarrow> ctl_op list \<Rightarrow> 'b control \<Rightarrow> bool"
  for binv live cfg w where
  none: "history binv live cfg w [] w"
| more: "history binv live cfg w ops w1 \<Longrightarrow> control_step binv live cfg op w1 w2 \<Longrightarrow> history binv live cfg w (ops @ [op]) w2"

inductive_cases control_stepE: "control_step binv live cfg op w w'"

end
