(* ===== verification/Job_Control_Inv.thy ===== *)
theory Job_Control_Inv
  imports Job_Control
begin

text \<open>
  The invariant of the control plane: what the store and the backend of \<open>Job_Control\<close> agree on when the
  backend keeps the contract of \<open>Control_Store\<close>, and that every operation and every history keeps it.
\<close>

subsection \<open>The invariant\<close>

abbreviation rid :: "run_row \<Rightarrow> bytes" where "rid x \<equiv> RunID (rr_run x)"
abbreviation rjob :: "run_row \<Rightarrow> bytes" where "rjob x \<equiv> RunJob (rr_run x)"

text \<open>
  Rows: of two runs of a job the earlier has stopped and has the smaller start text; every running
  container belongs to a run that has not stopped.
\<close>

definition runs_ordered :: "run_row list \<Rightarrow> bool" where
  "runs_ordered rows \<longleftrightarrow> sorted_wrt (\<lambda>a b. rjob a = rjob b \<longrightarrow> rr_started a < rr_started b \<and> rr_stopped a \<noteq> None) rows"

definition covered :: "(bytes \<times> bytes) set \<Rightarrow> run_row list \<Rightarrow> bool" where
  "covered L rows \<longleftrightarrow> (\<forall>c j. (c, j) \<in> L \<longrightarrow> (\<exists>x\<in>set rows. ContainerID (rr_run x) = c \<and> rjob x = j \<and> rr_stopped x = None))"

definition ctl_inv :: "('b \<Rightarrow> bool) \<Rightarrow> ('b \<Rightarrow> (bytes \<times> bytes) set) \<Rightarrow> 'b ctl_config \<Rightarrow> 'b control \<Rightarrow> bool" where
  "ctl_inv binv live cfg w \<longleftrightarrow>
     sql_outcomes (cstore w) = [] \<and> binv (cbackend w) \<and>
     distinct (map rid (run_rows (cstore w))) \<and> rid ` set (run_rows (cstore w)) \<subseteq> NewID cfg ` {..<id_calls w} \<and>
     rr_started ` set (run_rows (cstore w)) \<subseteq> (\<lambda>n. rfc3339 (Now cfg n)) ` {..<readings w} \<and>
     runs_ordered (run_rows (cstore w)) \<and> covered (live (cbackend w)) (run_rows (cstore w)) \<and>
     (\<forall>x\<in>set (run_rows (cstore w)). 1 \<le> Attempt (rr_run x) \<and> Attempt (rr_run x) \<le> max 1 (MaxAttempts (Job_Control.restart cfg)))"

text \<open>The clock and the identifiers as far as they were used.\<close>

definition sane :: "'b ctl_config \<Rightarrow> 'b control \<Rightarrow> bool" where
  "sane cfg w \<longleftrightarrow> (\<forall>m n. m < n \<and> n < readings w \<longrightarrow> rfc3339 (Now cfg m) < rfc3339 (Now cfg n)) \<and> inj_on (NewID cfg) {..<id_calls w}"

definition later :: "'b control \<Rightarrow> 'b control \<Rightarrow> bool" where
  "later w w' \<longleftrightarrow> readings w \<le> readings w' \<and> id_calls w \<le> id_calls w'"

lemma later_refl [simp]: "later w w" by (simp add: later_def)

lemma later_trans: "later w w1 \<Longrightarrow> later w1 w2 \<Longrightarrow> later w w2" by (simp add: later_def)

lemma sane_later: "sane cfg w' \<Longrightarrow> later w w' \<Longrightarrow> sane cfg w"
  by (auto simp: sane_def later_def inj_on_def)

lemma covered_mono: "covered L rows \<Longrightarrow> M \<subseteq> L \<Longrightarrow> covered M rows"
  by (auto simp: covered_def)

lemma in_butlast: "x \<in> set xs \<Longrightarrow> x \<noteq> last xs \<Longrightarrow> x \<in> set (butlast xs)"
  by (induction xs) auto

lemma all_equal_short: "distinct xs \<Longrightarrow> (\<And>x y. x \<in> set xs \<Longrightarrow> y \<in> set xs \<Longrightarrow> x = y) \<Longrightarrow> length xs \<le> 1"
proof (rule ccontr)
  assume d: "distinct xs" and eq: "\<And>x y. x \<in> set xs \<Longrightarrow> y \<in> set xs \<Longrightarrow> x = y" and "\<not> length xs \<le> 1"
  then have l: "0 < length xs" "1 < length xs" by auto
  then have "xs ! 0 = xs ! 1" using eq nth_mem by blast
  then show False using nth_eq_iff_index_eq [OF d l] by simp
qed

lemma one_unstopped:
  assumes "runs_ordered rows" "x \<in> set rows" "y \<in> set rows" "rjob x = rjob y" "rr_stopped x = None" "rr_stopped y = None"
  shows "x = y"
proof -
  obtain i j where i: "i < length rows" "rows ! i = x" and j: "j < length rows" "rows ! j = y"
    using assms(2,3) by (metis in_set_conv_nth)
  show ?thesis
    using assms i j unfolding runs_ordered_def sorted_wrt_iff_nth_less
    by (metis linorder_neqE_nat)
qed

text \<open>The latest run of the store is the last row of the job.\<close>

lemma LatestRun_last:
  assumes "sql_outcomes s = []" "runs_ordered (run_rows s)"
  shows "LatestRun ord jid s = (s, Inr (case filter (\<lambda>x. rjob x = jid) (run_rows s) of [] \<Rightarrow> None | _ \<Rightarrow> Some (scanRun (last (filter (\<lambda>x. rjob x = jid) (run_rows s))))))"
proof (cases "filter (\<lambda>x. rjob x = jid) (run_rows s) = []")
  case True
  then show ?thesis using assms(1) by (simp add: LatestRun_def order_desc_def)
next
  case False
  let ?xs = "filter (\<lambda>x. rjob x = jid) (run_rows s)"
  have "sorted_wrt (\<lambda>a b. rr_started a < rr_started b) ?xs"
    using sorted_wrt_filter [OF assms(2) [unfolded runs_ordered_def], of "\<lambda>x. rjob x = jid"]
    by (rule sorted_wrt_mono_rel [rotated]) auto
  then have "sorted_wrt (\<lambda>a b. rr_started a < rr_started b) (butlast ?xs @ [last ?xs])" using False by simp
  then have before: "\<forall>x\<in>set (butlast ?xs). rr_started x < rr_started (last ?xs)" by (simp only: sorted_wrt_append) simp
  have "set ?xs = insert (last ?xs) (set (butlast ?xs))"
    using False by (metis append_butlast_last_id list.simps(15) rotate1.simps(2) set_rotate1)
  then have "x = last ?xs \<or> rr_started x < rr_started (last ?xs)" if "x \<in> set ?xs" for x
    using that before by auto
  then obtain rest where "order_desc ord rr_started ?xs = last ?xs # rest"
    using order_desc_head [of "last ?xs" ?xs rr_started ord] last_in_set [OF False] by blast
  then show ?thesis using assms(1) False by (simp add: LatestRun_def split: list.split)
qed

text \<open>The clock and the identifiers only advance.\<close>

lemma later_simps [simp]:
  "readings (snd (time_now cfg w)) = Suc (readings w)" "id_calls (snd (time_now cfg w)) = id_calls w"
  "readings (snd (new_id cfg w)) = readings w" "id_calls (snd (new_id cfg w)) = Suc (id_calls w)"
  by (simp_all add: time_now_def new_id_def)

lemma transition_frame:
  "later w (transition cfg jid r from to reason w)" "cbackend (transition cfg jid r from to reason w) = cbackend w"
  "run_rows (cstore (transition cfg jid r from to reason w)) = run_rows (cstore w)"
  "job_rows (cstore (transition cfg jid r from to reason w)) = job_rows (cstore w)"
  "readings (transition cfg jid r from to reason w) = Suc (readings w)" "id_calls (transition cfg jid r from to reason w) = id_calls w"
  "sql_outcomes (cstore w) = [] \<Longrightarrow> sql_outcomes (cstore (transition cfg jid r from to reason w)) = []"
  by (auto simp: transition_def time_now_def AppendTransition_def exec_def later_def Let_def split: list.splits prod.splits)

lemma later_update [simp]:
  "later u (w\<lparr> cstore := s \<rparr>) = later u w" "later u (w\<lparr> cbackend := b \<rparr>) = later u w" "later u (w\<lparr> csecrets := e \<rparr>) = later u w"
  "later u w \<Longrightarrow> later u (w\<lparr> readings := Suc (readings w) \<rparr>)" "later u w \<Longrightarrow> later u (w\<lparr> id_calls := Suc (id_calls w) \<rparr>)"
  by (simp_all add: later_def)

lemma transition_later [simp]: "later u w \<Longrightarrow> later u (transition cfg jid r from to reason w)"
  by (simp add: later_def transition_frame)

lemma finishRun_later [simp]: "later u w \<Longrightarrow> later u (finishRun cfg run from to reason w)"
  by (simp add: finishRun_def time_now_def Let_def split: prod.split)

lemma stop_run_later [simp]: "later u w \<Longrightarrow> later u (stop_run cfg run reason w)"
  by (simp add: stop_run_def split: prod.split)

lemma set_desired_later [simp]: "later u w \<Longrightarrow> later u (fst (set_desired cfg jid d w))"
  by (simp add: set_desired_def time_now_def Let_def split: prod.split)

lemma launch_later [simp]: "later u w \<Longrightarrow> later u (fst (launch cfg job attempt restore w))"
  by (auto simp: launch_def launch_failed_def launch_started_def time_now_def new_id_def later_def transition_frame Let_def
      split: prod.splits sum.splits)

lemma maybeRestart_later [simp]: "later u w \<Longrightarrow> later u (maybeRestart cfg bo job run w)"
  by (simp add: maybeRestart_def)

lemma reconcileRun_later [simp]: "later u w \<Longrightarrow> later u (reconcileRun cfg bo job run st w)"
  by (simp add: reconcileRun_def handleExit_def Let_def split: prod.split BPhase.split)

lemma reconcile_one_later [simp]: "later u w \<Longrightarrow> later u (reconcile_one cfg bo run w)"
  by (simp add: reconcile_one_def Let_def split: prod.split sum.split)

lemma reconcile_fold_later [simp]: "later u w \<Longrightarrow> later u (fold (reconcile_one cfg bo) runs w)"
  by (induction runs arbitrary: w) simp_all

lemma submit_job_later [simp]: "later u w \<Longrightarrow> later u (fst (submit_job cfg job env reason w))"
  by (simp add: submit_job_def setSecrets_def Let_def case_prod_unfold split: sum.split)

lemma Submit_later: "later w (fst (Submit cfg doc env w))"
proof -
  have "later w (w\<lparr> readings := Suc (readings w), id_calls := Suc (id_calls w) \<rparr>)" by (simp add: later_def)
  then show ?thesis
    by (simp add: Submit_def submitSDK_def time_now_def new_id_def split: option.split sum.split)
qed

lemma Cancel_later: "later w (fst (Cancel_Job cfg jid w))"
  by (simp add: Cancel_Job_def Let_def case_prod_unfold split: sum.split option.split)

lemma Restart_later: "later w (fst (doRestart cfg jid label w))"
  by (simp add: doRestart_def Let_def case_prod_unfold split: sum.split option.split)

lemma Savepoint_later: "later w (fst (Savepoint cfg jid label w))"
  by (simp add: Savepoint_def ControlAddress_def Let_def case_prod_unfold split: sum.split option.split)

lemma Reconcile_later: "later w (fst (Reconcile cfg bo w))"
  by (simp add: Reconcile_def Let_def case_prod_unfold split: sum.split)

lemma step_later: "control_step binv live cfg op w w' \<Longrightarrow> later w w'"
  by (erule control_stepE) (metis fst_conv Submit_later Cancel_later Restart_later Savepoint_later Reconcile_later later_refl later_update(2,3))+

text \<open>What a step may do: touch the rows of the runs in \<open>A\<close>, and start containers of the jobs in \<open>S\<close>.\<close>

definition ok_step ::
  "('b \<Rightarrow> bool) \<Rightarrow> ('b \<Rightarrow> (bytes \<times> bytes) set) \<Rightarrow> 'b ctl_config \<Rightarrow> bytes set \<Rightarrow> bytes set \<Rightarrow> 'b control \<Rightarrow> 'b control \<Rightarrow> bool" where
  "ok_step binv live cfg A S w w' \<longleftrightarrow> ctl_inv binv live cfg w' \<and> job_rows (cstore w') = job_rows (cstore w) \<and>
     (\<forall>x\<in>set (run_rows (cstore w)). rid x \<notin> A \<longrightarrow> x \<in> set (run_rows (cstore w'))) \<and>
     (\<forall>c j. (c, j) \<in> live (cbackend w') \<and> j \<notin> S \<longrightarrow> (c, j) \<in> live (cbackend w))"

lemma ok_step_refl: "ctl_inv binv live cfg w \<Longrightarrow> ok_step binv live cfg A S w w"
  by (simp add: ok_step_def)

lemma ok_step_trans:
  "ok_step binv live cfg A S w w1 \<Longrightarrow> ok_step binv live cfg B T w1 w2 \<Longrightarrow> ok_step binv live cfg (A \<union> B) (S \<union> T) w w2"
  by (auto simp: ok_step_def)

lemma ok_step_mono: "ok_step binv live cfg A S w w' \<Longrightarrow> A \<subseteq> B \<Longrightarrow> S \<subseteq> T \<Longrightarrow> ok_step binv live cfg B T w w'"
  unfolding ok_step_def by blast

lemma map_rows_inv:
  assumes "ctl_inv binv live cfg w" "readings w \<le> readings w'" "id_calls w' = id_calls w" "cbackend w' = cbackend w"
    "sql_outcomes (cstore w') = []" "run_rows (cstore w') = map f (run_rows (cstore w))"
    "\<And>x. x \<in> set (run_rows (cstore w)) \<Longrightarrow> rid (f x) = rid x \<and> rjob (f x) = rjob x \<and> rr_started (f x) = rr_started x \<and>
       Attempt (rr_run (f x)) = Attempt (rr_run x) \<and> (rr_stopped x \<noteq> None \<longrightarrow> rr_stopped (f x) \<noteq> None) \<and>
       (rr_stopped x = None \<and> (ContainerID (rr_run x), rjob x) \<in> live (cbackend w) \<longrightarrow>
          ContainerID (rr_run (f x)) = ContainerID (rr_run x) \<and> rr_stopped (f x) = None)"
  shows "ctl_inv binv live cfg w'"
proof -
  let ?rows = "run_rows (cstore w)"
  note inv = assms(1) [unfolded ctl_inv_def]
  have rid: "map rid (map f ?rows) = map rid ?rows" and st: "rr_started ` set (map f ?rows) = rr_started ` set ?rows"
    using assms(7) by (auto simp: image_image intro!: image_cong)
  have "runs_ordered (map f ?rows)"
    using inv unfolding runs_ordered_def sorted_wrt_map
    by (elim conjE, elim sorted_wrt_mono_rel [rotated]) (use assms(7) in auto)
  moreover have "covered (live (cbackend w)) (map f ?rows)"
    using inv assms(7) unfolding covered_def by (metis (no_types, lifting) imageI list.set_map)
  moreover have "rr_started ` set (map f ?rows) \<subseteq> (\<lambda>n. rfc3339 (Now cfg n)) ` {..<readings w'}"
    using inv assms(2) unfolding st by (fastforce simp: image_subset_iff)
  moreover have "rid ` set (map f ?rows) = rid ` set ?rows" using rid by (metis list.set_map)
  moreover have "distinct (map rid (map f ?rows))" unfolding rid using inv by simp
  ultimately show ?thesis
    using inv assms(3,4,5,7) rid unfolding ctl_inv_def assms(6) by auto
qed

definition matches :: "Run \<Rightarrow> run_row \<Rightarrow> bool" where
  "matches run x \<longleftrightarrow> rid x = RunID run \<and> rjob x = RunJob run \<and> ContainerID (rr_run x) = ContainerID run \<and> Attempt (rr_run x) = Attempt run"

lemma matches_scan [simp]: "matches (scanRun x) x"
  by (simp add: matches_def scanRun_def)

lemma same_row: "ctl_inv binv live cfg w \<Longrightarrow> x \<in> set (run_rows (cstore w)) \<Longrightarrow> y \<in> set (run_rows (cstore w)) \<Longrightarrow> rid x = rid y \<Longrightarrow> x = y"
  by (auto simp: ctl_inv_def distinct_map inj_on_def)

lemma update_rows_ok:
  assumes "ctl_inv binv live cfg w" "x \<in> set (run_rows (cstore w))" "matches run x" "RunID run' = RunID run"
    "ContainerID run' = ContainerID run" "Attempt run' = Attempt run"
    "Stopped run' = None \<and> rr_stopped x = None \<or> Stopped run' \<noteq> None \<and> (ContainerID run, RunJob run) \<notin> live (cbackend w)"
    "readings w \<le> readings w'" "id_calls w' = id_calls w" "cbackend w' = cbackend w" "job_rows (cstore w') = job_rows (cstore w)"
    "sql_outcomes (cstore w') = []" "run_rows (cstore w') = map (update_row run') (run_rows (cstore w))"
  shows "ok_step binv live cfg {RunID run} {} w w'"
proof -
  have "ctl_inv binv live cfg w'"
  proof (rule map_rows_inv [OF assms(1,8,9,10,12,13)], goal_cases)
    case (1 y)
    then show ?case
      using assms(3-7) same_row [OF assms(1) assms(2) 1] by (auto simp: update_row_def matches_def nullTime_def)
  qed
  moreover have "\<forall>y\<in>set (run_rows (cstore w)). rid y \<notin> {RunID run} \<longrightarrow> y \<in> set (run_rows (cstore w'))"
    using assms(4) by (force simp: assms(13) update_row_def image_iff)
  ultimately show ?thesis using assms(10,11) by (simp add: ok_step_def)
qed

lemma finishRun_ok:
  assumes "ctl_inv binv live cfg w" "x \<in> set (run_rows (cstore w))" "matches run x" "(ContainerID run, RunJob run) \<notin> live (cbackend w)"
  shows "ok_step binv live cfg {RunID run} {} w (finishRun cfg run from to reason w)"
proof -
  have s: "sql_outcomes (cstore w) = []" using assms(1) by (simp add: ctl_inv_def)
  show ?thesis
    by (rule update_rows_ok [OF assms(1-3), of "run\<lparr> RunPhase := to, Stopped := Some (Now cfg (readings w)) \<rparr>"])
      (use s assms(4) in \<open>simp_all add: finishRun_def time_now_def UpdateRun_def Let_def transition_frame\<close>)
qed

text \<open>A job that is known, is to be stopped and has no running container.\<close>

definition settled :: "('b \<Rightarrow> (bytes \<times> bytes) set) \<Rightarrow> bytes \<Rightarrow> 'b control \<Rightarrow> bool" where
  "settled live j w \<longleftrightarrow> (\<exists>x\<in>set (job_rows (cstore w)). JobID (jr_job x) = j) \<and>
     (\<forall>x\<in>set (job_rows (cstore w)). JobID (jr_job x) = j \<longrightarrow> Desired (jr_job x) = DesiredStopped) \<and> (\<forall>c. (c, j) \<notin> live (cbackend w))"

lemma inv_frame:
  assumes "ctl_inv binv live cfg w" "run_rows (cstore w') = run_rows (cstore w)" "sql_outcomes (cstore w') = []" "cbackend w' = cbackend w" "later w w'"
  shows "ctl_inv binv live cfg w'"
  using assms by (fastforce simp: ctl_inv_def later_def image_subset_iff)

lemma ok_settled:
  "ok_step binv live cfg A S w w' \<Longrightarrow> settled live j w \<Longrightarrow> j \<notin> S \<Longrightarrow> settled live j w'"
  unfolding ok_step_def settled_def by (elim conjE) (intro conjI allI, simp_all, blast)

lemma set_desired_frame:
  assumes "sql_outcomes (cstore w) = []" "set_desired cfg jid d w = (w', r)"
  shows "run_rows (cstore w') = run_rows (cstore w)" "sql_outcomes (cstore w') = []" "cbackend w' = cbackend w" "later w w'"
    "map (\<lambda>x. JobID (jr_job x)) (job_rows (cstore w')) = map (\<lambda>x. JobID (jr_job x)) (job_rows (cstore w))"
    "\<forall>x\<in>set (job_rows (cstore w')). if JobID (jr_job x) = jid then Desired (jr_job x) = d else x \<in> set (job_rows (cstore w))"
proof -
  define g where "g x = (if JobID (jr_job x) = jid then x\<lparr> jr_job := (jr_job x)\<lparr> Desired := d \<rparr>, jr_updated := rfc3339 (Now cfg (readings w)) \<rparr> else x)" for x :: job_row
  have "fst (set_desired cfg jid d w) = w\<lparr> readings := Suc (readings w), cstore := (cstore w)\<lparr> job_rows := map g (job_rows (cstore w)) \<rparr> \<rparr>"
    using assms(1) by (simp add: set_desired_def time_now_def SetDesired_def Let_def g_def [abs_def])
  then have w': "w' = w\<lparr> readings := Suc (readings w), cstore := (cstore w)\<lparr> job_rows := map g (job_rows (cstore w)) \<rparr> \<rparr>"
    using assms(2) by simp
  show "run_rows (cstore w') = run_rows (cstore w)" "sql_outcomes (cstore w') = []" "cbackend w' = cbackend w" "later w w'"
    "map (\<lambda>x. JobID (jr_job x)) (job_rows (cstore w')) = map (\<lambda>x. JobID (jr_job x)) (job_rows (cstore w))"
    "\<forall>x\<in>set (job_rows (cstore w')). if JobID (jr_job x) = jid then Desired (jr_job x) = d else x \<in> set (job_rows (cstore w))"
    by (simp_all add: w' assms(1) later_def g_def) auto
qed

text \<open>The jobs a pass may restart: those whose desired state is running.\<close>

definition wanted :: "SQLite \<Rightarrow> bytes set" where
  "wanted s = {j. \<exists>x\<in>set (job_rows s). JobID (jr_job x) = j \<and> Desired (jr_job x) = DesiredRunning}"

context container_backend
begin

abbreviation ok :: "'b ctl_config \<Rightarrow> bytes set \<Rightarrow> bytes set \<Rightarrow> 'b control \<Rightarrow> 'b control \<Rightarrow> bool" where
  "ok \<equiv> ok_step binv live"

lemma shrink_ok:
  assumes "ctl_inv binv live cfg w" "binv b" "live b \<subseteq> live (cbackend w)"
  shows "ok cfg A S w (w\<lparr> cbackend := b \<rparr>)"
  using assms covered_mono [OF _ assms(3)] by (auto simp: ok_step_def ctl_inv_def)

lemma stop_run_ok:
  assumes "backend cfg = be" "ctl_inv binv live cfg w" "x \<in> set (run_rows (cstore w))" "matches run x"
  shows "ok cfg {RunID run} {} w (stop_run cfg run reason w)" "(ContainerID run, j) \<notin> live (cbackend (stop_run cfg run reason w))"
proof -
  obtain b r where b: "Stop_Container be (ContainerID run) (stopTimeout cfg) (cbackend w) = (b, r)" by fastforce
  have l: "binv b" "live b = {x \<in> live (cbackend w). fst x \<noteq> ContainerID run}"
    using stop_ok [OF _ b] assms(2) by (auto simp: ctl_inv_def)
  have o1: "ok cfg {RunID run} {} w (w\<lparr> cbackend := b \<rparr>)" using shrink_ok [OF assms(2) l(1)] l(2) by blast
  have o2: "ok cfg {RunID run} {} (w\<lparr> cbackend := b \<rparr>) (finishRun cfg run Running Cancelled reason (w\<lparr> cbackend := b \<rparr>))"
    by (rule finishRun_ok [of _ _ _ _ x]) (use o1 assms(3,4) l in \<open>auto simp: ok_step_def\<close>)
  show "ok cfg {RunID run} {} w (stop_run cfg run reason w)"
    using ok_step_trans [OF o1 o2] by (simp add: stop_run_def assms(1) b)
  show "(ContainerID run, j) \<notin> live (cbackend (stop_run cfg run reason w))"
    using l by (auto simp: stop_run_def assms(1) b finishRun_def time_now_def Let_def transition_frame split: prod.splits)
qed

text \<open>Adding the row of a new run.\<close>

lemma add_run_ok:
  assumes "ctl_inv binv live cfg w" "\<forall>x\<in>set (run_rows (cstore w)). rjob x = RunJob run \<longrightarrow> rr_stopped x \<noteq> None"
    "RunID run = NewID cfg (id_calls w)" "id_calls w' = Suc (id_calls w)" "Started run = Now cfg (readings w)" "readings w < readings w'"
    "sane cfg w'" "1 \<le> Attempt run" "Attempt run \<le> max 1 (MaxAttempts (restart cfg))"
    "binv b" "cbackend w' = b" "live b \<subseteq> insert (ContainerID run, RunJob run) (live (cbackend w))"
    "(ContainerID run, RunJob run) \<in> live b \<longrightarrow> Stopped run = None \<or> (ContainerID run, RunJob run) \<in> live (cbackend w)"
    "job_rows (cstore w') = job_rows (cstore w)" "sql_outcomes (cstore w') = []"
    "run_rows (cstore w') = run_rows (cstore w) @ [\<lparr> rr_run = run, rr_started = rfc3339 (Started run), rr_stopped = nullTime (Stopped run) \<rparr>]"
  shows "ok cfg {} {RunJob run} w w'"
proof -
  let ?rows = "run_rows (cstore w)" and ?y = "\<lparr> rr_run = run, rr_started = rfc3339 (Started run), rr_stopped = nullTime (Stopped run) \<rparr>"
  note inv = assms(1) [unfolded ctl_inv_def]
  have fresh: "NewID cfg (id_calls w) \<notin> NewID cfg ` {..<id_calls w}"
    using assms(4,7) by (fastforce simp: sane_def inj_on_def)
  have early: "rr_started x < rfc3339 (Started run)" if "x \<in> set ?rows" for x
  proof -
    have "rr_started x \<in> (\<lambda>n. rfc3339 (Now cfg n)) ` {..<readings w}" using inv that by blast
    then obtain n where "n < readings w" "rr_started x = rfc3339 (Now cfg n)" by auto
    then show ?thesis using assms(5,6,7) by (auto simp: sane_def)
  qed
  have "runs_ordered (?rows @ [?y])"
    using inv early assms(2) by (auto simp: runs_ordered_def sorted_wrt_append)
  moreover have "covered (live b) (?rows @ [?y])"
    using inv assms(12,13) by (auto simp: covered_def nullTime_def)
  moreover have "rr_started ` set (?rows @ [?y]) \<subseteq> (\<lambda>n. rfc3339 (Now cfg n)) ` {..<readings w'}"
    using inv assms(5,6) by (fastforce simp: image_subset_iff)
  moreover have "rid ` set (?rows @ [?y]) \<subseteq> NewID cfg ` {..<id_calls w'}" "distinct (map rid (?rows @ [?y]))"
    using inv assms(3,4) fresh by (auto simp: lessThan_Suc)
  ultimately have "ctl_inv binv live cfg w'"
    using inv assms(8-11,15) unfolding ctl_inv_def assms(16) by auto
  then show ?thesis using assms(11,12,14,16) by (auto simp: ok_step_def)
qed

lemma run_ids_fresh:
  assumes "ctl_inv binv live cfg w" "inj_on (NewID cfg) {..<Suc (id_calls w)}"
  shows "NewID cfg (id_calls w) \<notin> rid ` set (run_rows (cstore w))"
  using assms by (fastforce simp: ctl_inv_def inj_on_def)


lemma all_stopped:
  assumes "ctl_inv binv live cfg w" "snd (LatestRun ord jid (cstore w)) = Inr prev" "prev = None \<or> (\<exists>r. prev = Some r \<and> Stopped r \<noteq> None)"
    "x \<in> set (run_rows (cstore w))" "rjob x = jid"
  shows "rr_stopped x \<noteq> None"
proof -
  let ?xs = "filter (\<lambda>x. rjob x = jid) (run_rows (cstore w))"
  have o: "runs_ordered (run_rows (cstore w))" and l: "prev = Some (scanRun (last ?xs))"
    using assms LatestRun_last [of "cstore w" ord jid] by (auto simp: ctl_inv_def filter_empty_conv split: list.splits)
  then have "rr_stopped (last ?xs) \<noteq> None" using assms(3) by (auto simp: scanRun_def)
  moreover have "x = last ?xs" if "rr_stopped x = None"
  proof (rule ccontr)
    assume ne: "x \<noteq> last ?xs"
    have x: "x \<in> set ?xs" using assms(4,5) by simp
    then have "?xs = butlast ?xs @ [last ?xs]" by (metis append_butlast_last_id empty_iff empty_set)
    moreover have "x \<in> set (butlast ?xs)" using x ne by (rule in_butlast)
    moreover have "sorted_wrt (\<lambda>a b. rjob a = rjob b \<longrightarrow> rr_started a < rr_started b \<and> rr_stopped a \<noteq> None) ?xs"
      using o unfolding runs_ordered_def by (rule sorted_wrt_filter)
    ultimately have "rjob x = rjob (last ?xs) \<longrightarrow> rr_stopped x \<noteq> None"
      by (metis (mono_tags, lifting) list.set_intros(1) sorted_wrt_append)
    moreover have "rjob (last ?xs) = jid" using x last_in_set [of ?xs] by fastforce
    ultimately show False using that assms(5) by simp
  qed
  ultimately show ?thesis by auto
qed

lemma launch_keeps:
  assumes "backend cfg = be" "ctl_inv binv live cfg w" "1 \<le> attempt" "attempt \<le> max 1 (MaxAttempts (restart cfg))"
    "launch cfg job attempt restore w = (w', r)" "sane cfg w'"
  shows "ok cfg {} {JobID job} w w'"
proof -
  have s: "sql_outcomes (cstore w) = []" using assms(2) by (simp add: ctl_inv_def)
  obtain prev where lr: "LatestRun (row_order cfg) (JobID job) (cstore w) = (cstore w, Inr prev)"
    using LatestRun_last [OF s] assms(2) by (auto simp: ctl_inv_def)
  define u where "u = w\<lparr> readings := Suc (readings w), id_calls := Suc (id_calls w) \<rparr>"
  obtain b l where b: "Launch be (launch_spec cfg job restore u) (cbackend w) = (b, l)" by fastforce
  have jid: "SpecJobID (launch_spec cfg job restore u) = JobID job"
    by (simp add: launch_spec_def Let_def split: prod.split)
  show ?thesis
  proof (cases "case prev of Some r \<Rightarrow> Stopped r = None | None \<Rightarrow> False")
    case True
    then have "w' = w" using assms(5) lr by (simp add: launch_def)
    then show ?thesis using assms(2) by (simp add: ok_step_refl)
  next
    case False
    then have stopped: "\<forall>x\<in>set (run_rows (cstore w)). rjob x = JobID job \<longrightarrow> rr_stopped x \<noteq> None"
      using all_stopped [OF assms(2), of "row_order cfg" "JobID job" prev] lr by (auto split: option.splits)
    let ?run = "\<lparr> RunID = NewID cfg (id_calls w), RunJob = JobID job, ContainerID = [], HostPort = 0, RunPhase = Starting, Attempt = attempt,
                       RunError = [], Started = Now cfg (readings w), Stopped = None \<rparr>"
    have w': "(case l of Inl err \<Rightarrow> launch_failed cfg job ?run (Now cfg (readings w)) err (u\<lparr> cbackend := b \<rparr>)
        | Inr cid \<Rightarrow> launch_started cfg job ?run cid (u\<lparr> cbackend := b \<rparr>)) = (w', r)"
      using assms(5) lr b False unfolding u_def by (simp add: launch_def time_now_def new_id_def Let_def assms(1))
    have fresh: "NewID cfg (id_calls w) \<notin> rid ` set (run_rows (cstore w))" if "id_calls w' = Suc (id_calls w)"
      using run_ids_fresh [OF assms(2)] assms(6) that by (simp add: sane_def)
    show ?thesis
    proof (cases l)
      case (Inl err)
      have k: "binv b" "live b = live (cbackend w)" using launch_error [OF _ b [unfolded Inl]] assms(2) by (auto simp: ctl_inv_def)
      have id: "id_calls w' = Suc (id_calls w)"
        using w' by (auto simp: Inl launch_failed_def u_def transition_frame split: prod.splits)
      have e: "w' = transition cfg (JobID job) (RunID ?run) Starting Failed err
          (u\<lparr> cbackend := b, cstore := fst (CreateRun (?run\<lparr> RunPhase := Failed, RunError := err, Stopped := Some (Now cfg (readings w)) \<rparr>) (cstore w)) \<rparr>)"
        using w' by (simp add: Inl launch_failed_def u_def split: prod.splits)
      have "ok cfg {} {RunJob (?run\<lparr> RunPhase := Failed, RunError := err, Stopped := Some (Now cfg (readings w)) \<rparr>)} w w'"
        by (rule add_run_ok [OF assms(2)])
          (use stopped assms(3,4,6) k s fresh [OF id] in \<open>auto simp: e u_def transition_frame CreateRun_def\<close>)
      then show ?thesis by simp
    next
      case (Inr cid)
      have k: "binv b" "live b = insert (cid, JobID job) (live (cbackend w))"
        using launch_ok [OF _ b [unfolded Inr]] assms(2) jid by (auto simp: ctl_inv_def)
      obtain b2 st where st: "Status_Container be cid b = (b2, st)" by fastforce
      have k2: "binv b2" "live b2 = insert (cid, JobID job) (live (cbackend w))" using status_ok [OF k(1) st] k(2) by auto
      define run where "run = ?run\<lparr> ContainerID := cid, RunPhase := Running, HostPort := (case st of Inr st \<Rightarrow> SHostPort st | Inl _ \<Rightarrow> HostPort ?run) \<rparr>"
      obtain s2 cr where c: "CreateRun run (cstore w) = (s2, cr)" by fastforce
      have e0: "w' = (case cr of Inl _ \<Rightarrow> u\<lparr> cbackend := b2, cstore := s2 \<rparr>
         | Inr _ \<Rightarrow> transition cfg (JobID job) (RunID run) Submitted Running ''launched'' (u\<lparr> cbackend := b2, cstore := s2 \<rparr>))"
        using w' c unfolding u_def run_def by (cases cr) (auto simp: Inr launch_started_def assms(1) st)
      have id: "id_calls w' = Suc (id_calls w)"
        using e0 by (auto simp: u_def transition_frame split: sum.splits)
      have e: "w' = transition cfg (JobID job) (RunID run) Submitted Running ''launched'' (u\<lparr> cbackend := b2, cstore := fst (CreateRun run (cstore w)) \<rparr>)"
        using e0 c fresh [OF id] s by (auto simp: CreateRun_def run_def split: if_splits)
      have "ok cfg {} {RunJob run} w w'"
        by (rule add_run_ok [OF assms(2)])
          (use stopped assms(3,4,6) k2 s fresh [OF id] in \<open>auto simp: e u_def run_def transition_frame CreateRun_def\<close>)
      then show ?thesis by (simp add: run_def)
    qed
  qed
qed


lemma maybeRestart_ok:
  assumes "backend cfg = be" "ctl_inv binv live cfg w" "1 \<le> Attempt run" "sane cfg (maybeRestart cfg bo job run w)"
  shows "ok cfg {} {j. j = JobID job \<and> Desired job = DesiredRunning} w (maybeRestart cfg bo job run w)"
proof (cases "maybeRestart cfg bo job run w = w")
  case True
  then show ?thesis using assms(2) by (simp add: ok_step_refl)
next
  case False
  then have d: "Desired job = DesiredRunning" "ShouldRestart (restart cfg) Failed (Attempt run)"
    and m: "maybeRestart cfg bo job run w = fst (launch cfg job (Attempt run + 1) [] w)"
    by (auto simp: maybeRestart_def split: if_splits)
  have "ok cfg {} {JobID job} w (fst (launch cfg job (Attempt run + 1) [] w))"
    by (rule launch_keeps [OF assms(1,2) _ _ prod.collapse [symmetric]]) (use assms(3,4) d(2) m in \<open>auto simp: ShouldRestart_def split: if_splits\<close>)
  then show ?thesis using d(1) m by (simp add: ok_step_def)
qed

lemma finish_then_restart_ok:
  assumes "backend cfg = be" "ctl_inv binv live cfg w" "x \<in> set (run_rows (cstore w))" "matches run x"
    "(ContainerID run, RunJob run) \<notin> live (cbackend w)" "sane cfg (maybeRestart cfg bo job run (finishRun cfg run from to reason w))"
  shows "ok cfg {RunID run} {j. j = JobID job \<and> Desired job = DesiredRunning} w (maybeRestart cfg bo job run (finishRun cfg run from to reason w))"
proof -
  have o1: "ok cfg {RunID run} {} w (finishRun cfg run from to reason w)" by (rule finishRun_ok [OF assms(2-5)])
  have "1 \<le> Attempt run" using assms(2-4) by (auto simp: ctl_inv_def matches_def)
  then have "ok cfg {} {j. j = JobID job \<and> Desired job = DesiredRunning} (finishRun cfg run from to reason w)
      (maybeRestart cfg bo job run (finishRun cfg run from to reason w))"
    using o1 assms(1,6) by (intro maybeRestart_ok) (auto simp: ok_step_def)
  from ok_step_trans [OF o1 this] show ?thesis by simp
qed

lemma reconcileRun_ok:
  assumes "backend cfg = be" "ctl_inv binv live cfg w" "x \<in> set (run_rows (cstore w))" "matches run x" "rr_stopped x = None" "Stopped run = None"
    "SPhase st = PhaseRunning \<longleftrightarrow> (\<exists>j. (ContainerID run, j) \<in> live (cbackend w))" "sane cfg (reconcileRun cfg bo job run st w)"
  shows "ok cfg {RunID run} {j. j = JobID job \<and> Desired job = DesiredRunning} w (reconcileRun cfg bo job run st w)"
proof -
  let ?S = "{j. j = JobID job \<and> Desired job = DesiredRunning}"
  have s: "sql_outcomes (cstore w) = []" using assms(2) by (simp add: ctl_inv_def)
  show ?thesis
  proof (cases "SPhase st")
    case PhaseRunning
    let ?run = "run\<lparr> RunPhase := Running, HostPort := (if SHostPort st \<noteq> 0 then SHostPort st else HostPort run) \<rparr>"
    have "ok cfg {RunID run} {} w (w\<lparr> cstore := fst (UpdateRun ?run (cstore w)) \<rparr>)"
      by (rule update_rows_ok [OF assms(2-4), of ?run]) (use s assms(5,6) in \<open>simp_all add: UpdateRun_def\<close>)
    then show ?thesis
      using stop_run_ok(1) [OF assms(1-4)] ok_step_refl [OF assms(2)] PhaseRunning
      by (auto simp: reconcileRun_def Let_def split: prod.splits intro: ok_step_mono)
  next
    case PhaseExited
    then have nl: "(ContainerID run, RunJob run) \<notin> live (cbackend w)" using assms(7) by auto
    note fin = ok_step_mono [OF finishRun_ok [OF assms(2-4) nl] subset_refl empty_subsetI]
    have "sane cfg (maybeRestart cfg bo job run (finishRun cfg run Running Failed ''nonzero exit'' w))" if "Desired job \<noteq> DesiredStopped" "ExitCode st \<noteq> 0"
      using assms(8) that PhaseExited by (simp add: reconcileRun_def handleExit_def)
    then show ?thesis
      using PhaseExited fin finish_then_restart_ok [OF assms(1-4) nl]
      by (simp add: reconcileRun_def handleExit_def phase_names)
  next
    case PhaseGone
    then have nl: "(ContainerID run, RunJob run) \<notin> live (cbackend w)" using assms(7) by auto
    note fin = ok_step_mono [OF finishRun_ok [OF assms(2-4) nl] subset_refl empty_subsetI]
    have "sane cfg (maybeRestart cfg bo job run (finishRun cfg run Running Failed ''container gone'' w))" if "Desired job \<noteq> DesiredStopped"
      using assms(8) that PhaseGone by (simp add: reconcileRun_def)
    then show ?thesis
      using PhaseGone fin finish_then_restart_ok [OF assms(1-4) nl] by (simp add: reconcileRun_def)
  qed
qed

lemma reconcile_one_ok:
  assumes "backend cfg = be" "ctl_inv binv live cfg w" "x \<in> set (run_rows (cstore w))" "matches run x" "rr_stopped x = None" "Stopped run = None"
    "sane cfg (reconcile_one cfg bo run w)"
  shows "ok cfg {RunID run} (wanted (cstore w)) w (reconcile_one cfg bo run w)"
proof -
  have s: "sql_outcomes (cstore w) = []" using assms(2) by (simp add: ctl_inv_def)
  obtain j where j: "GetJob (RunJob run) (cstore w) = (cstore w, j)"
    using s by (cases "filter (\<lambda>r. JobID (jr_job r) = RunJob run) (job_rows (cstore w))") (auto simp: GetJob_def)
  obtain b st where b: "Status_Container be (ContainerID run) (cbackend w) = (b, st)" by fastforce
  have k: "binv b" "live b = live (cbackend w)" "\<forall>x. st = Inr x \<longrightarrow> (SPhase x = PhaseRunning \<longleftrightarrow> (\<exists>j. (ContainerID run, j) \<in> live (cbackend w)))"
    using status_ok [OF _ b] assms(2) by (auto simp: ctl_inv_def)
  have o1: "ok cfg A S w (w\<lparr> cbackend := b \<rparr>)" for A S using shrink_ok [OF assms(2) k(1)] k(2) by simp
  show ?thesis
  proof (cases j)
    case (Inl e)
    then show ?thesis using ok_step_refl [OF assms(2)] by (simp add: reconcile_one_def j)
  next
    case (Inr job)
    have job: "{j. j = JobID job \<and> Desired job = DesiredRunning} \<subseteq> wanted (cstore w)"
      using j s unfolding Inr by (auto simp: GetJob_def wanted_def scanJob_def split: list.splits dest!: filter_eq_ConsD)
    show ?thesis
    proof (cases st)
      case (Inl e)
      then show ?thesis using o1 by (simp add: reconcile_one_def j Inr assms(1) b)
    next
      case (Inr st')
      have e: "reconcile_one cfg bo run w = reconcileRun cfg bo job run st' (w\<lparr> cbackend := b \<rparr>)"
        by (simp add: reconcile_one_def j \<open>j = Inr job\<close> assms(1) b Inr)
      have "ok cfg {RunID run} {j. j = JobID job \<and> Desired job = DesiredRunning} (w\<lparr> cbackend := b \<rparr>) (reconcile_one cfg bo run w)"
        unfolding e by (rule reconcileRun_ok [OF assms(1) _ _ assms(4-6)])
          (use o1 [of "{}" "{}"] assms(3,7) k(2,3) Inr e in \<open>auto simp: ok_step_def\<close>)
      from ok_step_mono [OF ok_step_trans [OF o1 [of "{}" "{}"] this] _ _] show ?thesis using job by simp
    qed
  qed
qed

lemma reconcile_fold_ok:
  assumes "backend cfg = be" "ctl_inv binv live cfg w" "distinct (map RunID runs)"
    "\<forall>run\<in>set runs. Stopped run = None \<and> (\<exists>x\<in>set (run_rows (cstore w)). matches run x \<and> rr_stopped x = None)"
    "sane cfg (fold (reconcile_one cfg bo) runs w)"
  shows "ok cfg (RunID ` set runs) (wanted (cstore w)) w (fold (reconcile_one cfg bo) runs w)"
  using assms
proof (induction runs arbitrary: w)
  case Nil
  then show ?case by (simp add: ok_step_refl)
next
  case (Cons run runs)
  let ?w = "reconcile_one cfg bo run w"
  have sane: "sane cfg ?w" using Cons.prems(5) by (rule sane_later) simp
  obtain x where x: "x \<in> set (run_rows (cstore w))" "matches run x" "rr_stopped x = None" using Cons.prems(4) by auto
  have o1: "ok cfg {RunID run} (wanted (cstore w)) w ?w"
    by (rule reconcile_one_ok [OF Cons.prems(1,2) x(1,2,3) _ sane]) (use Cons.prems(4) in simp)
  have "ok cfg (RunID ` set runs) (wanted (cstore ?w)) ?w (fold (reconcile_one cfg bo) runs ?w)"
  proof (rule Cons.IH [OF Cons.prems(1)])
    show "\<forall>run\<in>set runs. Stopped run = None \<and> (\<exists>x\<in>set (run_rows (cstore ?w)). matches run x \<and> rr_stopped x = None)"
      using Cons.prems(3,4) o1 by (fastforce simp: ok_step_def matches_def)
  qed (use o1 Cons.prems in \<open>auto simp: ok_step_def\<close>)
  moreover have "wanted (cstore ?w) = wanted (cstore w)" using o1 by (simp add: ok_step_def wanted_def)
  ultimately show ?case using ok_step_trans [OF o1] by fastforce
qed


lemma submit_job_ok:
  assumes "backend cfg = be" "ctl_inv binv live cfg w" "submit_job cfg job env reason w = (w', r)" "sane cfg w'"
  shows "ctl_inv binv live cfg w'" "settled live j w \<Longrightarrow> settled live j w'"
proof -
  have s: "sql_outcomes (cstore w) = []" using assms(2) by (simp add: ctl_inv_def)
  show "ctl_inv binv live cfg w'" "settled live j w \<Longrightarrow> settled live j w'"
  proof (atomize (full), cases "JobID job \<in> (\<lambda>r. JobID (jr_job r)) ` set (job_rows (cstore w))")
    case True
    then have "w' = w" using assms(3) s by (simp add: submit_job_def CreateJob_def)
    then show "ctl_inv binv live cfg w' \<and> (settled live j w \<longrightarrow> settled live j w')" using assms(2) by simp
  next
    case False
    define u where "u = transition cfg (JobID job) [] [] Submitted reason (setSecrets (JobID job) env (w\<lparr> cstore := fst (CreateJob job (cstore w)) \<rparr>))"
    have w': "w' = fst (launch cfg job 1 [] u)"
      using assms(3) s False by (auto simp: submit_job_def CreateJob_def u_def Let_def split: prod.splits sum.splits)
    have u: "ctl_inv binv live cfg u" "settled live j w \<longrightarrow> settled live j u \<and> j \<noteq> JobID job"
    proof -
      show "ctl_inv binv live cfg u"
        by (rule inv_frame [OF assms(2)]) (use s False in \<open>auto simp: u_def transition_frame setSecrets_def CreateJob_def later_def\<close>)
      show "settled live j w \<longrightarrow> settled live j u \<and> j \<noteq> JobID job"
        using s False by (force simp: u_def settled_def transition_frame setSecrets_def CreateJob_def image_iff)
    qed
    have o: "ok cfg {} {JobID job} u w'"
      unfolding w' by (rule launch_keeps [OF assms(1) u(1) _ _ prod.collapse [symmetric]]) (use assms(4) w' in auto)
    have "settled live j w \<longrightarrow> settled live j w'" using ok_settled [OF o] u(2) by blast
    then show "ctl_inv binv live cfg w' \<and> (settled live j w \<longrightarrow> settled live j w')"
      using o by (simp add: ok_step_def)
  qed
qed

lemma submit_ok:
  assumes "backend cfg = be" "ctl_inv binv live cfg w" "Submit cfg doc env w = (w', r)" "sane cfg w'"
  shows "ctl_inv binv live cfg w' \<and> (settled live j w \<longrightarrow> settled live j w')"
proof -
  let ?u = "w\<lparr> readings := Suc (readings w), id_calls := Suc (id_calls w) \<rparr>"
  have "w' = w \<or> (\<exists>job reason. submit_job cfg job env reason ?u = (w', r))"
    using assms(3) by (auto simp: Submit_def submitSDK_def time_now_def new_id_def Let_def split: option.splits sum.splits if_splits)
  moreover have "ctl_inv binv live cfg ?u" by (rule inv_frame [OF assms(2)]) (use assms(2) in \<open>simp_all add: ctl_inv_def later_def\<close>)
  moreover have "settled live j w \<longrightarrow> settled live j ?u" by (simp add: settled_def)
  ultimately show ?thesis using submit_job_ok [OF assms(1) _ _ assms(4)] assms(2) by blast
qed

lemma LatestRun_row:
  assumes "ctl_inv binv live cfg w" "LatestRun ord jid (cstore w) = (s, Inr (Some run))"
  shows "\<exists>x\<in>set (run_rows (cstore w)). run = scanRun x \<and> rjob x = jid"
proof -
  let ?xs = "filter (\<lambda>x. rjob x = jid) (run_rows (cstore w))"
  have "?xs \<noteq> []" "run = scanRun (last ?xs)"
    using assms LatestRun_last [of "cstore w" ord jid] by (auto simp: ctl_inv_def split: list.splits)
  then show ?thesis using last_in_set [of ?xs] by auto
qed

text \<open>Stopping the latest run leaves no running container of its job.\<close>

lemma stop_latest_ok:
  assumes "backend cfg = be" "ctl_inv binv live cfg w" "LatestRun ord jid (cstore w) = (s, Inr latest)"
    "w' = (case latest of Some run \<Rightarrow> if Stopped run = None then stop_run cfg run reason w else w | None \<Rightarrow> w)"
  shows "ctl_inv binv live cfg w'" "job_rows (cstore w') = job_rows (cstore w)" "later w w'"
    "(c, j) \<in> live (cbackend w') \<Longrightarrow> (c, j) \<in> live (cbackend w)" "(c, jid) \<notin> live (cbackend w')"
proof -
  have "ctl_inv binv live cfg w' \<and> job_rows (cstore w') = job_rows (cstore w) \<and> later w w' \<and>
      (\<forall>c j. (c, j) \<in> live (cbackend w') \<longrightarrow> (c, j) \<in> live (cbackend w)) \<and> (\<forall>c. (c, jid) \<notin> live (cbackend w'))"
  proof (cases "\<exists>run. latest = Some run \<and> Stopped run = None")
    case False
    then have "w' = w" using assms(4) by (auto split: option.splits)
    moreover have "(c, jid) \<notin> live (cbackend w)" for c
    proof
      assume "(c, jid) \<in> live (cbackend w)"
      then obtain x where x: "x \<in> set (run_rows (cstore w))" "rjob x = jid" "rr_stopped x = None"
        using assms(2) unfolding ctl_inv_def covered_def by blast
      have "latest = None \<or> (\<exists>r. latest = Some r \<and> Stopped r \<noteq> None)" using False by (cases latest) auto
      then show False using all_stopped [OF assms(2), of ord jid latest x] assms(3) x by simp
    qed
    ultimately show ?thesis using assms(2) by simp
  next
    case True
    then obtain run where run: "latest = Some run" "Stopped run = None" by auto
    obtain x where x: "x \<in> set (run_rows (cstore w))" "run = scanRun x" "rjob x = jid"
      using LatestRun_row [OF assms(2) assms(3) [unfolded run(1)]] by auto
    have w': "w' = stop_run cfg run reason w" using assms(4) run by simp
    have m: "matches run x" "rr_stopped x = None" using x(2) run(2) by (auto simp: scanRun_def matches_def)
    note o = stop_run_ok [OF assms(1,2) x(1) m(1), where reason = reason, folded w']
    have "(c, jid) \<notin> live (cbackend w')" for c
    proof
      assume l: "(c, jid) \<in> live (cbackend w')"
      then have "(c, jid) \<in> live (cbackend w)" using o(1) by (auto simp: ok_step_def)
      then obtain y where y: "y \<in> set (run_rows (cstore w))" "ContainerID (rr_run y) = c" "rjob y = jid" "rr_stopped y = None"
        using assms(2) unfolding ctl_inv_def covered_def by blast
      have "y = x" using one_unstopped [OF _ y(1) x(1)] assms(2) y x(3) m(2) by (simp add: ctl_inv_def)
      then show False using o(2) [of jid] l y(2) m(1) by (simp add: matches_def)
    qed
    then show ?thesis using o(1) by (auto simp: ok_step_def w')
  qed
  then show "ctl_inv binv live cfg w'" "job_rows (cstore w') = job_rows (cstore w)" "later w w'"
    "(c, j) \<in> live (cbackend w') \<Longrightarrow> (c, j) \<in> live (cbackend w)" "(c, jid) \<notin> live (cbackend w')" by auto
qed


lemma GetJob_plain:
  "sql_outcomes s = [] \<Longrightarrow> \<exists>j. GetJob jid s = (s, j) \<and> (j = Inl ENoRows \<or> (\<exists>x\<in>set (job_rows s). JobID (jr_job x) = jid \<and> j = Inr (scanJob x)))"
  by (cases "filter (\<lambda>r. JobID (jr_job r) = jid) (job_rows s)") (auto simp: GetJob_def dest!: filter_eq_ConsD)

lemma settled_desired:
  assumes "sql_outcomes (cstore w) = []" "set_desired cfg jid d w = (w', r)" "settled live j w" "j = jid \<longrightarrow> d = DesiredStopped"
  shows "settled live j w'"
proof -
  note f = set_desired_frame [OF assms(1,2)]
  have "(\<lambda>x. JobID (jr_job x)) ` set (job_rows (cstore w')) = (\<lambda>x. JobID (jr_job x)) ` set (job_rows (cstore w))"
    using f(5) by (metis list.set_map)
  then have "\<exists>x\<in>set (job_rows (cstore w')). JobID (jr_job x) = j"
    using assms(3) unfolding settled_def by (metis (no_types, lifting) image_iff)
  then show ?thesis using f(3,6) assms(3,4) by (auto simp: settled_def split: if_splits)
qed

lemma cancel_ok:
  assumes "backend cfg = be" "ctl_inv binv live cfg w" "Cancel_Job cfg jid w = (w', r)"
  shows "ctl_inv binv live cfg w'" "settled live j w \<Longrightarrow> settled live j w'" "r = Inr () \<Longrightarrow> settled live jid w'"
proof -
  have s: "sql_outcomes (cstore w) = []" using assms(2) by (simp add: ctl_inv_def)
  obtain jo where jo: "GetJob jid (cstore w) = (cstore w, jo)" "jo = Inl ENoRows \<or> (\<exists>x\<in>set (job_rows (cstore w)). JobID (jr_job x) = jid \<and> jo = Inr (scanJob x))"
    using GetJob_plain [OF s] by blast
  have "ctl_inv binv live cfg w' \<and> (settled live j w \<longrightarrow> settled live j w') \<and> (r = Inr () \<longrightarrow> settled live jid w')"
  proof (cases jo)
    case (Inl e)
    then show ?thesis using assms(2,3) jo(1) by (auto simp: Cancel_Job_def)
  next
    case (Inr job)
    then obtain x where x: "x \<in> set (job_rows (cstore w))" "JobID (jr_job x) = jid" using jo(2) by auto
    obtain u d where u: "set_desired cfg jid DesiredStopped w = (u, d)" by fastforce
    note f = set_desired_frame [OF s u]
    have iu: "ctl_inv binv live cfg u" by (rule inv_frame [OF assms(2) f(1-4)])
    have d: "d = Inr ()"
      using u s x by (auto simp: set_desired_def time_now_def SetDesired_def Let_def list_ex_iff split: if_splits)
    obtain latest where l: "LatestRun (row_order cfg) jid (cstore u) = (cstore u, Inr latest)"
      using LatestRun_last [of "cstore u"] iu by (auto simp: ctl_inv_def)
    have w': "w' = (case latest of Some run \<Rightarrow> if Stopped run = None then stop_run cfg run ''user cancel'' u else u | None \<Rightarrow> u)" "r = Inr ()"
      using assms(3) jo(1) Inr u d l by (auto simp: Cancel_Job_def split: option.splits if_splits)
    note st = stop_latest_ok [OF assms(1) iu l w'(1)]
    have "x \<in> set (job_rows (cstore w)) \<Longrightarrow> \<exists>y\<in>set (job_rows (cstore u)). JobID (jr_job y) = JobID (jr_job x)" for x
      using f(5) by (metis (no_types, lifting) image_iff list.set_map)
    then have "settled live jid w'"
      using x f(6) st(2,5) by (auto simp: settled_def split: if_splits)
    moreover have "settled live j w'" if "settled live j w"
      using settled_desired [OF s u that] st(2,4) by (auto simp: settled_def)
    ultimately show ?thesis using st(1) by blast
  qed
  then show "ctl_inv binv live cfg w'" "settled live j w \<Longrightarrow> settled live j w'" "r = Inr () \<Longrightarrow> settled live jid w'" by auto
qed

lemma restart_ok:
  assumes "backend cfg = be" "ctl_inv binv live cfg w" "doRestart cfg jid label w = (w', r)" "sane cfg w'"
  shows "ctl_inv binv live cfg w'" "settled live j w \<Longrightarrow> j \<noteq> jid \<Longrightarrow> settled live j w'"
proof -
  have s: "sql_outcomes (cstore w) = []" using assms(2) by (simp add: ctl_inv_def)
  obtain jo where jo: "GetJob jid (cstore w) = (cstore w, jo)" "jo = Inl ENoRows \<or> (\<exists>x\<in>set (job_rows (cstore w)). JobID (jr_job x) = jid \<and> jo = Inr (scanJob x))"
    using GetJob_plain [OF s] by blast
  have "ctl_inv binv live cfg w' \<and> (settled live j w \<and> j \<noteq> jid \<longrightarrow> settled live j w')"
  proof (cases jo)
    case (Inl e)
    then show ?thesis using assms(2,3) jo(1) by (auto simp: doRestart_def)
  next
    case (Inr job)
    then have job: "JobID job = jid" using jo(2) by (auto simp: scanJob_def)
    obtain latest where l: "LatestRun (row_order cfg) jid (cstore w) = (cstore w, Inr latest)"
      using LatestRun_last [of "cstore w"] assms(2) by (auto simp: ctl_inv_def)
    define u where "u = (case latest of Some run \<Rightarrow> if Stopped run = None then stop_run cfg run ''restart'' w else w | None \<Rightarrow> w)"
    note st = stop_latest_ok [OF assms(1,2) l u_def]
    obtain v d where v: "set_desired cfg jid DesiredRunning u = (v, d)" by fastforce
    have su: "sql_outcomes (cstore u) = []" using st(1) by (simp add: ctl_inv_def)
    note f = set_desired_frame [OF su v]
    have iv: "ctl_inv binv live cfg v" by (rule inv_frame [OF st(1) f(1-4)])
    have sv: "settled live j v" if "settled live j w" "j \<noteq> jid"
    proof -
      have "settled live j u" unfolding settled_def st(2) using that(1) st(4) unfolding settled_def by blast
      then show ?thesis using settled_desired [OF su v] that(2) by simp
    qed
    obtain z q where z: "launch cfg job 1 label v = (z, q)" by fastforce
    have w': "w' = (case d of Inl _ \<Rightarrow> v | Inr _ \<Rightarrow> z)"
      using assms(3) jo(1) Inr l v z by (auto simp: doRestart_def u_def Let_def split: option.splits sum.splits cong: if_cong)
    show ?thesis
    proof (cases d)
      case (Inl e)
      then show ?thesis using iv sv w' by simp
    next
      case (Inr q)
      then have o: "ok cfg {} {JobID job} v w'" using launch_keeps [OF assms(1) iv _ _ z] assms(4) w' by simp
      have "ctl_inv binv live cfg w'" using o by (simp add: ok_step_def)
      then show ?thesis using sv ok_settled [OF o, of j] job by auto
    qed
  qed
  then show "ctl_inv binv live cfg w'" "settled live j w \<Longrightarrow> j \<noteq> jid \<Longrightarrow> settled live j w'" by auto
qed


lemma savepoint_ok:
  assumes "backend cfg = be" "ctl_inv binv live cfg w" "Savepoint cfg jid label w = (w', r)"
  shows "ctl_inv binv live cfg w'" "settled live j w \<Longrightarrow> settled live j w'"
proof -
  have s: "sql_outcomes (cstore w) = []" using assms(2) by (simp add: ctl_inv_def)
  obtain u a where u: "ControlAddress cfg jid w = (u, a)" by fastforce
  obtain latest where l: "LatestRun (row_order cfg) jid (cstore w) = (cstore w, Inr latest)"
    using LatestRun_last [of "cstore w"] assms(2) by (auto simp: ctl_inv_def)
  have ou: "ok cfg {} {} w u"
  proof (cases "u = w")
    case True
    then show ?thesis using assms(2) by (simp add: ok_step_refl)
  next
    case False
    then obtain c b q where b: "u = w\<lparr> cbackend := b \<rparr>" "Status_Container be c (cbackend w) = (b, q)"
      using u l assms(1) by (auto simp: ControlAddress_def Let_def split: option.splits if_splits prod.splits sum.splits)
    then show ?thesis using shrink_ok [OF assms(2)] status_ok [OF _ b(2)] assms(2) by (auto simp: ctl_inv_def)
  qed
  have su: "sql_outcomes (cstore u) = []" using ou by (simp add: ok_step_def ctl_inv_def)
  obtain v d where v: "set_desired cfg jid DesiredStopped u = (v, d)" by fastforce
  note f = set_desired_frame [OF su v]
  have iv: "ctl_inv binv live cfg v" by (rule inv_frame [OF _ f(1-4)]) (use ou in \<open>simp add: ok_step_def\<close>)
  let ?t = "transition cfg jid [] Running Cancelling (''savepoint: '' @ label) v"
  have it: "ctl_inv binv live cfg ?t"
    by (rule inv_frame [OF iv]) (use iv in \<open>simp_all add: transition_frame ctl_inv_def\<close>)
  have "w' = w \<or> w' = u \<or> w' = v \<or> w' = ?t"
    using assms(3) u v by (auto simp: Savepoint_def Let_def split: if_splits sum.splits option.splits)
  moreover have "settled live j u" "settled live j v" "settled live j ?t" if "settled live j w"
  proof -
    show u: "settled live j u" using ok_settled [OF ou that] by simp
    show "settled live j v" by (rule settled_desired [OF su v u]) simp
    then show "settled live j ?t" by (simp add: settled_def transition_frame)
  qed
  moreover have "ctl_inv binv live cfg u" using ou by (simp add: ok_step_def)
  ultimately show "ctl_inv binv live cfg w'" "settled live j w \<Longrightarrow> settled live j w'"
    using assms(2) iv it by auto
qed

lemma reconcile_ok:
  assumes "backend cfg = be" "ctl_inv binv live cfg w" "Reconcile cfg bo w = (w', r)" "sane cfg w'"
  shows "ok cfg UNIV (wanted (cstore w)) w w'"
proof -
  have s: "sql_outcomes (cstore w) = []" using assms(2) by (simp add: ctl_inv_def)
  let ?rows = "visit (row_order cfg) (filter (\<lambda>r. rr_stopped r = None) (run_rows (cstore w)))"
  have w': "w' = fold (reconcile_one cfg bo) (map scanRun ?rows) w"
    using assms(3) s by (simp add: Reconcile_def ActiveRuns_def)
  have ids: "map RunID (map scanRun rs) = map rid rs" for rs by (simp add: scanRun_def)
  have "distinct (map rid ?rows)"
    using assms(2) by (simp add: ctl_inv_def distinct_map_filter)
  then have "ok cfg (RunID ` set (map scanRun ?rows)) (wanted (cstore w)) w w'"
    unfolding w' by (intro reconcile_fold_ok [OF assms(1,2)])
      (use assms(4) w' in \<open>auto simp only: ids\<close>, auto simp: scanRun_def matches_def)
  then show ?thesis by (rule ok_step_mono) auto
qed

lemma step_ok:
  assumes "backend cfg = be" "control_step binv live cfg op w w'" "ctl_inv binv live cfg w" "sane cfg w'"
  shows "ctl_inv binv live cfg w' \<and> (settled live j w \<and> (\<forall>label. op \<noteq> ORestart j label) \<longrightarrow> settled live j w')"
  using assms(2)
proof cases
  case (submit doc env r)
  then show ?thesis using submit_ok [OF assms(1,3) submit(2) assms(4)] by blast
next
  case (cancel jid r)
  then show ?thesis using cancel_ok [OF assms(1,3) cancel(2)] by blast
next
  case (restart jid label r)
  then show ?thesis using restart_ok [OF assms(1,3) restart(2) assms(4)] by blast
next
  case (savepoint jid label r)
  then show ?thesis using savepoint_ok [OF assms(1,3) savepoint(2)] by blast
next
  case (reconcile bo r)
  note o = reconcile_ok [OF assms(1,3) reconcile(2) assms(4)]
  have "j \<notin> wanted (cstore w)" if "settled live j w"
    using that by (auto simp: settled_def wanted_def store_names)
  then show ?thesis using o ok_settled [OF o] by (auto simp: ok_step_def)
next
  case (exits b)
  then have o: "ok cfg {} {} w w'" using shrink_ok [OF assms(3)] by blast
  then have "ctl_inv binv live cfg w'" by (simp add: ok_step_def)
  then show ?thesis using ok_settled [OF o, of j] by simp
next
  case crash
  then show ?thesis using assms(3) by (auto simp: ctl_inv_def settled_def)
qed

end

subsection \<open>Histories keep the invariant\<close>

lemma history_later: "history binv live cfg w ops w' \<Longrightarrow> later w w'"
  by (induction rule: history.induct) (auto intro: later_trans step_later)

lemma start_inv: "binv b \<Longrightarrow> live b = {} \<Longrightarrow> ctl_inv binv live cfg (new_control (OpenSQLite []) b)"
  by (simp add: ctl_inv_def new_control_def OpenSQLite_def runs_ordered_def covered_def)

lemma history_ok:
  assumes "container_backend (backend cfg) binv live known" "history binv live cfg w ops w'" "ctl_inv binv live cfg w" "sane cfg w'"
  shows "ctl_inv binv live cfg w' \<and> (settled live j w \<and> (\<forall>label. ORestart j label \<notin> set ops) \<longrightarrow> settled live j w')"
  using assms(2,4)
proof (induction rule: history.induct)
  case none
  then show ?case using assms(3) by simp
next
  case (more ops w1 op w2)
  have "sane cfg w1" using sane_later [OF more.prems step_later [OF more.hyps(2)]] .
  then have "ctl_inv binv live cfg w1 \<and> (settled live j w \<and> (\<forall>label. ORestart j label \<notin> set ops) \<longrightarrow> settled live j w1)" by (rule more.IH)
  then show ?case
    using container_backend.step_ok [OF assms(1) refl more.hyps(2) _ more.prems, of j] by auto
qed

end
