(* ===== verification/Job_Control_Proofs.thy ===== *)
theory Job_Control_Proofs
  imports Job_Control_Inv
begin

text \<open>
  What the invariant of \<open>Job_Control_Inv\<close> gives: a job has at most one running container, a cancelled
  job stays stopped and automatic restarts are bounded; and what breaks when the store sorts the start
  times of runs as text.
\<close>

subsection \<open>A concrete control plane\<close>

definition demo_ctl :: "Fake ctl_config" where
  "demo_ctl = New_Controller
     \<lparr> backend = fake_backend, image = ''runner'', port = 0, restart = \<lparr> MaxAttempts = 0, BaseBackoff = 0, MaxBackoff = 0 \<rparr>, stopTimeout = 0,
       NewID = nat_text, Now = (\<lambda>n. 111111111 + int n), row_order = in_order, validate = (\<lambda>_ _. Inr (''n'', ''d'', ''g'')),
       unmarshal_manifest = (\<lambda>_. None), ParseQuantity = (\<lambda>_. True), post_savepoint = (\<lambda>_ _. None) \<rparr>"

lemma demo_ctl_simps [simp]:
  "backend demo_ctl = fake_backend" "NewID demo_ctl = nat_text" "Now demo_ctl n = 111111111 + int n" "row_order demo_ctl = in_order"
  "validate demo_ctl doc env = Inr (''n'', ''d'', ''g'')" "unmarshal_manifest demo_ctl doc = None"
  by (simp_all add: demo_ctl_def New_Controller_def)

definition demo_start :: "Fake control" where
  "demo_start = new_control (OpenSQLite []) NewFake"

definition demo_running :: "Fake control" where
  "demo_running = fst (Submit demo_ctl ''doc'' [] demo_start)"

lemma demo_clock:
  assumes "m < n" "n < 8"
  shows "rfc3339 (Now demo_ctl m) < rfc3339 (Now demo_ctl n)"
proof -
  have f: "format_frac (111111111 + int k) = ''.11111111'' @ [digit (1 + int k)]" if "k < 8" for k
  proof -
    from that consider "k = 0" | "k = 1" | "k = 2" | "k = 3" | "k = 4" | "k = 5" | "k = 6" | "k = 7" by linarith
    then show ?thesis by cases (simp_all add: frac_simps)
  qed
  have "digit (1 + int m) < digit (1 + int n)" using assms by (simp add: digit_def less_char_def)
  then have "rfc3339 (0 * 1000000000 + (111111111 + int m)) < rfc3339 (0 * 1000000000 + (111111111 + int n))"
    using assms by (intro less_same_second) (simp_all add: f)
  then show ?thesis by simp
qed

lemma demo_ids: "inj_on (NewID demo_ctl) A"
  by (simp add: inj_on_def)

lemma digit_texts: "nat_text 0 = ''0''" "nat_text 1 = ''1''" "nat_text (Suc 0) = ''1''"
  by (subst nat_text.simps, simp)+

lemma spec_job [simp]: "SpecJobID (launch_spec cfg job restore w) = JobID job"
  by (simp add: launch_spec_def Let_def split: prod.split)

lemmas run_control = Submit_def parseSDKManifest_def time_now_def new_id_def submit_job_def CreateJob_def new_control_def OpenSQLite_def
  setSecrets_def launch_def LatestRun_def order_desc_def transition_def AppendTransition_def exec_def launch_started_def fake_backend_def
  Launch_Fake_def NewFake_def Status_Fake_def CreateRun_def Let_def nullTime_def

lemma demo_running:
  "readings demo_running = 4" "id_calls demo_running = 2" "fake_live (cbackend demo_running) = {(fake_id ''0'' 1, ''0'')}"
  "\<exists>x. run_rows (cstore demo_running) = [x] \<and> Attempt (rr_run x) = 1"
  by (simp_all add: demo_running_def demo_start_def run_control digit_texts) (auto simp: fake_live_def new_container_def)

lemma demo_history: "history fake_inv fake_live demo_ctl (new_control (OpenSQLite []) NewFake) ([] @ [OSubmit ''doc'' []]) demo_running"
  unfolding demo_running_def demo_start_def by (rule history.more [OF history.none control_step.submit [OF prod.collapse [symmetric]]])

lemma demo_clock_upto: "r \<le> 8 \<Longrightarrow> \<forall>m n. m < n \<and> n < r \<longrightarrow> rfc3339 (Now demo_ctl m) < rfc3339 (Now demo_ctl n)"
  using demo_clock by auto

subsection \<open>Properties\<close>




definition demo_cancelled :: "Fake control" where
  "demo_cancelled = fst (Cancel_Job demo_ctl ''0'' demo_running)"

lemma demo_cancelled:
  "readings demo_cancelled = 7" "id_calls demo_cancelled = 2" "snd (Cancel_Job demo_ctl ''0'' demo_running) = Inr ()"
  by (simp_all add: demo_cancelled_def Cancel_Job_def GetJob_def set_desired_def SetDesired_def stop_run_def finishRun_def UpdateRun_def
      Stop_Fake_def scanRun_def demo_running_def demo_start_def run_control digit_texts)





text \<open>
  C37. The fencing against a second live run depends on the text form of the start times. Two runs of a
  job started in the same second, the first at 100 ms and stopped, the second at 120 ms and still
  running: the store takes the text of the first for the later one, and a launch of the job starts a
  second container beside the running one.
\<close>

theorem start_text_order_breaks_fencing:
  assumes "container_backend (backend cfg) binv live known" "binv (cbackend w)" "sql_outcomes (cstore w) = []"
    and "filter (\<lambda>x. RunJob (rr_run x) = JobID job) (run_rows (cstore w)) = [x1, x2]"
    and "rr_started x1 = rfc3339 (q * 1000000000 + 100000000)" "rr_started x2 = rfc3339 (q * 1000000000 + 120000000)"
    and "rr_stopped x1 \<noteq> None" "rr_stopped x2 = None" "(ContainerID (rr_run x2), JobID job) \<in> live (cbackend w)"
    and "ContainerID (rr_run x2) \<in> known (cbackend w)"
    and "Launch (backend cfg) (launch_spec cfg job restore (w\<lparr> readings := Suc (readings w), id_calls := Suc (id_calls w) \<rparr>)) (cbackend w) = (b, Inr d)"
  shows "d \<noteq> ContainerID (rr_run x2) \<and>
    {(ContainerID (rr_run x2), JobID job), (d, JobID job)} \<subseteq> live (cbackend (fst (launch cfg job attempt restore w)))"
proof -
  let ?u = "w\<lparr> readings := Suc (readings w), id_calls := Suc (id_calls w) \<rparr>"
  obtain rest where "order_desc (row_order cfg) rr_started [x1, x2] = x1 # rest"
    using order_desc_head [of x1 "[x1, x2]" rr_started "row_order cfg"] text_order_reversed [of q] assms(5,6) by auto
  then have lr: "LatestRun (row_order cfg) (JobID job) (cstore w) = (cstore w, Inr (Some (scanRun x1)))"
    using assms(3,4) by (simp add: LatestRun_def)
  obtain t where t: "Stopped (scanRun x1) = Some t" using assms(7) by (auto simp: scanRun_def)
  have b: "binv b" "d \<notin> known (cbackend w)" "live b = insert (d, JobID job) (live (cbackend w))"
    using container_backend.launch_ok [OF assms(1,2,11)] by simp_all
  have "cbackend (fst (launch cfg job attempt restore w)) = fst (Status_Container (backend cfg) d b)"
    using lr t assms(11)
    by (simp add: launch_def time_now_def new_id_def launch_started_def Let_def transition_frame split: prod.split sum.split)
  moreover have "live (fst (Status_Container (backend cfg) d b)) = live b"
    using container_backend.status_ok [OF assms(1) b(1) prod.collapse [symmetric]] by blast
  ultimately show ?thesis using assms(9,10) b(2,3) by auto
qed

definition demo_row :: "bytes \<Rightarrow> bytes \<Rightarrow> gotime \<Rightarrow> gotime option \<Rightarrow> run_row" where
  "demo_row i cid start stop =
     \<lparr> rr_run = \<lparr> RunID = i, RunJob = ''0'', ContainerID = cid, HostPort = 0, RunPhase = Running, Attempt = 1, RunError = [],
         Started = start, Stopped = stop \<rparr>, rr_started = rfc3339 start, rr_stopped = nullTime stop \<rparr>"

definition demo_job :: Job where
  "demo_job = \<lparr> JobID = ''0'', JobName = ''n'', Kind = KindYAML, Spec = ''doc'', Image = [], Delivery = ''d'', Graph = ''g'',
     Desired = DesiredRunning, Created = 0, Updated = 0 \<rparr>"

definition same_second :: "Fake control" where
  "same_second = demo_running\<lparr> cstore := (cstore demo_running)\<lparr> run_rows :=
     [demo_row ''a'' ''gone'' 100000000 (Some 110000000), demo_row ''b'' (fake_id ''0'' 1) 120000000 None] \<rparr> \<rparr>"

theorem start_text_order_breaks_fencing_witness:
  "{(fake_id ''0'' 1, ''0''), (fake_id ''0'' 2, ''0'')} \<subseteq> fake_live (cbackend (fst (launch demo_ctl demo_job 1 [] same_second)))"
proof -
  have w: "sql_outcomes (cstore same_second) = []" "fake_inv (cbackend same_second)" "cbackend same_second = cbackend demo_running"
    "fake_id ''0'' 1 \<in> fake_known (cbackend demo_running)" "fseq (cbackend demo_running) = 1" "LaunchErr (cbackend demo_running) = None"
    by (simp_all add: same_second_def demo_running_def demo_start_def run_control digit_texts) (auto simp: fake_inv_def fake_known_def)
  let ?u = "same_second\<lparr> readings := Suc (readings same_second), id_calls := Suc (id_calls same_second) \<rparr>"
  obtain b where b: "Launch (backend demo_ctl) (launch_spec demo_ctl demo_job [] ?u) (cbackend same_second) = (b, Inr (fake_id ''0'' 2))"
    using w(3,5,6) by (simp add: fake_backend_def Launch_Fake_def demo_job_def numeral_2_eq_2 Let_def)
  have "fake_id ''0'' 2 \<noteq> fake_id ''0'' 1 \<and>
      {(fake_id ''0'' 1, ''0''), (fake_id ''0'' 2, ''0'')} \<subseteq> fake_live (cbackend (fst (launch demo_ctl demo_job 1 [] same_second)))"
    using start_text_order_breaks_fencing [where cfg = demo_ctl and binv = fake_inv and live = fake_live and known = fake_known and w = same_second
        and job = demo_job and q = 0 and attempt = 1 and restore = "[]" and b = b and d = "fake_id ''0'' 2"
        and ?x1.0 = "demo_row ''a'' ''gone'' 100000000 (Some 110000000)" and ?x2.0 = "demo_row ''b'' (fake_id ''0'' 1) 120000000 None"] b
      fake.container_backend_axioms w demo_running(3)
    by (simp add: demo_row_def demo_job_def nullTime_def same_second_def)
  then show ?thesis by blast
qed

end
