(* ===== verification/Go_Json.thy ===== *)
theory Go_Json
  imports Stream_Record Go_Text
begin

text \<open>
  The text of the offset maps that sources and the engine exchange: \<open>json.Marshal\<close> of a
  \<open>map[string]int64\<close> whose keys are decimal numbers, \<open>json.Unmarshal\<close> back into that type, and
  \<open>fmt.Sscanf\<close> with the verb \<open>%d\<close>. The reader follows the grammar of JSON with white space, string
  escapes and \<open>null\<close>; a value that is no integer of 64 bits makes \<open>Unmarshal\<close> return an error, as does a
  malformed text, so the two are not told apart.
\<close>

subsection \<open>Writing an offset map\<close>

definition quoted :: "string \<Rightarrow> string" where
  "quoted s = CHR 0x22 # s @ [CHR 0x22]"

fun members_text :: "(string \<times> int) list \<Rightarrow> string" where
  "members_text [] = []"
| "members_text [(k, v)] = quoted k @ CHR '':'' # int_text v"
| "members_text ((k, v) # ms) = quoted k @ CHR '':'' # int_text v @ CHR '','' # members_text ms"

text \<open>The keys are converted with \<open>strconv.Itoa\<close>; the encoder writes them in sorted order.\<close>

definition marshal_offsets :: "(int, int) gomap \<Rightarrow> bytes" where
  "marshal_offsets m = CHR ''{'' # members_text (sort_key fst (map (\<lambda>(p, off). (int_text p, off)) m)) @ ''}''"

subsection \<open>Reading JSON text\<close>

definition is_ws :: "char \<Rightarrow> bool" where
  "is_ws c \<longleftrightarrow> c = CHR '' '' \<or> c = CHR 0x09 \<or> c = CHR 0x0A \<or> c = CHR 0x0D"

abbreviation skip_ws :: "string \<Rightarrow> string" where
  "skip_ws s \<equiv> dropWhile is_ws s"

definition hex_val :: "char \<Rightarrow> nat option" where
  "hex_val c = (let n = of_char c :: nat in
     if 48 \<le> n \<and> n \<le> 57 then Some (n - 48) else if 97 \<le> n \<and> n \<le> 102 then Some (n - 87)
     else if 65 \<le> n \<and> n \<le> 70 then Some (n - 55) else None)"

fun hex4 :: "string \<Rightarrow> (nat \<times> string) option" where
  "hex4 (a # b # c # d # s) =
     do { a' \<leftarrow> hex_val a; b' \<leftarrow> hex_val b; c' \<leftarrow> hex_val c; d' \<leftarrow> hex_val d;
          Some (((a' * 16 + b') * 16 + c') * 16 + d', s) }"
| "hex4 _ = None"

definition utf8_encode :: "nat \<Rightarrow> string" where
  "utf8_encode n = map char_of
     (if n < 128 then [n]
      else if n < 2048 then [192 + n div 64, 128 + n mod 64]
      else if n < 65536 then [224 + n div 4096, 128 + n div 64 mod 64, 128 + n mod 64]
      else [240 + n div 262144, 128 + n div 4096 mod 64, 128 + n div 64 mod 64, 128 + n mod 64])"

text \<open>
  The escape after a backslash: the bytes it stands for and the rest of the text. A surrogate that has no
  partner becomes U+FFFD.
\<close>

fun escape :: "string \<Rightarrow> (string \<times> string) option" where
  "escape [] = None"
| "escape (c # s) =
     (if c = CHR 0x22 \<or> c = CHR 0x5C \<or> c = CHR ''/'' then Some ([c], s)
      else if c = CHR ''b'' then Some ([CHR 0x08], s)
      else if c = CHR ''f'' then Some ([CHR 0x0C], s)
      else if c = CHR ''n'' then Some ([CHR 0x0A], s)
      else if c = CHR ''r'' then Some ([CHR 0x0D], s)
      else if c = CHR ''t'' then Some ([CHR 0x09], s)
      else if c = CHR ''u'' then
        (case hex4 s of None \<Rightarrow> None
         | Some (n, t) \<Rightarrow>
             if n < 55296 \<or> 57343 < n then Some (utf8_encode n, t)
             else (case t of
                 x # y # t' \<Rightarrow>
                   if n < 56320 \<and> x = CHR 0x5C \<and> y = CHR ''u'' then
                     (case hex4 t' of None \<Rightarrow> None
                      | Some (m, t'') \<Rightarrow>
                          if 56320 \<le> m \<and> m \<le> 57343
                          then Some (utf8_encode (65536 + (n - 55296) * 1024 + (m - 56320)), t'')
                          else Some (replacement_char, t))
                   else Some (replacement_char, t)
               | _ \<Rightarrow> Some (replacement_char, t)))
      else None)"

lemma hex4_length: "hex4 s = Some (n, t) \<Longrightarrow> length t < length s"
  by (induction s rule: hex4.induct) (auto split: bind_splits)

lemma escape_length: "escape s = Some (b, t) \<Longrightarrow> length t < length s"
proof (induction s rule: escape.induct)
  case (2 c s)
  then show ?case
    by (auto split: if_splits option.splits list.splits prod.splits dest!: hex4_length)
qed simp

text \<open>A string after its opening quote: its bytes and what follows the closing quote.\<close>

function json_string :: "string \<Rightarrow> (string \<times> string) option" where
  "json_string s =
     (case s of [] \<Rightarrow> None
      | c # t \<Rightarrow>
          if c = CHR 0x22 then Some ([], t)
          else if c = CHR 0x5C then
            (case escape t of None \<Rightarrow> None
             | Some (b, u) \<Rightarrow> map_option (\<lambda>(k, v). (b @ k, v)) (json_string u))
          else if of_char c < (32 :: nat) then None
          else if rune_len s = 0 then map_option (\<lambda>(k, v). (replacement_char @ k, v)) (json_string t)
          else map_option (\<lambda>(k, v). (take (rune_len s) s @ k, v)) (json_string (drop (rune_len s) s)))"
  by auto
termination
  by (relation "measure length") (auto dest: escape_length)

declare json_string.simps [simp del]

definition is_digit :: "char \<Rightarrow> bool" where
  "is_digit c \<longleftrightarrow> digit_val c \<noteq> None"

text \<open>An integer literal or \<open>null\<close>, which leaves the zero value.\<close>

definition json_int64 :: "string \<Rightarrow> (int \<times> string) option" where
  "json_int64 s =
     (if take 4 s = ''null'' then Some (0, drop 4 s)
      else (let neg = (take 1 s = ''-''); t = (if neg then drop 1 s else s);
                ds = takeWhile is_digit t; rest = dropWhile is_digit t
            in case parse_digits 0 ds of
                 None \<Rightarrow> None
               | Some v \<Rightarrow>
                   if ds = [] \<or> (take 1 ds = ''0'' \<and> length ds > 1) \<or> take 1 rest \<in> {''.'', ''e'', ''E''} then None
                   else (let i = (if neg then - v else v) in if in_i64 i then Some (i, rest) else None)))"

text \<open>The members after the opening brace or a comma; the fuel bounds their number by the length of the text.\<close>

fun json_members :: "nat \<Rightarrow> string \<Rightarrow> (string, int) gomap \<Rightarrow> (string, int) gomap option" where
  "json_members 0 s acc = None"
| "json_members (Suc n) s acc =
     (case skip_ws s of [] \<Rightarrow> None
      | c # t \<Rightarrow>
          if c \<noteq> CHR 0x22 then None
          else (case json_string t of None \<Rightarrow> None
            | Some (k, u) \<Rightarrow>
                (case skip_ws u of [] \<Rightarrow> None
                 | c' # u' \<Rightarrow>
                     if c' \<noteq> CHR '':'' then None
                     else (case json_int64 (skip_ws u') of None \<Rightarrow> None
                       | Some (v, w) \<Rightarrow>
                           (case skip_ws w of [] \<Rightarrow> None
                            | d # w' \<Rightarrow>
                                if d = CHR '','' then json_members n w' (map_put k v acc)
                                else if d = CHR ''}'' \<and> skip_ws w' = [] then Some (map_put k v acc)
                                else None)))))"

definition unmarshal_offsets :: "bytes \<Rightarrow> (bytes, int) gomap option" where
  "unmarshal_offsets s =
     (case skip_ws s of [] \<Rightarrow> None
      | c # t \<Rightarrow>
          if c = CHR ''{'' then
            (case skip_ws t of [] \<Rightarrow> None
             | d # u \<Rightarrow> if d = CHR ''}'' then (if skip_ws u = [] then Some [] else None)
                        else json_members (length s) t [])
          else if c # take 3 t = ''null'' \<and> skip_ws (drop 3 t) = [] then Some [] else None)"

subsection \<open>Scanning an integer\<close>

text \<open>The encodings of the runes that \<open>fmt\<close> skips as space; a newline is an error of \<open>Sscanf\<close>.\<close>

definition go_spaces :: "string list" where
  "go_spaces =
     [[CHR 0x09], [CHR 0x0B], [CHR 0x0C], [CHR 0x0D], [CHR '' ''], [CHR 0xC2, CHR 0x85], [CHR 0xC2, CHR 0xA0],
      [CHR 0xE1, CHR 0x9A, CHR 0x80]] @
     map (\<lambda>n. [CHR 0xE2, CHR 0x80, char_of n]) ([128 :: nat ..< 139] @ [168, 169, 175]) @
     [[CHR 0xE2, CHR 0x81, CHR 0x9F], [CHR 0xE3, CHR 0x80, CHR 0x80]]"

fun skip_space :: "string \<Rightarrow> string option" where
  "skip_space [] = Some []"
| "skip_space (c # s) =
     (if c = CHR 0x0A then None
      else if [c] \<in> set go_spaces then skip_space s
      else if take 2 (c # s) \<in> set go_spaces then skip_space (drop 1 s)
      else if take 3 (c # s) \<in> set go_spaces then skip_space (drop 2 s)
      else Some (c # s))"

declare skip_space.simps [simp del]

definition Sscanf_d :: "string \<Rightarrow> int option" where
  "Sscanf_d s =
     (case skip_space s of None \<Rightarrow> None
      | Some t \<Rightarrow>
          let neg = (take 1 t = ''-''); u = (if take 1 t \<in> {''-'', ''+''} then drop 1 t else t);
              ds = takeWhile is_digit u
          in case parse_digits 0 ds of
               None \<Rightarrow> None
             | Some v \<Rightarrow> (let i = (if neg then - v else v) in if ds \<noteq> [] \<and> in_i64 i then Some i else None))"

subsection \<open>What is written is read back\<close>

lemma is_digit_code: "is_digit c \<longleftrightarrow> 48 \<le> (of_char c :: nat) \<and> (of_char c :: nat) \<le> 57"
  by (auto simp: is_digit_def digit_val_def Let_def)

lemma nat_text_all: "list_all is_digit (nat_text n)"
  using nat_text_digits by (auto simp: list_all_iff is_digit_def)

lemma nat_text_Cons: "\<exists>c cs. nat_text n = c # cs \<and> is_digit c"
  using nat_text_all [of n] by (cases "nat_text n") auto

lemma nat_text_lead: "0 < n \<Longrightarrow> take 1 (nat_text n) \<noteq> ''0''"
proof (induction n rule: nat_text.induct)
  case (1 n)
  show ?case
  proof (cases "n < 10")
    case True
    have "digit (int n) \<noteq> CHR ''0''"
    proof
      assume "digit (int n) = CHR ''0''"
      then have "digit_val (digit (int n)) = digit_val (digit 0)" by simp
      then show False using True 1(2) by (subst (asm) (1 2) digit_val_digit) auto
    qed
    then show ?thesis using True by (subst nat_text.simps) simp
  next
    case False
    then have "take 1 (nat_text n) = take 1 (nat_text (n div 10))"
      using nat_text_Cons [of "n div 10"] by (subst nat_text.simps) auto
    then show ?thesis using 1(1) False by (simp add: div_greater_zero_iff)
  qed
qed

lemma digits_span:
  assumes "list_all is_digit ds" "s = [] \<or> \<not> is_digit (hd s)"
  shows "takeWhile is_digit (ds @ s) = ds" "dropWhile is_digit (ds @ s) = s"
proof -
  have d: "\<forall>c\<in>set ds. is_digit c" using assms(1) by (simp add: list_all_iff)
  show "takeWhile is_digit (ds @ s) = ds"
    using d assms(2) by (subst takeWhile_append2) (auto simp: takeWhile_eq_Nil_iff)
  show "dropWhile is_digit (ds @ s) = s"
    using d assms(2) by (subst dropWhile_append2) (auto simp: dropWhile_eq_self_iff)
qed

lemma first_char: "is_digit c \<Longrightarrow> c \<noteq> CHR ''-'' \<and> c \<noteq> CHR ''n'' \<and> c \<noteq> CHR ''+'' \<and> c \<noteq> CHR 0x22 \<and> c \<noteq> CHR 0x5C"
  by (auto simp: is_digit_code)

lemma nat_text_front: "take (Suc k) (nat_text n @ s) \<noteq> CHR ''-'' # t" "take (Suc k) (nat_text n @ s) \<noteq> CHR ''n'' # t"
    "take (Suc k) (nat_text n @ s) \<noteq> CHR ''+'' # t" "nat_text n \<noteq> CHR ''-'' # t"
  using nat_text_Cons [of n] by (auto dest: first_char)

lemma nat_text_leading: "\<not> (take 1 (nat_text n) = ''0'' \<and> length (nat_text n) > 1)"
proof (cases "n = 0")
  case True
  then show ?thesis by (simp add: nat_text.simps [of 0])
qed (use nat_text_lead [of n] in simp)

lemma int_text_cases:
  obtains n where "int_text v = CHR ''-'' # nat_text n" "v = - int n" | n where "int_text v = nat_text n" "v = int n"
  by (cases "v < 0") (auto simp: int_text_def intro: that [of "nat (- v)"] that(2) [of "nat v"])

lemma json_int64_text:
  assumes "in_i64 v" "s \<noteq> []" "\<not> is_digit (hd s)" "hd s \<notin> {CHR ''.'', CHR ''e'', CHR ''E''}"
  shows "json_int64 (int_text v @ s) = Some (v, s)"
proof -
  have e: "take 1 s \<notin> {''.'', ''e'', ''E''}" using assms(2,4) by (cases s) auto
  note sp = digits_span [OF nat_text_all disjI2 [OF assms(3)]]
  show ?thesis
  proof (cases rule: int_text_cases [of v])
    case (1 n)
    show ?thesis unfolding json_int64_def Let_def 1(1)
      using e nat_text_leading [of n] assms(1) 1(2) by (simp add: sp parse_nat_text)
  next
    case (2 n)
    have q: "take 4 (nat_text n @ s) \<noteq> ''null''" "take 1 (nat_text n @ s) \<noteq> ''-''"
      using nat_text_front(2) [where k = 3] nat_text_front(1) [where k = 0] by (simp_all add: numeral_eq_Suc)
    show ?thesis unfolding json_int64_def Let_def 2(1) if_not_P [OF q(1)] if_not_P [OF q(2)]
      using e nat_text_leading [of n] assms(1) 2(2) q(2) by (simp add: sp parse_nat_text)
  qed
qed

definition plain_char :: "char \<Rightarrow> bool" where
  "plain_char c \<longleftrightarrow> c \<noteq> CHR 0x22 \<and> c \<noteq> CHR 0x5C \<and> 32 \<le> (of_char c :: nat) \<and> (of_char c :: nat) < 128"

lemma json_string_plain: "list_all plain_char k \<Longrightarrow> json_string (k @ CHR 0x22 # s) = Some (k, s)"
proof (induction k)
  case Nil
  show ?case by (subst json_string.simps) simp
next
  case (Cons c k)
  then have "rune_len (c # k @ CHR 0x22 # s) = 1" by (intro rune_len_ascii) (simp add: plain_char_def)
  then show ?case using Cons by (subst json_string.simps) (simp add: plain_char_def)
qed

lemma int_text_plain: "list_all plain_char (int_text v)"
proof -
  have "list_all plain_char (nat_text n)" for n
    using nat_text_all [of n] by (auto simp: list_all_iff plain_char_def is_digit_code)
  then show ?thesis by (simp add: int_text_def plain_char_def)
qed

lemma members_text_Cons:
  "members_text ((k, v) # ms) = quoted k @ CHR '':'' # int_text v @ (if ms = [] then [] else CHR '','' # members_text ms)"
  by (cases ms) simp_all

lemma int_text_front: "\<exists>c cs. int_text v = c # cs \<and> \<not> is_ws c"
  using nat_text_Cons [of "nat v"] nat_text_Cons [of "nat (- v)"]
  by (auto simp: int_text_def is_ws_def is_digit_code)

lemma json_members_text:
  assumes "ms \<noteq> []" "length ms \<le> n" "\<forall>(k, v)\<in>set ms. list_all plain_char k \<and> in_i64 v"
  shows "json_members n (members_text ms @ ''}'') acc = Some (fold (\<lambda>(k, v) acc. map_put k v acc) ms acc)"
  using assms
proof (induction ms arbitrary: n acc)
  case (Cons e ms)
  obtain k v where e: "e = (k, v)" by force
  obtain m where n: "n = Suc m" "length ms \<le> m" using Cons.prems(2) by (cases n) auto
  let ?rest = "(if ms = [] then [] else CHR '','' # members_text ms) @ ''}''"
  have kv: "list_all plain_char k" "in_i64 v" using Cons.prems(3) e by auto
  obtain c cs where f: "int_text v = c # cs" "\<not> is_ws c" using int_text_front by blast
  have i: "json_int64 (int_text v @ ?rest) = Some (v, ?rest)"
    by (rule json_int64_text) (use kv in \<open>auto simp: is_digit_code\<close>)
  have sk: "skip_ws (int_text v @ ?rest) = int_text v @ ?rest" by (simp add: f)
  have s: "members_text (e # ms) @ ''}'' = CHR 0x22 # (k @ CHR 0x22 # CHR '':'' # int_text v @ ?rest)"
    unfolding e members_text_Cons quoted_def by simp
  show ?case
  proof (cases "ms = []")
    case True
    then show ?thesis using json_string_plain [OF kv(1)] i sk
      unfolding s n by (simp add: is_ws_def e)
  next
    case False
    have "json_members m (members_text ms @ ''}'') (map_put k v acc) = Some (fold (\<lambda>(k, v) acc. map_put k v acc) ms (map_put k v acc))"
      by (rule Cons.IH) (use False n Cons.prems(3) in auto)
    then show ?thesis using json_string_plain [OF kv(1)] i sk False
      unfolding s n by (simp add: is_ws_def e)
  qed
qed simp

lemma members_length: "length ms \<le> length (members_text ms)"
  by (induction ms rule: members_text.induct) (auto simp: quoted_def)

lemma int_text_inj: "int_text a = int_text b \<longleftrightarrow> a = b"
proof
  assume eq: "int_text a = int_text b"
  show "a = b"
    by (cases rule: int_text_cases [of a]; cases rule: int_text_cases [of b])
      (use eq nat_text_front(4) in \<open>auto dest: sym\<close>)
qed simp

lemma unmarshal_marshal:
  assumes "map_wf m" "\<forall>v\<in>snd ` set m. in_i64 v"
  obtains m' where "unmarshal_offsets (marshal_offsets m) = Some m'" "map_wf m'"
    "set m' = (\<lambda>(p, off). (int_text p, off)) ` set m"
proof -
  let ?ms = "sort_key fst (map (\<lambda>(p, off). (int_text p, off)) m)"
  have wf: "map_wf ?ms"
    using assms(1) by (auto simp: distinct_map inj_on_def int_text_inj case_prod_beta)
  have put: "fold (\<lambda>(k, v) acc. map_put k v acc) ?ms [] = ?ms"
    using fold_put_fresh [of "[]" ?ms] wf by simp
  show ?thesis
  proof (cases "m = []")
    case True
    then have "unmarshal_offsets (marshal_offsets m) = Some []"
      by (simp add: unmarshal_offsets_def marshal_offsets_def is_ws_def)
    then show ?thesis using that True by simp
  next
    case False
    then obtain e ms where e: "?ms = e # ms" by (cases ?ms) (auto dest: arg_cong [of _ _ length])
    have "\<forall>(k, v)\<in>set ?ms. list_all plain_char k \<and> in_i64 v" using assms(2) int_text_plain by auto
    then have "json_members (length (marshal_offsets m)) (members_text ?ms @ ''}'') [] = Some ?ms"
      using json_members_text [of ?ms "length (marshal_offsets m)" "[]"] members_length [of ?ms] put e
      by (simp add: marshal_offsets_def)
    moreover have "\<exists>s. members_text ?ms @ ''}'' = CHR 0x22 # s"
      unfolding e by (cases e) (simp add: members_text_Cons quoted_def)
    ultimately have "unmarshal_offsets (marshal_offsets m) = Some ?ms"
      unfolding unmarshal_offsets_def marshal_offsets_def
      by (elim exE) (simp del: json_members.simps add: is_ws_def)
    then show ?thesis using that wf by simp
  qed
qed

lemma skip_space_text:
  assumes "is_digit d \<or> d = CHR ''-''"
  shows "skip_space (d # s) = Some (d # s)"
proof -
  have "\<forall>t\<in>set go_spaces. t \<noteq> [] \<and> \<not> is_digit (hd t) \<and> hd t \<noteq> CHR ''-''"
    by (simp add: go_spaces_def is_digit_code)
  then have "\<forall>t\<in>set go_spaces. hd t \<noteq> d" using assms by auto
  then have "[d] \<notin> set go_spaces" "take 2 (d # s) \<notin> set go_spaces" "take 3 (d # s) \<notin> set go_spaces" by force+
  moreover have "d \<noteq> CHR 0x0A" using assms by (auto simp: is_digit_code)
  ultimately show ?thesis by (simp add: skip_space.simps)
qed

lemma Sscanf_int_text: "in_i64 p \<Longrightarrow> Sscanf_d (int_text p) = Some p"
proof -
  assume p: "in_i64 p"
  have sp: "takeWhile is_digit (nat_text n) = nat_text n" for n
    using digits_span(1) [OF nat_text_all [of n], of "[]"] by simp
  show ?thesis
  proof (cases rule: int_text_cases [of p])
    case (1 n)
    show ?thesis unfolding Sscanf_d_def 1(1) using p 1(2) by (simp add: skip_space_text Let_def sp parse_nat_text)
  next
    case (2 n)
    obtain c cs where n: "nat_text n = c # cs" "is_digit c" using nat_text_Cons by blast
    have k: "skip_space (nat_text n) = Some (nat_text n)" using n skip_space_text by simp
    have q: "take 1 (nat_text n) \<noteq> ''-''" "take 1 (nat_text n) \<noteq> ''+''"
      using n first_char [of c] by auto
    show ?thesis unfolding Sscanf_d_def 2(1) k option.case Let_def using p 2(2) q by (simp add: sp parse_nat_text)
  qed
qed

end
