(* ===== verification/Kafka_Source.thy ===== *)
theory Kafka_Source
  imports Go_Json Watermark_Source
begin

text \<open>
  The Kafka source (\<open>source/kafka.go\<close> and its parts): the configuration, the offset tracker, the delivery
  coordinator with its deserialization policy, fetching and committing with retries, the loop of the
  consumer-group mode, the loop of one partition reader and the partition manager that keeps the readers
  of the parallel mode aligned with the partitions of the topic. The client library is a parameter: a
  record of the calls the source makes on a \<open>kafka.Reader\<close>, whose state has the type \<open>'r\<close>.
  The outcomes of the checks of a context are a list, empty when it is never cancelled. Metrics, the
  dialer and the display properties are not modelled.
\<close>

subsection \<open>The client library\<close>

record kafka_message =
  mTopic :: bytes
  mPartition :: int
  mOffset :: int
  mKey :: bytes
  mValue :: bytes
  mHeaders :: "(bytes \<times> bytes) list"
  mTime :: gotime

record ReaderConfig =
  rc_GroupID :: bytes
  rc_Topic :: bytes
  rc_GroupTopics :: "bytes list"
  rc_Partition :: int
  rc_StartOffset :: int
  rc_ReadCommitted :: bool

record 'r kafka_api =
  NewReader :: "ReaderConfig \<Rightarrow> 'r"
  FetchMessage :: "'r \<Rightarrow> 'r \<times> (bytes + kafka_message)"
  CommitMessages :: "kafka_message list \<Rightarrow> 'r \<Rightarrow> 'r \<times> bytes option"
  SetOffset :: "int \<Rightarrow> 'r \<Rightarrow> 'r \<times> bytes option"

subsection \<open>Configuration\<close>

datatype CommitPolicy = CommitPolicySkip | CommitPolicyFail

datatype DeserFailurePolicy = DeserFailureDrop | DeserFailureDLQ | DeserFailureFail

definition OffsetEarliest :: int where "OffsetEarliest = -2"

definition OffsetLatest :: int where "OffsetLatest = -1"

text \<open>The constants of the client library have the same values, so every mode is passed on as it is.\<close>

definition FirstOffset :: int where "FirstOffset = -2"

definition LastOffset :: int where "LastOffset = -1"

definition toKafka :: "int \<Rightarrow> int" where
  "toKafka mode = (if mode = OffsetEarliest then FirstOffset else if mode = OffsetLatest then LastOffset else mode)"

type_synonym Deserializer = "bytes \<Rightarrow> (bytes, bytes) gomap \<Rightarrow> bytes + any"

record kafkaSourceConfig =
  brokers :: "bytes list"
  topic :: bytes
  topics :: "bytes list"
  groupID :: bytes
  minBytes :: int
  maxBytes :: int
  offsetMode :: int
  commitBatch :: int
  watermarkOutOfOrderness :: duration
  watermarkInterval :: duration
  deserializer :: "Deserializer option"
  deserFailPolicy :: DeserFailurePolicy
  deserDLQ :: bool
  fetchMaxRetries :: int
  commitMaxRetries :: int
  commitFailPolicy :: CommitPolicy
  parallel :: bool
  watchPartitions :: duration
  exactlyOnce :: bool

definition zeroKafkaConfig :: kafkaSourceConfig where
  "zeroKafkaConfig = \<lparr> brokers = [], topic = [], topics = [], groupID = [], minBytes = 0, maxBytes = 0,
     offsetMode = 0, commitBatch = 0, watermarkOutOfOrderness = 0, watermarkInterval = 0, deserializer = None,
     deserFailPolicy = DeserFailureDrop, deserDLQ = False, fetchMaxRetries = 0, commitMaxRetries = 0,
     commitFailPolicy = CommitPolicySkip, parallel = False, watchPartitions = 0, exactlyOnce = False \<rparr>"

definition applyDefaults :: "kafkaSourceConfig \<Rightarrow> kafkaSourceConfig" where
  "applyDefaults c = c\<lparr>
     minBytes := if minBytes c = 0 then 1 else minBytes c,
     maxBytes := if maxBytes c = 0 then 10 * 1024 * 1024 else maxBytes c,
     offsetMode := if offsetMode c = 0 then OffsetEarliest else offsetMode c,
     watermarkInterval := if watermarkInterval c = 0 then 500 * 1000000 else watermarkInterval c,
     fetchMaxRetries := if fetchMaxRetries c = 0 then 5 else fetchMaxRetries c,
     commitMaxRetries := if commitMaxRetries c = 0 then 3 else commitMaxRetries c \<rparr>"

subsection \<open>Offset tracking\<close>

record offsetTracker =
  consumed :: "(int, int) gomap"
  restored :: "(int, int) gomap"

definition newOffsetTracker :: offsetTracker where
  "newOffsetTracker = \<lparr> consumed = [], restored = [] \<rparr>"

definition track :: "kafka_message \<Rightarrow> offsetTracker \<Rightarrow> offsetTracker" where
  "track msg t = t\<lparr> consumed := map_put (mPartition msg) (i64 (mOffset msg + 1)) (consumed t) \<rparr>"

definition snapshot :: "offsetTracker \<Rightarrow> bytes" where
  "snapshot t = marshal_offsets (consumed t)"

definition restore_one :: "bytes \<times> int \<Rightarrow> offsetTracker \<Rightarrow> offsetTracker" where
  "restore_one e t =
     (let partInt = (case Sscanf_d (fst e) of Some n \<Rightarrow> n | None \<Rightarrow> 0)
      in t\<lparr> restored := map_put partInt (snd e) (restored t), consumed := map_put partInt (snd e) (consumed t) \<rparr>)"

definition restore :: "(bytes \<times> int) range_ord \<Rightarrow> bytes \<Rightarrow> offsetTracker \<Rightarrow> offsetTracker option" where
  "restore ord data t =
     (case unmarshal_offsets data of
        None \<Rightarrow> None
      | Some offsets \<Rightarrow> Some (fold restore_one (visit ord offsets) t))"

definition restoredOffset :: "int \<Rightarrow> offsetTracker \<Rightarrow> int option" where
  "restoredOffset part t = map_of (restored t) part"

subsection \<open>Delivery\<close>

definition KafkaToRecord :: "kafka_message \<Rightarrow> Record" where
  "KafkaToRecord msg = zeroRecord\<lparr> Key := mKey msg, Value := mValue msg, Timestamp := mTime msg,
     Offset := mOffset msg, Partition := mPartition msg,
     Headers := fold (\<lambda>(k, v) hs. map_put k v hs) (mHeaders msg) [] \<rparr>"

text \<open>The record to emit, if any, and the record handed to the dead-letter queue, if any.\<close>

definition toRecord :: "kafkaSourceConfig \<Rightarrow> kafka_message \<Rightarrow> Record option \<times> Record option" where
  "toRecord c msg =
     (let record = KafkaToRecord msg in
      case deserializer c of
        None \<Rightarrow> (Some record, None)
      | Some d \<Rightarrow>
          (case d (Value record) (Headers record) of
             Inl err \<Rightarrow>
               (None, if deserFailPolicy c = DeserFailureDLQ \<and> deserDLQ c
                      then Some (WithHeader ''_deser_error'' err record) else None)
           | Inr parsed \<Rightarrow> (Some (record\<lparr> Parsed := parsed \<rparr>), None)))"

subsection \<open>Fetching and committing\<close>

datatype source_error =
    ECtx
  | EFetch int bytes
  | ECommit int bytes
  | EOffsets

text \<open>One check of a context: the next outcome of the list, live when the list is used up.\<close>

definition check_ctx :: "bool list \<Rightarrow> bool \<times> bool list" where
  "check_ctx cs = (case cs of [] \<Rightarrow> (False, []) | b # cs' \<Rightarrow> (b, cs'))"

text \<open>\<open>time.Duration(1<<uint(attempt)) * time.Second\<close>: the shift and the product wrap at 64 bits.\<close>

definition doubled :: "nat \<Rightarrow> duration" where
  "doubled attempt = i64 (i64 (2 ^ attempt) * 1000000000)"

definition fetch_backoff :: "nat \<Rightarrow> duration" where
  "fetch_backoff attempt =
     (let backoff = doubled attempt in if backoff > 30 * 1000000000 then 30 * 1000000000 else backoff)"

text \<open>
  The loop of \<open>fetchWithRetry\<close>. The result carries the durations it waited for; a negative number of
  retries means no bound, and then the loop may not return.
\<close>

partial_function (option) fetch_loop ::
  "'r kafka_api \<Rightarrow> int \<Rightarrow> nat \<Rightarrow> bytes \<Rightarrow> bool list \<Rightarrow> 'r \<Rightarrow>
   ('r \<times> bool list \<times> duration list \<times> (source_error + kafka_message)) option" where
  "fetch_loop api maxAttempts attempt lastErr cs r =
     (if maxAttempts < 0 \<or> int attempt \<le> maxAttempts then
        (let (r', res) = FetchMessage api r in
         case res of
           Inr msg \<Rightarrow> Some (r', cs, [], Inr msg)
         | Inl err \<Rightarrow>
             (let (done1, cs1) = check_ctx cs in
              if done1 then Some (r', cs1, [], Inl ECtx)
              else if maxAttempts < 0 \<or> int attempt < maxAttempts then
                (let (done2, cs2) = check_ctx cs1 in
                 if done2 then Some (r', cs2, [], Inl ECtx)
                 else do { (r2, cs3, waits, res2) \<leftarrow> fetch_loop api maxAttempts (Suc attempt) err cs2 r';
                           Some (r2, cs3, fetch_backoff attempt # waits, res2) })
              else fetch_loop api maxAttempts (Suc attempt) err cs1 r'))
      else Some (r, cs, [], Inl (EFetch maxAttempts lastErr)))"

definition fetchWithRetry ::
  "'r kafka_api \<Rightarrow> kafkaSourceConfig \<Rightarrow> bool list \<Rightarrow> 'r \<Rightarrow>
   ('r \<times> bool list \<times> duration list \<times> (source_error + kafka_message)) option" where
  "fetchWithRetry api c cs r = fetch_loop api (fetchMaxRetries c) 0 [] cs r"

text \<open>The loop of \<open>commitWithRetry\<close>; \<open>None\<close> in the last component is the success of the commit.\<close>

function commit_loop ::
  "'r kafka_api \<Rightarrow> int \<Rightarrow> kafka_message list \<Rightarrow> nat \<Rightarrow> bytes \<Rightarrow> bool list \<Rightarrow> 'r \<Rightarrow>
   'r \<times> bool list \<times> (bytes + source_error) option" where
  "commit_loop api maxRetries msgs attempt lastErr cs r =
     (if int attempt \<le> maxRetries then
        (let (r', res) = CommitMessages api msgs r in
         case res of
           None \<Rightarrow> (r', cs, None)
         | Some err \<Rightarrow>
             (let (done1, cs1) = check_ctx cs in
              if done1 then (r', cs1, Some (Inr ECtx))
              else if int attempt < maxRetries then
                (let (done2, cs2) = check_ctx cs1 in
                 if done2 then (r', cs2, Some (Inr ECtx))
                 else commit_loop api maxRetries msgs (Suc attempt) err cs2 r')
              else commit_loop api maxRetries msgs (Suc attempt) err cs1 r'))
      else (r, cs, Some (Inl lastErr)))"
  by pat_completeness auto
termination
  by (relation "measure (\<lambda>(api, maxRetries, msgs, attempt, lastErr, cs, r). nat (maxRetries + 1 - int attempt))") auto

declare commit_loop.simps [simp del]

text \<open>Whether the messages were committed, and the error the caller sees.\<close>

definition commitWithRetry ::
  "'r kafka_api \<Rightarrow> kafkaSourceConfig \<Rightarrow> kafka_message list \<Rightarrow> bool list \<Rightarrow> 'r \<Rightarrow>
   'r \<times> bool list \<times> bool \<times> source_error option" where
  "commitWithRetry api c msgs cs r =
     (let (r', cs', res) = commit_loop api (commitMaxRetries c) msgs 0 [] cs r in
      case res of
        None \<Rightarrow> (r', cs', True, None)
      | Some (Inr e) \<Rightarrow> (r', cs', False, Some e)
      | Some (Inl lastErr) \<Rightarrow>
          (r', cs', False, if commitFailPolicy c = CommitPolicyFail then Some (ECommit (commitMaxRetries c) lastErr) else None))"

subsection \<open>The state of a run\<close>

text \<open>What the source does, in order: the messages it takes, the waits, the records it sends to the output
  channel and to the dead-letter queue, and the messages it commits.\<close>

datatype source_event =
    Fetched kafka_message
  | Waited duration
  | Emitted Record
  | DeadLetter Record
  | Committed "kafka_message list"

record source_state =
  ks_offsets :: offsetTracker
  ks_pending :: "kafka_message list"
  checks :: "bool list"
  trace :: "source_event list"

datatype delivery = Stopped source_error | Skipped | Delivered kafka_message

text \<open>The part the two loops share: fetch, track, convert, and send to the output channel unless the context ends.\<close>

definition deliver_next ::
  "'r kafka_api \<Rightarrow> kafkaSourceConfig \<Rightarrow> 'r \<Rightarrow> source_state \<Rightarrow> ('r \<times> source_state \<times> delivery) option" where
  "deliver_next api c r s =
     (case fetchWithRetry api c (checks s) r of
        None \<Rightarrow> None
      | Some (r', cs, waits, Inl e) \<Rightarrow>
          Some (r', s\<lparr> checks := cs, trace := trace s @ map Waited waits \<rparr>, Stopped e)
      | Some (r', cs, waits, Inr msg) \<Rightarrow>
          (let evs = trace s @ map Waited waits @ [Fetched msg]; t = track msg (ks_offsets s) in
           case toRecord c msg of
             (None, dead) \<Rightarrow>
               Some (r', s\<lparr> checks := cs, ks_offsets := t, trace := evs @ (case dead of None \<Rightarrow> [] | Some d \<Rightarrow> [DeadLetter d]) \<rparr>, Skipped)
           | (Some record, dead) \<Rightarrow>
               (let (done, cs') = check_ctx cs in
                if done then Some (r', s\<lparr> checks := cs', ks_offsets := t, trace := evs \<rparr>, Stopped ECtx)
                else Some (r', s\<lparr> checks := cs', ks_offsets := t, trace := evs @ [Emitted record] \<rparr>, Delivered msg))))"

subsection \<open>The consumer-group loop\<close>

definition commit_messages ::
  "'r kafka_api \<Rightarrow> kafkaSourceConfig \<Rightarrow> kafka_message list \<Rightarrow> 'r \<Rightarrow> source_state \<Rightarrow> 'r \<times> source_state \<times> source_error option" where
  "commit_messages api c msgs r s =
     (let (r', cs, ok, e) = commitWithRetry api c msgs (checks s) r
      in (r', s\<lparr> checks := cs, trace := trace s @ (if ok then [Committed msgs] else []) \<rparr>, e))"

definition commitBatchWithRetry ::
  "'r kafka_api \<Rightarrow> kafkaSourceConfig \<Rightarrow> 'r \<Rightarrow> source_state \<Rightarrow> 'r \<times> source_state \<times> source_error option" where
  "commitBatchWithRetry api c r s =
     (if ks_pending s = [] then (r, s, None)
      else commit_messages api c (ks_pending s) r (s\<lparr> ks_pending := [] \<rparr>))"

text \<open>What follows the emission of a message in the loop.\<close>

definition after_emit ::
  "'r kafka_api \<Rightarrow> kafkaSourceConfig \<Rightarrow> kafka_message \<Rightarrow> 'r \<Rightarrow> source_state \<Rightarrow> 'r \<times> source_state \<times> source_error option" where
  "after_emit api c msg r s =
     (if exactlyOnce c then (r, s, None)
      else if commitBatch c > 0 then
        (let s' = s\<lparr> ks_pending := ks_pending s @ [msg] \<rparr> in
         if int (length (ks_pending s')) \<ge> commitBatch c then commitBatchWithRetry api c r s' else (r, s', None))
      else commit_messages api c [msg] r s)"

definition serial_step ::
  "'r kafka_api \<Rightarrow> kafkaSourceConfig \<Rightarrow> 'r \<Rightarrow> source_state \<Rightarrow> ('r \<times> source_state \<times> source_error option) option" where
  "serial_step api c r s =
     (case deliver_next api c r s of
        None \<Rightarrow> None
      | Some (r', s', Stopped e) \<Rightarrow> Some (r', s', Some e)
      | Some (r', s', Skipped) \<Rightarrow> Some (r', s', None)
      | Some (r', s', Delivered msg) \<Rightarrow> Some (after_emit api c msg r' s'))"

partial_function (option) runSerial ::
  "'r kafka_api \<Rightarrow> kafkaSourceConfig \<Rightarrow> 'r \<Rightarrow> source_state \<Rightarrow> ('r \<times> source_state \<times> source_error) option" where
  "runSerial api c r s =
     (case serial_step api c r s of
        None \<Rightarrow> None
      | Some (r', s', Some e) \<Rightarrow> Some (r', s', e)
      | Some (r', s', None) \<Rightarrow> runSerial api c r' s')"

definition Drain :: "'r kafka_api \<Rightarrow> kafkaSourceConfig \<Rightarrow> 'r \<Rightarrow> source_state \<Rightarrow> 'r \<times> source_state \<times> source_error option" where
  "Drain api c r s =
     (if parallel c \<or> exactlyOnce c \<or> ks_pending s = [] then (r, s, None) else commit_messages api c (ks_pending s) r s)"

definition CommitOffsets ::
  "'r kafka_api \<Rightarrow> kafkaSourceConfig \<Rightarrow> (bytes \<times> int) range_ord \<Rightarrow> bytes \<Rightarrow> 'r \<Rightarrow> source_state \<Rightarrow>
   'r \<times> source_state \<times> source_error option" where
  "CommitOffsets api c ord data r s =
     (if groupID c = [] then (r, s, None)
      else case unmarshal_offsets data of
        None \<Rightarrow> (r, s, Some EOffsets)
      | Some offs \<Rightarrow>
          (let msgs = map (\<lambda>(partStr, next).
                 \<lparr> mTopic = topic c, mPartition = (case Sscanf_d partStr of Some n \<Rightarrow> n | None \<Rightarrow> 0),
                   mOffset = next - 1, mKey = [], mValue = [], mHeaders = [], mTime = zeroTime \<rparr>)
                 (filter (\<lambda>(partStr, next). 0 < next) (visit ord offs))
           in if msgs = [] then (r, s, None) else commit_messages api c msgs r s))"

definition CheckpointOffset :: "source_state \<Rightarrow> bytes" where
  "CheckpointOffset s = snapshot (ks_offsets s)"

definition RestoreOffset :: "(bytes \<times> int) range_ord \<Rightarrow> bytes \<Rightarrow> source_state \<Rightarrow> source_state option" where
  "RestoreOffset ord data s = map_option (\<lambda>t. s\<lparr> ks_offsets := t \<rparr>) (restore ord data (ks_offsets s))"

subsection \<open>Readers and the parallel mode\<close>

definition newSerialReaderSupervisor :: "'r kafka_api \<Rightarrow> kafkaSourceConfig \<Rightarrow> 'r" where
  "newSerialReaderSupervisor api c = NewReader api
     \<lparr> rc_GroupID = groupID c, rc_Topic = topic c, rc_GroupTopics = topics c, rc_Partition = 0,
       rc_StartOffset = toKafka (offsetMode c), rc_ReadCommitted = exactlyOnce c \<rparr>"

definition buildPartitionReader :: "'r kafka_api \<Rightarrow> kafkaSourceConfig \<Rightarrow> int \<Rightarrow> 'r" where
  "buildPartitionReader api c part = NewReader api
     \<lparr> rc_GroupID = [], rc_Topic = topic c, rc_GroupTopics = [], rc_Partition = part,
       rc_StartOffset = toKafka (offsetMode c), rc_ReadCommitted = exactlyOnce c \<rparr>"

text \<open>A failing \<open>SetOffset\<close> is logged and the reader is used all the same.\<close>

definition startReader :: "'r kafka_api \<Rightarrow> kafkaSourceConfig \<Rightarrow> offsetTracker \<Rightarrow> int \<Rightarrow> 'r" where
  "startReader api c t part =
     (let reader = buildPartitionReader api c part in
      case restoredOffset part t of None \<Rightarrow> reader | Some off \<Rightarrow> fst (SetOffset api off reader))"

text \<open>
  The readers the manager runs by partition; those it cancelled, which go on until they see it;
  the partitions whose reader returned; the first error of a reader that was not cancelled.
\<close>

record 'r partitionManager =
  running :: "(int, 'r) gomap"
  leaving :: "(int \<times> 'r) list"
  ended :: "int set"
  mfatal :: "source_error option"
  msource :: source_state

definition start_missing ::
  "'r kafka_api \<Rightarrow> kafkaSourceConfig \<Rightarrow> offsetTracker \<Rightarrow> int \<Rightarrow> (int, 'r) gomap \<Rightarrow> (int, 'r) gomap" where
  "start_missing api c t part readers =
     (if map_of readers part = None then map_put part (startReader api c t part) readers else readers)"

definition reconcile ::
  "'r kafka_api \<Rightarrow> kafkaSourceConfig \<Rightarrow> int list \<Rightarrow> 'r partitionManager \<Rightarrow> 'r partitionManager" where
  "reconcile api c desired m =
     (let (kept, gone) = partition (\<lambda>(part, r). part \<in> set desired) (running m) in
      m\<lparr> running := fold (start_missing api c (ks_offsets (msource m))) desired kept, leaving := leaving m @ filter (\<lambda>(part, r). part \<notin> ended m) gone,
         ended := ended m - fst ` set gone \<rparr>)"

definition newPartitionManager :: "source_state \<Rightarrow> 'r partitionManager" where
  "newPartitionManager s = \<lparr> running = [], leaving = [], ended = {}, mfatal = None, msource = s \<rparr>"

text \<open>The steps of the manager and its readers, in any interleaving, until the manager returns.\<close>

inductive manager_step ::
  "'r kafka_api \<Rightarrow> kafkaSourceConfig \<Rightarrow> (int list \<Rightarrow> bool) \<Rightarrow> 'r partitionManager \<Rightarrow> 'r partitionManager \<Rightarrow> bool"
  for api c disc where
  turn: "map_of (running m) part = Some r \<Longrightarrow> part \<notin> ended m \<Longrightarrow> deliver_next api c r (msource m) = Some (r', s', d) \<Longrightarrow>
    \<not> (\<exists>e. d = Stopped e) \<Longrightarrow>
    manager_step api c disc m (m\<lparr> running := map_put part r' (running m), msource := s' \<rparr>)"
| returned: "map_of (running m) part = Some r \<Longrightarrow> part \<notin> ended m \<Longrightarrow> deliver_next api c r (msource m) = Some (r', s', Stopped e) \<Longrightarrow>
    manager_step api c disc m
      (m\<lparr> ended := insert part (ended m), msource := s',
          mfatal := (if e = ECtx then mfatal m else case mfatal m of None \<Rightarrow> Some e | Some e0 \<Rightarrow> Some e0) \<rparr>)"
| last_turn: "(part, r) \<in> set (leaving m) \<Longrightarrow> deliver_next api c r (msource m) = Some (r', s', d) \<Longrightarrow>
    manager_step api c disc m
      (m\<lparr> leaving := remove1 (part, r) (leaving m) @ (if \<exists>e. d = Stopped e then [] else [(part, r')]), msource := s' \<rparr>)"
| discovered: "disc ids \<Longrightarrow> manager_step api c disc m (reconcile api c ids m)"

abbreviation manager_run where
  "manager_run api c disc \<equiv> (manager_step api c disc)\<^sup>*\<^sup>*"

subsection \<open>Construction\<close>

datatype source_panic = NoBrokers | NoTopic | ParallelWithGroup | ParallelNeedsTopic | DiscoveryFailed bytes

record 'r KafkaSource =
  ks_cfg :: kafkaSourceConfig
  ks_reader :: "'r option"
  ks_initialPartitions :: "int list"
  ks_wm :: watermarkTracker
  ks_state :: source_state

definition new_state :: "bool list \<Rightarrow> source_state" where
  "new_state cs = \<lparr> ks_offsets = newOffsetTracker, ks_pending = [], checks = cs, trace = [] \<rparr>"

definition NewKafkaSource ::
  "'r kafka_api \<Rightarrow> bytes + int list \<Rightarrow> bool list \<Rightarrow> kafkaSourceConfig \<Rightarrow> source_panic + 'r KafkaSource" where
  "NewKafkaSource api discovery cs c0 =
     (let c = applyDefaults c0;
          ks = \<lparr> ks_cfg = c, ks_reader = None, ks_initialPartitions = [],
                 ks_wm = \<lparr> outOfOrderness = watermarkOutOfOrderness c, wt_interval = watermarkInterval c \<rparr>,
                 ks_state = new_state cs \<rparr> in
      if brokers c = [] then Inl NoBrokers
      else if topics c = [] \<and> topic c = [] then Inl NoTopic
      else if parallel c then
        (if groupID c \<noteq> [] then Inl ParallelWithGroup
         else if topic c = [] \<or> topics c \<noteq> [] then Inl ParallelNeedsTopic
         else case discovery of
           Inl err \<Rightarrow> Inl (DiscoveryFailed err)
         | Inr ids \<Rightarrow> Inr (ks\<lparr> ks_initialPartitions := ids \<rparr>))
      else Inr (ks\<lparr> ks_reader := Some (newSerialReaderSupervisor api c) \<rparr>))"

end
