(* ===== verification/Kafka_Source_Proofs.thy ===== *)
theory Kafka_Source_Proofs
  imports Kafka_Source
begin

text \<open>
  Properties of the Kafka source in consumer-group mode: an offset is committed only behind records that
  were handed to the pipeline; the positions of a restored checkpoint do not reach the reader; the waits
  between fetch attempts.
\<close>

subsection \<open>Events\<close>

fun fetched_of :: "source_event \<Rightarrow> kafka_message option" where
  "fetched_of (Fetched m) = Some m"
| "fetched_of _ = None"

fun emitted_of :: "source_event \<Rightarrow> Record option" where
  "emitted_of (Emitted r) = Some r"
| "emitted_of _ = None"

definition fetched :: "source_event list \<Rightarrow> kafka_message list" where
  "fetched = List.map_filter fetched_of"

definition emitted :: "source_event list \<Rightarrow> Record list" where
  "emitted = List.map_filter emitted_of"

lemma map_filter_append: "List.map_filter f (xs @ ys) = List.map_filter f xs @ List.map_filter f ys"
  by (simp add: map_filter_def)

lemma map_filter_Cons: "List.map_filter f (x # xs) = (case f x of None \<Rightarrow> List.map_filter f xs | Some y \<Rightarrow> y # List.map_filter f xs)"
  by (simp add: map_filter_simps)

lemma map_filter_Nil [simp]: "List.map_filter f [] = []"
  by (simp add: map_filter_simps)

lemma map_filter_none: "\<forall>x\<in>set xs. f x = None \<Longrightarrow> List.map_filter f xs = []"
  by (induction xs) (simp_all add: map_filter_Cons)

lemma fetched_simps [simp]:
  "fetched [] = []" "fetched (xs @ ys) = fetched xs @ fetched ys" "fetched (map Waited ws) = []"
  "fetched (e # es) = (case fetched_of e of None \<Rightarrow> [] | Some m \<Rightarrow> [m]) @ fetched es"
  by (simp_all add: fetched_def map_filter_append map_filter_none map_filter_Cons split: option.splits)

lemma emitted_simps [simp]:
  "emitted [] = []" "emitted (xs @ ys) = emitted xs @ emitted ys" "emitted (map Waited ws) = []"
  "emitted (e # es) = (case emitted_of e of None \<Rightarrow> [] | Some r \<Rightarrow> [r]) @ emitted es"
  by (simp_all add: emitted_def map_filter_append map_filter_none map_filter_Cons split: option.splits)

text \<open>The record of a message, if the deserializer accepts it.\<close>

definition record_of :: "kafkaSourceConfig \<Rightarrow> kafka_message \<Rightarrow> Record option" where
  "record_of c m = fst (toRecord c m)"

text \<open>Induction over the attempts of a fetch that returns.\<close>

lemma fetch_loop_induct [consumes 1, case_names gave_up got cancelled waited again]:
  assumes "fetch_loop api n attempt err cs r = Some y"
    and gave_up: "\<And>attempt err cs r. 0 \<le> n \<Longrightarrow> n < int attempt \<Longrightarrow> P attempt r (r, cs, [], Inl (EFetch n err))"
    and got: "\<And>attempt cs r r' m. FetchMessage api r = (r', Inr m) \<Longrightarrow> n < 0 \<or> int attempt \<le> n \<Longrightarrow> P attempt r (r', cs, [], Inr m)"
    and cancelled: "\<And>attempt cs r r' e. FetchMessage api r = (r', Inl e) \<Longrightarrow> n < 0 \<or> int attempt \<le> n \<Longrightarrow> P attempt r (r', cs, [], Inl ECtx)"
    and waited: "\<And>attempt r r' e r2 cs ws res. FetchMessage api r = (r', Inl e) \<Longrightarrow> n < 0 \<or> int attempt < n \<Longrightarrow>
      P (Suc attempt) r' (r2, cs, ws, res) \<Longrightarrow> P attempt r (r2, cs, fetch_backoff attempt # ws, res)"
    and again: "\<And>attempt r r' e z. FetchMessage api r = (r', Inl e) \<Longrightarrow> n = int attempt \<Longrightarrow> P (Suc attempt) r' z \<Longrightarrow> P attempt r z"
  shows "P attempt r y"
proof -
  have "api' = api \<longrightarrow> n' = n \<longrightarrow> P attempt r y" if "fetch_loop api' n' attempt err cs r = Some y" for api' n'
  proof (rule fetch_loop.raw_induct [OF _ that], intro impI)
    fix f :: "'a kafka_api \<Rightarrow> int \<Rightarrow> nat \<Rightarrow> bytes \<Rightarrow> bool list \<Rightarrow> 'a \<Rightarrow> ('a \<times> bool list \<times> duration list \<times> (source_error + kafka_message)) option"
    fix api' n' attempt err cs r y
    assume IH: "\<And>api' n' attempt err cs r y. f api' n' attempt err cs r = Some y \<Longrightarrow> api' = api \<longrightarrow> n' = n \<longrightarrow> P attempt r y"
      and body: "(if n' < 0 \<or> int attempt \<le> n' then
        (let (r', res) = FetchMessage api' r in
         case res of
           Inl e \<Rightarrow>
             (let (done1, cs1) = check_ctx cs in
              if done1 then Some (r', cs1, [], Inl ECtx)
              else if n' < 0 \<or> int attempt < n' then
                (let (done2, cs2) = check_ctx cs1 in
                 if done2 then Some (r', cs2, [], Inl ECtx)
                 else f api' n' (Suc attempt) e cs2 r' \<bind> (\<lambda>(r2, cs3, waits, res2). Some (r2, cs3, fetch_backoff attempt # waits, res2)))
              else f api' n' (Suc attempt) e cs1 r')
         | Inr msg \<Rightarrow> Some (r', cs, [], Inr msg))
      else Some (r, cs, [], Inl (EFetch n' err))) = Some y"
      and eq: "api' = api" "n' = n"
    obtain r' res where m: "FetchMessage api r = (r', res)" by force
    obtain d1 cs1 where c1: "check_ctx cs = (d1, cs1)" by force
    obtain d2 cs2 where c2: "check_ctx cs1 = (d2, cs2)" by force
    show "P attempt r y"
    proof (cases "n < 0 \<or> int attempt \<le> n")
      case False
      then show ?thesis using body eq gave_up by auto
    next
      case live: True
      show ?thesis
      proof (cases res)
        case (Inr msg)
        then show ?thesis using body eq live got m by auto
      next
        case (Inl e)
        note m' = m [unfolded Inl]
        show ?thesis
        proof (cases "d1 \<or> (n < 0 \<or> int attempt < n) \<and> d2")
          case True
          then obtain cs' where "y = (r', cs', [], Inl ECtx)" using body eq live Inl by (auto simp: m c1 c2 split: if_splits)
          then show ?thesis using cancelled [OF m' live] by simp
        next
          case False
          show ?thesis
          proof (cases "n < 0 \<or> int attempt < n")
            case w: True
            then obtain r2 cs3 ws res2 where z: "f api n (Suc attempt) e cs2 r' = Some (r2, cs3, ws, res2)" "y = (r2, cs3, fetch_backoff attempt # ws, res2)"
              using body eq live False Inl by (cases "f api n (Suc attempt) e cs2 r'") (auto simp: m c1 c2)
            show ?thesis using waited [OF m' w] IH [OF z(1)] z(2) by simp
          next
            case w: False
            then have "f api n (Suc attempt) e cs1 r' = Some y" using body eq live False Inl by (simp add: m c1)
            then show ?thesis using again [OF m' _ ] IH w live by auto
          qed
        qed
      qed
    qed
  qed
  from this [OF assms(1)] show ?thesis by simp
qed

lemma deliver_nextE:
  assumes "deliver_next api c r s = Some (r', s', d)"
  obtains (stopped) cs ws e where "fetchWithRetry api c (checks s) r = Some (r', cs, ws, Inl e)" "d = Stopped e"
      "s' = s\<lparr> checks := cs, trace := trace s @ map Waited ws \<rparr>"
    | (skipped) cs ws m dead where "fetchWithRetry api c (checks s) r = Some (r', cs, ws, Inr m)" "d = Skipped" "record_of c m = None"
      "s' = s\<lparr> checks := cs, ks_offsets := track m (ks_offsets s),
        trace := trace s @ map Waited ws @ Fetched m # (case dead of None \<Rightarrow> [] | Some x \<Rightarrow> [DeadLetter x]) \<rparr>"
    | (cancelled) cs cs' ws m where "fetchWithRetry api c (checks s) r = Some (r', cs, ws, Inr m)" "d = Stopped ECtx"
      "s' = s\<lparr> checks := cs', ks_offsets := track m (ks_offsets s), trace := trace s @ map Waited ws @ [Fetched m] \<rparr>"
    | (delivered) cs cs' ws m rec where "fetchWithRetry api c (checks s) r = Some (r', cs, ws, Inr m)" "d = Delivered m"
      "record_of c m = Some rec" "s' = s\<lparr> checks := cs', ks_offsets := track m (ks_offsets s),
        trace := trace s @ map Waited ws @ [Fetched m, Emitted rec] \<rparr>"
proof -
  obtain cs ws res where f: "fetchWithRetry api c (checks s) r = Some (r', cs, ws, res)"
    using assms by (auto simp: deliver_next_def Let_def split: option.splits sum.splits prod.splits if_splits)
  show ?thesis
  proof (cases res)
    case (Inl e)
    then show ?thesis using assms f stopped by (auto simp: deliver_next_def)
  next
    case (Inr m)
    obtain ro dead where t: "toRecord c m = (ro, dead)" by force
    obtain fin cs' where k: "check_ctx cs = (fin, cs')" by force
    show ?thesis
    proof (cases ro)
      case None
      then show ?thesis using assms f Inr t skipped [of cs ws m dead] by (auto simp: deliver_next_def record_of_def Let_def)
    next
      case (Some rec)
      then show ?thesis
        using assms f Inr t k cancelled [of cs ws m cs'] delivered [of cs ws m rec cs']
        by (auto simp: deliver_next_def record_of_def Let_def split: if_splits)
    qed
  qed
qed

subsection \<open>Committing behind the delivery\<close>

text \<open>
  The iterations of the loop, and after it has returned the draining of the source stage
  (\<open>pipeline/stage.go\<close>); the flag tells whether the loop has returned.
\<close>

inductive serial_run ::
  "'r kafka_api \<Rightarrow> kafkaSourceConfig \<Rightarrow> 'r \<Rightarrow> source_state \<Rightarrow> 'r \<Rightarrow> source_state \<Rightarrow> bool \<Rightarrow> bool"
  for api c r0 s0 where
  start: "serial_run api c r0 s0 r0 s0 False"
| iterate: "serial_run api c r0 s0 r s False \<Longrightarrow> serial_step api c r s = Some (r', s', e) \<Longrightarrow>
    serial_run api c r0 s0 r' s' (e \<noteq> None)"
| drain: "serial_run api c r0 s0 r s True \<Longrightarrow> Drain api c r s = (r', s', e) \<Longrightarrow> serial_run api c r0 s0 r' s' True"

text \<open>The message was taken, and its record and those of all messages before it were sent to the pipeline.\<close>

definition handed_over :: "kafkaSourceConfig \<Rightarrow> source_event list \<Rightarrow> kafka_message \<Rightarrow> bool" where
  "handed_over c tr m \<longleftrightarrow> record_of c m \<noteq> None \<and>
     (\<exists>us vs. fetched tr = us @ m # vs \<and> prefix (List.map_filter (record_of c) (us @ [m])) (emitted tr))"

definition safe_commits :: "kafkaSourceConfig \<Rightarrow> source_event list \<Rightarrow> bool" where
  "safe_commits c tr \<longleftrightarrow> (\<forall>xs msgs ys m. tr = xs @ Committed msgs # ys \<and> m \<in> set msgs \<longrightarrow> \<not> exactlyOnce c \<and> handed_over c xs m)"

lemma handed_over_append: "handed_over c tr m \<Longrightarrow> handed_over c (tr @ evs) m"
  unfolding handed_over_def by (metis append.assoc append_Cons emitted_simps(2) fetched_simps(2) prefix_prefix)

lemma safe_commits_append:
  assumes "safe_commits c tr" "\<forall>e\<in>set evs. \<not> (\<exists>msgs. e = Committed msgs)"
  shows "safe_commits c (tr @ evs)"
  unfolding safe_commits_def
proof (intro allI impI)
  fix xs msgs ys m
  assume a: "tr @ evs = xs @ Committed msgs # ys \<and> m \<in> set msgs"
  then obtain us where "tr = xs @ us \<and> us @ evs = Committed msgs # ys \<or> tr @ us = xs \<and> evs = us @ Committed msgs # ys"
    by (auto simp: append_eq_append_conv2)
  then obtain zs where "tr = xs @ Committed msgs # zs"
    using assms(2) by (cases us) auto
  then show "\<not> exactlyOnce c \<and> handed_over c xs m" using assms(1) a unfolding safe_commits_def by blast
qed

lemma safe_commits_commit:
  assumes "safe_commits c tr" "\<not> exactlyOnce c" "\<forall>m\<in>set msgs. handed_over c tr m"
  shows "safe_commits c (tr @ [Committed msgs])"
  unfolding safe_commits_def
proof (intro allI impI)
  fix xs msgs' ys m
  assume a: "tr @ [Committed msgs] = xs @ Committed msgs' # ys \<and> m \<in> set msgs'"
  show "\<not> exactlyOnce c \<and> handed_over c xs m"
  proof (cases ys rule: rev_cases)
    case Nil
    then show ?thesis using a assms(2,3) by simp
  next
    case (snoc zs z)
    then have "tr = xs @ Committed msgs' # zs" using a by auto
    then show ?thesis using assms(1) a unfolding safe_commits_def by blast
  qed
qed

lemma commit_messagesE:
  assumes "commit_messages api c msgs r s = (r', s', e)"
  obtains cs where "s' = s\<lparr> checks := cs, trace := trace s @ [Committed msgs] \<rparr>" | cs where "s' = s\<lparr> checks := cs \<rparr>"
  using assms by (auto simp: commit_messages_def Let_def split: prod.splits if_splits)

definition serial_inv :: "kafkaSourceConfig \<Rightarrow> source_state \<Rightarrow> bool \<Rightarrow> bool" where
  "serial_inv c s stopped \<longleftrightarrow> safe_commits c (trace s) \<and> (\<forall>m\<in>set (ks_pending s). handed_over c (trace s) m) \<and>
     (exactlyOnce c \<longrightarrow> ks_pending s = []) \<and>
     (\<not> stopped \<longrightarrow> emitted (trace s) = List.map_filter (record_of c) (fetched (trace s)))"

lemma serial_inv_trace:
  assumes "serial_inv c s b" "\<forall>e\<in>set evs. \<not> (\<exists>msgs. e = Committed msgs)" "ks_pending s' = ks_pending s" "trace s' = trace s @ evs"
    "b' \<or> emitted (trace s @ evs) = List.map_filter (record_of c) (fetched (trace s @ evs))"
  shows "serial_inv c s' b'"
  using assms safe_commits_append [of c "trace s" evs] handed_over_append [of c "trace s"] unfolding serial_inv_def by auto

lemma commit_keeps:
  assumes "serial_inv c s b" "\<not> exactlyOnce c" "\<forall>m\<in>set msgs. handed_over c (trace s) m" "commit_messages api c msgs r s = (r', s', e)"
  shows "serial_inv c s' b"
  using assms(4)
proof (cases rule: commit_messagesE)
  case (1 cs)
  then show ?thesis
    using assms(1-3) safe_commits_commit [of c "trace s" msgs] handed_over_append [of c "trace s"]
    unfolding serial_inv_def by auto
next
  case (2 cs)
  then show ?thesis using assms(1) unfolding serial_inv_def by simp
qed

lemma serial_inv_stop: "serial_inv c s b \<Longrightarrow> b \<longrightarrow> b' \<Longrightarrow> serial_inv c s b'"
  unfolding serial_inv_def by blast

lemma after_emit_keeps:
  assumes "serial_inv c s False" "handed_over c (trace s) m" "after_emit api c m r s = (r', s', e)"
  shows "serial_inv c s' False"
proof (cases "exactlyOnce c \<or> commitBatch c \<le> 0")
  case True
  then show ?thesis
    using assms commit_keeps [of c s False "[m]" api r r' s' e] by (auto simp: after_emit_def split: if_splits)
next
  case False
  let ?s = "s\<lparr> ks_pending := ks_pending s @ [m] \<rparr>"
  have i: "serial_inv c ?s False" using assms(1,2) False unfolding serial_inv_def by auto
  have "serial_inv c (?s\<lparr> ks_pending := [] \<rparr>) False" using i unfolding serial_inv_def by simp
  moreover have "\<forall>x\<in>set (ks_pending ?s). handed_over c (trace ?s) x" using i unfolding serial_inv_def by blast
  ultimately show ?thesis
    using assms(3) False i commit_keeps [of c "?s\<lparr> ks_pending := [] \<rparr>" False "ks_pending ?s" api r r' s' e]
    by (auto simp: after_emit_def commitBatchWithRetry_def Let_def split: if_splits)
qed

lemma delivered_handed_over:
  assumes "emitted tr = List.map_filter (record_of c) (fetched tr)" "record_of c m = Some rec"
  shows "handed_over c (tr @ map Waited ws @ [Fetched m, Emitted rec]) m"
  unfolding handed_over_def
  by (rule conjI, use assms(2) in simp, rule exI [of _ "fetched tr"], rule exI [of _ "[]"])
    (use assms in \<open>simp add: map_filter_append map_filter_Cons\<close>)

lemma deliver_keeps:
  assumes "serial_inv c s False" "deliver_next api c r s = Some (r', s', d)"
  shows "serial_inv c s' (\<exists>e. d = Stopped e) \<and> (\<forall>m. d = Delivered m \<longrightarrow> handed_over c (trace s') m)"
proof -
  have eq: "emitted (trace s) = List.map_filter (record_of c) (fetched (trace s))" using assms(1) by (simp add: serial_inv_def)
  from assms(2) show ?thesis
  proof (cases rule: deliver_nextE)
    case (stopped cs ws e)
    then show ?thesis using serial_inv_trace [OF assms(1), of "map Waited ws" s' True] by auto
  next
    case (skipped cs ws m dead)
    then show ?thesis
      using serial_inv_trace [OF assms(1), of "map Waited ws @ Fetched m # (case dead of None \<Rightarrow> [] | Some x \<Rightarrow> [DeadLetter x])" s' False] eq
      by (auto simp: map_filter_append map_filter_Cons split: option.splits)
  next
    case (cancelled cs cs' ws m)
    then show ?thesis using serial_inv_trace [OF assms(1), of "map Waited ws @ [Fetched m]" s' True] by auto
  next
    case (delivered cs cs' ws m rec)
    then show ?thesis
      using serial_inv_trace [OF assms(1), of "map Waited ws @ [Fetched m, Emitted rec]" s' False] eq
        delivered_handed_over [OF eq, of m rec ws] by (auto simp: map_filter_append map_filter_Cons)
  qed
qed

lemma serial_step_keeps:
  assumes "serial_inv c s False" "serial_step api c r s = Some (r', s', e)"
  shows "serial_inv c s' (e \<noteq> None)"
proof -
  obtain r1 s1 d where d: "deliver_next api c r s = Some (r1, s1, d)"
    using assms(2) by (auto simp: serial_step_def split: option.splits)
  note k = deliver_keeps [OF assms(1) d]
  show ?thesis
  proof (cases d)
    case (Delivered m)
    then have "after_emit api c m r1 s1 = (r', s', e)" using assms(2) d by (simp add: serial_step_def)
    then show ?thesis using after_emit_keeps [of c s1 m api r1 r' s' e] k Delivered serial_inv_stop by auto
  qed (use assms(2) d k in \<open>auto simp: serial_step_def\<close>)
qed

lemma serial_run_keeps:
  assumes "serial_run api c r0 s0 r s b" "serial_inv c s0 False"
  shows "serial_inv c s b"
  using assms(1)
proof induction
  case (iterate r s r' s' e)
  then show ?case by (blast intro: serial_step_keeps)
next
  case (drain r s r' s' e)
  have "\<forall>m\<in>set (ks_pending s). handed_over c (trace s) m" using drain.IH by (simp add: serial_inv_def)
  then show ?case
    using drain commit_keeps [of c s True "ks_pending s" api r r' s' e] by (auto simp: Drain_def split: if_splits)
qed (rule assms(2))


text \<open>A reader that hands out a list of messages and accepts every commit.\<close>

definition list_api :: "kafka_message list kafka_api" where
  "list_api = \<lparr> NewReader = (\<lambda>rc. []), FetchMessage = (\<lambda>ms. case ms of [] \<Rightarrow> ([], Inl ''EOF'') | m # ms' \<Rightarrow> (ms', Inr m)),
     CommitMessages = (\<lambda>msgs r. (r, None)), SetOffset = (\<lambda>off r. (r, None)) \<rparr>"

definition demo_message :: "int \<Rightarrow> kafka_message" where
  "demo_message off = \<lparr> mTopic = ''t'', mPartition = 0, mOffset = off, mKey = ''k'', mValue = ''v'', mHeaders = [], mTime = 7 \<rparr>"

definition group_config :: kafkaSourceConfig where
  "group_config = applyDefaults (zeroKafkaConfig\<lparr> brokers := [''b''], topic := ''t'', groupID := ''g'' \<rparr>)"

lemma fetch_list: "fetchWithRetry list_api group_config cs (m # ms) = Some (ms, cs, [], Inr m)"
  by (simp add: fetchWithRetry_def fetch_loop.simps group_config_def applyDefaults_def zeroKafkaConfig_def list_api_def)

lemma group_step:
  "serial_step list_api group_config (m # ms) (s\<lparr> checks := [] \<rparr>) =
    Some (ms, s\<lparr> checks := [], ks_offsets := track m (ks_offsets s),
      trace := trace s @ [Fetched m, Emitted (KafkaToRecord m), Committed [m]] \<rparr>, None)"
proof -
  have c: "deserializer group_config = None" "exactlyOnce group_config = False" "commitBatch group_config = 0" "commitMaxRetries group_config = 3"
    by (simp_all add: group_config_def applyDefaults_def zeroKafkaConfig_def)
  have k: "commit_messages list_api group_config [m] ms s = (ms, s\<lparr> checks := checks s, trace := trace s @ [Committed [m]] \<rparr>, None)" for s
    by (simp add: commit_messages_def commitWithRetry_def c commit_loop.simps) (simp add: list_api_def)
  show ?thesis
    by (simp add: serial_step_def deliver_next_def fetch_list toRecord_def check_ctx_def after_emit_def c k Let_def)
qed


subsection \<open>Restoring a checkpoint in consumer-group mode\<close>

text \<open>Two states that differ in the tracker only.\<close>

definition same_run :: "source_state \<Rightarrow> source_state \<Rightarrow> bool" where
  "same_run s1 s2 \<longleftrightarrow> ks_pending s1 = ks_pending s2 \<and> checks s1 = checks s2 \<and> trace s1 = trace s2"

lemma same_run_sym: "same_run s1 s2 \<Longrightarrow> same_run s2 s1"
  by (auto simp: same_run_def)

lemma same_run_update: "same_run s1 s2 \<Longrightarrow> \<exists>t. s2 = s1\<lparr> ks_offsets := t \<rparr>"
  by (cases s1; cases s2) (auto simp: same_run_def)

lemma deliver_next_same:
  assumes "same_run s1 s2" "deliver_next api c r s1 = Some (r', s1', d)"
  obtains s2' where "deliver_next api c r s2 = Some (r', s2', d)" "same_run s1' s2'"
  using assms
  by (auto simp: deliver_next_def same_run_def Let_def split: option.splits sum.splits prod.splits if_splits)

lemma commit_same: "commit_messages api c msgs r (s\<lparr> ks_offsets := t \<rparr>) =
    (case commit_messages api c msgs r s of (r', s', e) \<Rightarrow> (r', s'\<lparr> ks_offsets := t \<rparr>, e))"
  by (simp add: commit_messages_def Let_def split: prod.splits)

lemma after_emit_same: "after_emit api c m r (s\<lparr> ks_offsets := t \<rparr>) =
    (case after_emit api c m r s of (r', s', e) \<Rightarrow> (r', s'\<lparr> ks_offsets := t \<rparr>, e))"
proof -
  have "commit_messages api c ms r (s\<lparr> ks_offsets := t, ks_pending := [] \<rparr>) =
      commit_messages api c ms r (s\<lparr> ks_pending := [], ks_offsets := t \<rparr>)" for ms
    by (cases s) simp
  then show ?thesis
    by (simp add: after_emit_def commitBatchWithRetry_def Let_def commit_same [where s = "s\<lparr> ks_pending := [] \<rparr>" and t = t]
        commit_same [where s = s and t = t])
qed

lemma serial_step_same:
  assumes "same_run s1 s2" "serial_step api c r s1 = Some (r', s1', e)"
  obtains s2' where "serial_step api c r s2 = Some (r', s2', e)" "same_run s1' s2'"
proof -
  obtain r1 t1 d where d: "deliver_next api c r s1 = Some (r1, t1, d)"
    using assms(2) by (auto simp: serial_step_def split: option.splits)
  obtain t2 where d2: "deliver_next api c r s2 = Some (r1, t2, d)" "same_run t1 t2"
    using deliver_next_same [OF assms(1) d] by blast
  obtain t where t: "t2 = t1\<lparr> ks_offsets := t \<rparr>" using same_run_update [OF d2(2)] by blast
  show ?thesis
  proof (cases d)
    case (Delivered m)
    then have "after_emit api c m r1 t1 = (r', s1', e)" using assms(2) d by (simp add: serial_step_def)
    then have "serial_step api c r s2 = Some (r', s1'\<lparr> ks_offsets := t \<rparr>, e)"
      using d2(1) Delivered t by (simp add: serial_step_def after_emit_same)
    then show ?thesis by (rule that) (simp add: same_run_def)
  qed (use assms(2) d d2 that in \<open>auto simp: serial_step_def\<close>)
qed

lemma runSerial_same:
  assumes "runSerial api c r s1 = Some y" "same_run s1 s2"
  shows "\<exists>s2'. runSerial api c r s2 = Some (fst y, s2', snd (snd y)) \<and> same_run (fst (snd y)) s2'"
proof -
  have "\<forall>s2. same_run s1 s2 \<longrightarrow> (\<exists>s2'. runSerial api c r s2 = Some (fst y, s2', snd (snd y)) \<and> same_run (fst (snd y)) s2')"
  proof (rule runSerial.raw_induct [OF _ assms(1)], intro allI impI)
    fix f :: "'a kafka_api \<Rightarrow> kafkaSourceConfig \<Rightarrow> 'a \<Rightarrow> source_state \<Rightarrow> ('a \<times> source_state \<times> source_error) option"
    fix api c r s1 y s2
    assume IH: "\<And>api c r s1 y. f api c r s1 = Some y \<Longrightarrow>
        \<forall>s2. same_run s1 s2 \<longrightarrow> (\<exists>s2'. runSerial api c r s2 = Some (fst y, s2', snd (snd y)) \<and> same_run (fst (snd y)) s2')"
      and body: "(case serial_step api c r s1 of None \<Rightarrow> None | Some (r', s', None) \<Rightarrow> f api c r' s' | Some (r', s', Some e) \<Rightarrow> Some (r', s', e)) = Some y"
      and same: "same_run s1 s2"
    obtain r1 t1 eo where st: "serial_step api c r s1 = Some (r1, t1, eo)" using body by (auto split: option.splits)
    obtain t2 where st2: "serial_step api c r s2 = Some (r1, t2, eo)" "same_run t1 t2" using serial_step_same [OF same st] by blast
    show "\<exists>s2'. runSerial api c r s2 = Some (fst y, s2', snd (snd y)) \<and> same_run (fst (snd y)) s2'"
    proof (cases eo)
      case None
      then have "f api c r1 t1 = Some y" using body st by simp
      from IH [OF this] st2 None show ?thesis by (subst runSerial.simps) simp
    next
      case (Some x)
      then show ?thesis using body st st2 by (subst runSerial.simps) auto
    qed
  qed
  then show ?thesis using assms(2) by blast
qed

text \<open>
  C38. In consumer-group mode the positions of a restored checkpoint have no influence on the run. When the
  offsets of a checkpoint have been restored into the source, the loop returns exactly when it returns
  without them, with the same reader, the same error and the same sequence of fetched, emitted, dead-lettered
  and committed messages: the reader starts where the broker lets it start. The options of the source say
  that recovery reads the offsets from the checkpoint and not from the broker.
\<close>

theorem restored_offsets_ignored:
  assumes "RestoreOffset ord data s = Some s'"
  shows "map_option (\<lambda>(r', t, e). (r', trace t, e)) (runSerial api c r s') =
    map_option (\<lambda>(r', t, e). (r', trace t, e)) (runSerial api c r s)"
proof -
  have same: "same_run s s'" using assms by (auto simp: RestoreOffset_def same_run_def)
  have "map_option (\<lambda>(r', t, e). (r', trace t, e)) (runSerial api c r s2) = map_option (\<lambda>(r', t, e). (r', trace t, e)) (runSerial api c r s1)"
    if "runSerial api c r s1 = Some y" "same_run s1 s2" for s1 s2 y
    using runSerial_same [OF that] that by (auto simp: same_run_def split: prod.splits)
  from this [OF _ same] this [OF _ same_run_sym [OF same]] show ?thesis
    by (cases "runSerial api c r s"; cases "runSerial api c r s'") (force dest: sym)+
qed

text \<open>The checkpoint is at offset five of partition zero; the broker lets the reader start at three, and offset three is emitted again.\<close>

definition eo_config :: kafkaSourceConfig where
  "eo_config = group_config\<lparr> exactlyOnce := True, fetchMaxRetries := 1 \<rparr>"

lemma eo_fetch: "fetchWithRetry list_api eo_config [] (m # ms) = Some (ms, [], [], Inr m)"
    "fetchWithRetry list_api eo_config [] [] = Some ([], [], [1000000000], Inl (EFetch 1 ''EOF''))"
  by (simp_all add: fetchWithRetry_def fetch_loop.simps eo_config_def list_api_def check_ctx_def fetch_backoff_def doubled_def i64_def)

lemma eo_deliver:
  "checks s = [] \<Longrightarrow> deliver_next list_api eo_config (m # ms) s = Some (ms, s\<lparr> ks_offsets := track m (ks_offsets s),
     trace := trace s @ [Fetched m, Emitted (KafkaToRecord m)] \<rparr>, Delivered m)"
  "checks s = [] \<Longrightarrow> deliver_next list_api eo_config [] s = Some ([], s\<lparr> trace := trace s @ [Waited 1000000000] \<rparr>, Stopped (EFetch 1 ''EOF''))"
proof -
  have c: "deserializer eo_config = None" by (simp add: eo_config_def group_config_def applyDefaults_def zeroKafkaConfig_def)
  show "checks s = [] \<Longrightarrow> deliver_next list_api eo_config (m # ms) s = Some (ms, s\<lparr> ks_offsets := track m (ks_offsets s),
     trace := trace s @ [Fetched m, Emitted (KafkaToRecord m)] \<rparr>, Delivered m)"
    by (simp add: deliver_next_def eo_fetch toRecord_def c check_ctx_def Let_def)
  show "checks s = [] \<Longrightarrow> deliver_next list_api eo_config [] s = Some ([], s\<lparr> trace := trace s @ [Waited 1000000000] \<rparr>, Stopped (EFetch 1 ''EOF''))"
    by (simp add: deliver_next_def eo_fetch)
qed

theorem restored_offsets_ignored_witness:
  "restore in_order (marshal_offsets [(0, 5)]) newOffsetTracker = Some \<lparr> consumed = [(0, 5)], restored = [(0, 5)] \<rparr> \<and>
   map_option (\<lambda>(r', t, e). (r', trace t, e))
     (runSerial list_api eo_config [demo_message 3] ((new_state [])\<lparr> ks_offsets := \<lparr> consumed = [(0, 5)], restored = [(0, 5)] \<rparr> \<rparr>)) =
   Some ([], [Fetched (demo_message 3), Emitted (KafkaToRecord (demo_message 3)), Waited 1000000000], EFetch 1 ''EOF'')"
proof -
  have u: "unmarshal_offsets (marshal_offsets [(0, 5)]) = Some [(''0'', 5)]" by code_simp
  have z: "Sscanf_d ''0'' = Some 0" by code_simp
  have t: "restore in_order (marshal_offsets [(0, 5)]) newOffsetTracker = Some \<lparr> consumed = [(0, 5)], restored = [(0, 5)] \<rparr>"
    by (simp add: restore_def u restore_one_def z newOffsetTracker_def)
  have "RestoreOffset in_order (marshal_offsets [(0, 5)]) (new_state []) =
      Some ((new_state [])\<lparr> ks_offsets := \<lparr> consumed = [(0, 5)], restored = [(0, 5)] \<rparr> \<rparr>)"
    using t by (simp add: RestoreOffset_def new_state_def)
  note r = restored_offsets_ignored [OF this, of list_api eo_config "[demo_message 3]"]
  have e: "exactlyOnce eo_config" by (simp add: eo_config_def)
  have "runSerial list_api eo_config [] s = Some ([], s\<lparr> trace := trace s @ [Waited 1000000000] \<rparr>, EFetch 1 ''EOF'')"
    if "checks s = []" for s
    by (subst runSerial.simps) (simp add: serial_step_def eo_deliver that)
  then have "runSerial list_api eo_config [demo_message 3] (new_state []) =
      Some ([], (new_state [])\<lparr> ks_offsets := track (demo_message 3) newOffsetTracker,
        trace := [Fetched (demo_message 3), Emitted (KafkaToRecord (demo_message 3)), Waited 1000000000] \<rparr>, EFetch 1 ''EOF'')"
    by (subst runSerial.simps) (simp add: serial_step_def eo_deliver new_state_def after_emit_def e)
  then show ?thesis using r t by simp
qed

subsection \<open>Waiting between fetch attempts\<close>

lemma fetch_backoff_values:
  "fetch_backoff 0 = 1000000000" "fetch_backoff 1 = 2000000000" "fetch_backoff 5 = 30000000000"
  by (simp_all add: fetch_backoff_def doubled_def i64_def)

lemma fetch_backoff_zero: "55 \<le> n \<Longrightarrow> fetch_backoff n = 0"
proof -
  assume "55 \<le> n"
  then obtain k where n: "n = 55 + k" using le_Suc_ex by blast
  have "i64 (i64 (2 ^ n) * 1000000000) = i64 (2 ^ n * 1000000000)"
    by (simp add: i64_sint)
  also have "2 ^ n * (1000000000 :: int) = 2 ^ 64 * (2 ^ k * 1953125)" unfolding n by (simp add: power_add)
  also have "i64 (2 ^ 64 * (2 ^ k * 1953125)) = 0" unfolding i64_def mod_mult_self4 by simp
  finally show ?thesis by (simp add: fetch_backoff_def doubled_def)
qed

definition backs_off :: "nat \<Rightarrow> duration list \<Rightarrow> bool" where
  "backs_off attempt waits \<longleftrightarrow> waits = map fetch_backoff [attempt ..< attempt + length waits]"

lemma backs_off_simps [simp]: "backs_off a []" "backs_off (Suc a) ws \<Longrightarrow> backs_off a (fetch_backoff a # ws)"
  by (simp_all add: backs_off_def upt_conv_Cons del: upt_Suc)

lemma fetch_loop_waits:
  assumes "fetch_loop api n attempt err cs r = Some y"
  shows "backs_off attempt (fst (snd (snd y))) \<and> (0 \<le> n \<and> n < int attempt \<longrightarrow> fst (snd (snd y)) = [])"
  using assms by (induction rule: fetch_loop_induct) auto

lemma waited_bound: "sum_list (map (max 0) (map fetch_backoff [0..<n])) \<le> 1141 * 1000000000"
proof -
  have a: "sum_list (map (max 0) (map fetch_backoff [0..<55])) = 1141 * 1000000000"
    by (simp add: fetch_backoff_def doubled_def i64_def upt_rec)
  have m: "sum_list (map (max 0) (map fetch_backoff [0..<n])) \<le> sum_list (map (max 0) (map fetch_backoff [0..<n + k]))" for n k
    by (induction k) auto
  show ?thesis
  proof (cases "n \<le> 55")
    case True
    then show ?thesis using m [of n "55 - n"] a by simp
  next
    case False
    have "map (max 0) (map fetch_backoff [55..<n]) = map (\<lambda>i. 0) [55..<n]" by (simp add: fetch_backoff_zero)
    then have "sum_list (map (max 0) (map fetch_backoff [55..<n])) = 0" by (simp add: sum_list_replicate map_replicate_const)
    moreover have "[0..<n] = [0..<55] @ [55..<n]" using False upt_add_eq_append [of 0 55 "n - 55"] by simp
    ultimately show ?thesis using a by simp
  qed
qed

text \<open>
  C39. The back-off between fetch attempts vanishes. Whatever the client answers, the \<open>i\<close>-th wait of a call is
  the \<open>i\<close>-th value of the back-off, which is zero from the fifty-sixth attempt on because the shifted
  second overflows, so all the waits of one call together are at most 1141 seconds however long the broker is
  away: with unlimited retries the loop then calls the broker again and again without any pause. The comment
  promises exponential back-off, capped at thirty seconds.
\<close>

theorem fetch_backoff_vanishes:
  assumes "fetchWithRetry api c cs r = Some (r', cs', waits, res)"
  shows "waits = map fetch_backoff [0..<length waits] \<and> (\<forall>i. 55 \<le> i \<and> i < length waits \<longrightarrow> waits ! i = 0) \<and>
    sum_list (map (max 0) waits) \<le> 1141 * 1000000000"
proof -
  have w: "waits = map fetch_backoff [0..<length waits]"
    using fetch_loop_waits [OF assms [unfolded fetchWithRetry_def]] by (simp add: backs_off_def)
  moreover have "waits ! i = 0" if "55 \<le> i" "i < length waits" for i
  proof -
    have "waits ! i = map fetch_backoff [0..<length waits] ! i" using w by simp
    then show ?thesis using that fetch_backoff_zero by simp
  qed
  moreover have "sum_list (map (max 0) waits) \<le> 1141 * 1000000000"
    by (subst w) (rule waited_bound)
  ultimately show ?thesis by blast
qed

text \<open>A reader that fails a number of times.\<close>

definition flaky_api :: "nat kafka_api" where
  "flaky_api = \<lparr> NewReader = (\<lambda>rc. 0), FetchMessage = (\<lambda>n. case n of 0 \<Rightarrow> (0, Inr (demo_message 0)) | Suc k \<Rightarrow> (k, Inl ''EOF'')),
     CommitMessages = (\<lambda>msgs r. (r, None)), SetOffset = (\<lambda>off r. (r, None)) \<rparr>"

lemma flaky_fetch: "fetch_loop flaky_api (- 1) a err [] n = Some (0, [], map fetch_backoff [a..<a + n], Inr (demo_message 0))"
proof (induction n arbitrary: a err)
  case (Suc n)
  have "[a..<a + Suc n] = a # [Suc a..<Suc a + n]" by (simp add: upt_rec)
  then show ?case using Suc [of "Suc a" "''EOF''"]
    by (subst fetch_loop.simps) (simp add: check_ctx_def flaky_api_def)
qed (subst fetch_loop.simps, simp add: flaky_api_def)

theorem fetch_backoff_vanishes_witness:
  "fetchWithRetry flaky_api (group_config\<lparr> fetchMaxRetries := - 1 \<rparr>) [] 1000000 =
     Some (0, [], map fetch_backoff [0..<1000000], Inr (demo_message 0)) \<and>
   sum_list (map (max 0) (map fetch_backoff [0..<1000000])) \<le> 1141 * 1000000000"
proof -
  have f: "fetchWithRetry flaky_api (group_config\<lparr> fetchMaxRetries := - 1 \<rparr>) [] 1000000 =
     Some (0, [], map fetch_backoff [0..<1000000], Inr (demo_message 0))"
    unfolding fetchWithRetry_def kafkaSourceConfig.select_convs kafkaSourceConfig.update_convs
    using flaky_fetch [of 0 "[]" 1000000] by (simp del: upt_conv_Cons upt_rec_numeral)
  show ?thesis using f fetch_backoff_vanishes [OF f] by blast
qed

end
