(* ===== verification/Barrier_Inject.thy ===== *)
theory Barrier_Inject
  imports Go_Json Checkpoint_Coord
begin

text \<open>
  The engine's side of a checkpoint (\<open>mailer.go\<close>): the goroutine that injects barriers behind the source
  and records the aligned offsets of each, the registration of these offsets with the coordinator or in
  the engine's own map, the snapshots that arrive while a barrier passes through the operators, and the
  detection of the barrier in front of the sink. The select loops are functions of the events they
  receive, in the order the scheduler picked them. The lemmas say that the offsets registered for a barrier
  are the positions behind the records in front of it, and that the injector loses and reorders nothing.
\<close>

subsection \<open>Aligned offsets\<close>

record engine =
  env_coord :: "Coordinator option"
  pendingOffsets :: "(bytes, bytes) gomap"
  barrierSnaps :: "(bytes, (bytes, bytes) gomap) gomap"

definition registerAlignedOffsets :: "bytes \<Rightarrow> (int, int) gomap \<Rightarrow> engine \<Rightarrow> engine" where
  "registerAlignedOffsets cid offs env =
     (let data = marshal_offsets offs in
      case env_coord env of
        Some co \<Rightarrow> env\<lparr> env_coord := Some (OnBarrierInjected cid data co) \<rparr>
      | None \<Rightarrow> env\<lparr> pendingOffsets := map_put cid data (pendingOffsets env) \<rparr>)"

definition takeAlignedOffsets :: "bytes \<Rightarrow> engine \<Rightarrow> engine \<times> bytes option" where
  "takeAlignedOffsets cid env =
     (case map_of (pendingOffsets env) cid of
        None \<Rightarrow> (env, None)
      | Some data \<Rightarrow> (env\<lparr> pendingOffsets := map_del cid (pendingOffsets env) \<rparr>, Some data))"

text \<open>The offsets an identifier stands for, wherever they are kept.\<close>

definition registered :: "engine \<Rightarrow> bytes \<Rightarrow> bytes option" where
  "registered env cid =
     (case env_coord env of
        None \<Rightarrow> map_of (pendingOffsets env) cid
      | Some co \<Rightarrow> Option.bind (map_of (pending co) cid) offsets)"

subsection \<open>The injector\<close>

record injector =
  inj_env :: engine
  inj_offsets :: "(int, int) gomap"
  checkpointID :: nat
  inj_out :: "Record list"

text \<open>
  One iteration of the loop: a record of the source, the end of the source, the ticker, or the end of the
  context with the records that were drained after it. The flags tell whether the consumer accepted
  what was sent; a refusal is the forced shutdown.
\<close>

datatype inject_event =
    Incoming Record (forwarded: bool)
  | SourceEnd (forwarded: bool)
  | TickerFired (forwarded: bool)
  | ShutDown (forwarded: bool) (drained: "(Record \<times> bool) list")

definition mkID :: "int \<Rightarrow> nat \<Rightarrow> string \<Rightarrow> bytes" where
  "mkID runNonce n suffix = ''cp-'' @ int_text runNonce @ ''-'' @ nat_text n @ suffix"

definition advance :: "Record \<Rightarrow> (int, int) gomap \<Rightarrow> (int, int) gomap" where
  "advance r offs =
     (if \<not> IsWatermark r \<and> \<not> IsBarrier r then map_put (Partition r) (i64 (Offset r + 1)) offs else offs)"

definition pass_on :: "Record \<Rightarrow> bool \<Rightarrow> injector \<Rightarrow> injector" where
  "pass_on r ok s = (if ok then s\<lparr> inj_out := inj_out s @ [r] \<rparr> else s)"

definition inject_barrier :: "int \<Rightarrow> string \<Rightarrow> bool \<Rightarrow> injector \<Rightarrow> injector" where
  "inject_barrier runNonce suffix ok s =
     (let n = Suc (checkpointID s); cid = mkID runNonce n suffix
      in pass_on (NewBarrier cid) ok
           (s\<lparr> checkpointID := n, inj_env := registerAlignedOffsets cid (inj_offsets s) (inj_env s) \<rparr>))"

definition inject_record :: "Record \<Rightarrow> bool \<Rightarrow> injector \<Rightarrow> injector" where
  "inject_record r ok s = pass_on r ok (s\<lparr> inj_offsets := advance r (inj_offsets s) \<rparr>)"

fun drain_source :: "(Record \<times> bool) list \<Rightarrow> injector \<Rightarrow> injector" where
  "drain_source [] s = s"
| "drain_source ((r, ok) # rs) s = (let s' = inject_record r ok s in if ok then drain_source rs s' else s')"

fun injectBarriers :: "int \<Rightarrow> inject_event list \<Rightarrow> injector \<Rightarrow> injector" where
  "injectBarriers runNonce [] s = s"
| "injectBarriers runNonce (Incoming r ok # es) s =
     (let s' = inject_record r ok s in if ok then injectBarriers runNonce es s' else s')"
| "injectBarriers runNonce (SourceEnd ok # es) s = inject_barrier runNonce ''-final'' ok s"
| "injectBarriers runNonce (TickerFired ok # es) s =
     (let s' = inject_barrier runNonce [] ok s in if ok then injectBarriers runNonce es s' else s')"
| "injectBarriers runNonce (ShutDown ok rs # es) s =
     (let s' = inject_barrier runNonce ''-shutdown'' ok s in if ok then drain_source rs s' else s')"

text \<open>The injector starts with no offsets, whatever the source was restored to.\<close>

definition new_injector :: "engine \<Rightarrow> injector" where
  "new_injector env = \<lparr> inj_env = env, inj_offsets = [], checkpointID = 0, inj_out = [] \<rparr>"

subsection \<open>Snapshots on the way\<close>

definition addBarrierSnapshot ::
  "(bytes \<times> (bytes, bytes) gomap) range_ord \<Rightarrow> bytes \<Rightarrow> bytes \<Rightarrow> bytes \<Rightarrow> engine \<Rightarrow> engine" where
  "addBarrierSnapshot ord cid k snap env =
     (let m0 = barrierSnaps env;
          m1 = (case map_of m0 cid of
                  Some s \<Rightarrow> m0
                | None \<Rightarrow>
                    (let m' = (if length m0 > 8
                               then (case filter (\<lambda>(stale, s). stale \<noteq> cid) (visit ord m0) of
                                       [] \<Rightarrow> m0 | (stale, s) # rest \<Rightarrow> map_del stale m0)
                               else m0)
                     in map_put cid [] m'))
      in env\<lparr> barrierSnaps := map_put cid (map_put k snap (case map_of m1 cid of Some s \<Rightarrow> s | None \<Rightarrow> [])) m1 \<rparr>)"

definition takeBarrierSnapshots :: "bytes \<Rightarrow> engine \<Rightarrow> engine \<times> (bytes, bytes) gomap" where
  "takeBarrierSnapshots cid env =
     (env\<lparr> barrierSnaps := map_del cid (barrierSnaps env) \<rparr>,
      case map_of (barrierSnaps env) cid of Some s \<Rightarrow> s | None \<Rightarrow> [])"

subsection \<open>Detection in front of the sink\<close>

text \<open>The callback runs before the barrier is forwarded; a refused send ends the loop.\<close>

fun barrierDetect :: "(bytes \<Rightarrow> 'e \<Rightarrow> 'e) \<Rightarrow> (Record \<times> bool) list \<Rightarrow> 'e \<Rightarrow> 'e \<times> Record list" where
  "barrierDetect save [] e = (e, [])"
| "barrierDetect save ((r, ok) # rs) e =
     (let e' = (if IsBarrier r then save (CheckpointID r) e else e) in
      if ok then (let (e'', out) = barrierDetect save rs e' in (e'', r # out)) else (e', []))"

subsection \<open>The offsets of a barrier\<close>

text \<open>The last data record of a partition in a stream.\<close>

definition last_record :: "int \<Rightarrow> Record list \<Rightarrow> Record option" where
  "last_record p xs = (let rs = filter (\<lambda>r. is_data r \<and> Partition r = p) xs in if rs = [] then None else Some (last rs))"

abbreviation aligned :: "Record list \<Rightarrow> (int, int) gomap" where
  "aligned xs \<equiv> fold advance xs []"

lemma last_record_simps [simp]:
  "last_record p [] = None"
  "last_record p (xs @ [r]) = (if is_data r \<and> Partition r = p then Some r else last_record p xs)"
  by (simp_all add: last_record_def Let_def)

lemma aligned_lookup: "map_of (aligned xs) p = map_option (\<lambda>r. i64 (Offset r + 1)) (last_record p xs)"
  by (induction xs rule: rev_induct) (auto simp: advance_def is_data_def)

lemma aligned_wf: "map_wf (aligned xs)"
  by (induction xs rule: rev_induct) (auto simp: advance_def)

lemma aligned_values: "v \<in> snd ` set (aligned xs) \<Longrightarrow> in_i64 v"
proof -
  assume "v \<in> snd ` set (aligned xs)"
  then obtain p where "(p, v) \<in> set (aligned xs)" by force
  then have "map_of (aligned xs) p = Some v" using aligned_wf by (simp add: map_of_is_SomeI)
  then show ?thesis by (auto simp: aligned_lookup)
qed

lemma registered_register:
  "registered (registerAlignedOffsets cid offs env) cid' = (if cid' = cid then Some (marshal_offsets offs) else registered env cid')"
  by (simp add: registered_def registerAlignedOffsets_def OnBarrierInjected_def Let_def split: option.splits)

lemma mkID_inj:
  assumes "mkID nonce n s = mkID nonce m t" "s = [] \<or> hd s = CHR ''-''" "t = [] \<or> hd t = CHR ''-''"
  shows "n = m"
proof -
  have "takeWhile is_digit (nat_text k @ u) = nat_text k" if "u = [] \<or> hd u = CHR ''-''" for k u
    by (rule digits_span(1) [OF nat_text_all]) (use that in \<open>auto simp: is_digit_code\<close>)
  then have "nat_text n = nat_text m" using assms by (metis append_same_eq mkID_def same_append_eq)
  then show ?thesis by simp
qed

text \<open>
  While the loop runs, the offsets are those of the records that were passed on, and each barrier that was
  passed on has the offsets of the records in front of it.
\<close>

definition barrier_id :: "int \<Rightarrow> nat \<Rightarrow> bytes \<Rightarrow> bool" where
  "barrier_id nonce n cid \<longleftrightarrow> (\<exists>k\<le>n. \<exists>suffix. (suffix = [] \<or> hd suffix = CHR ''-'') \<and> cid = mkID nonce k suffix)"

definition barriers_aligned :: "int \<Rightarrow> injector \<Rightarrow> bool" where
  "barriers_aligned nonce s \<longleftrightarrow> (\<forall>xs b ys. inj_out s = xs @ b # ys \<and> IsBarrier b \<longrightarrow>
     barrier_id nonce (checkpointID s) (CheckpointID b) \<and> registered (inj_env s) (CheckpointID b) = Some (marshal_offsets (aligned xs)))"

lemma barriers_alignedD:
  "barriers_aligned nonce s \<Longrightarrow> inj_out s = xs @ b # ys \<Longrightarrow> IsBarrier b \<Longrightarrow>
    barrier_id nonce (checkpointID s) (CheckpointID b) \<and> registered (inj_env s) (CheckpointID b) = Some (marshal_offsets (aligned xs))"
  unfolding barriers_aligned_def by blast

lemma barriers_aligned_keeps:
  assumes "barriers_aligned nonce s" "inj_out s' = inj_out s"
    "\<And>cid. barrier_id nonce (checkpointID s) cid \<Longrightarrow> barrier_id nonce (checkpointID s') cid \<and> registered (inj_env s') cid = registered (inj_env s) cid"
  shows "barriers_aligned nonce s'"
  unfolding barriers_aligned_def
proof (intro allI impI)
  fix xs b ys
  assume "inj_out s' = xs @ b # ys \<and> IsBarrier b"
  then have "barrier_id nonce (checkpointID s) (CheckpointID b) \<and> registered (inj_env s) (CheckpointID b) = Some (marshal_offsets (aligned xs))"
    using barriers_alignedD [OF assms(1)] assms(2) by simp
  then show "barrier_id nonce (checkpointID s') (CheckpointID b) \<and> registered (inj_env s') (CheckpointID b) = Some (marshal_offsets (aligned xs))"
    using assms(3) by simp
qed

lemma split_snoc: "zs @ [r] = xs @ b # ys \<longleftrightarrow> (ys = [] \<and> xs = zs \<and> b = r) \<or> (\<exists>ys'. ys = ys' @ [r] \<and> zs = xs @ b # ys')"
  by (cases ys rule: rev_cases) auto

lemma barriers_aligned_snoc:
  assumes "barriers_aligned nonce s"
    "IsBarrier r \<Longrightarrow> barrier_id nonce (checkpointID s) (CheckpointID r) \<and> registered (inj_env s) (CheckpointID r) = Some (marshal_offsets (aligned (inj_out s)))"
  shows "barriers_aligned nonce (s\<lparr> inj_out := inj_out s @ [r] \<rparr>)"
  unfolding barriers_aligned_def
proof (intro allI impI)
  fix xs b ys
  assume "inj_out (s\<lparr> inj_out := inj_out s @ [r] \<rparr>) = xs @ b # ys \<and> IsBarrier b"
  then consider "xs = inj_out s" "b = r" "IsBarrier r" | ys' where "inj_out s = xs @ b # ys'" "IsBarrier b"
    by (auto simp: split_snoc)
  then show "barrier_id nonce (checkpointID (s\<lparr> inj_out := inj_out s @ [r] \<rparr>)) (CheckpointID b) \<and>
      registered (inj_env (s\<lparr> inj_out := inj_out s @ [r] \<rparr>)) (CheckpointID b) = Some (marshal_offsets (aligned xs))"
  proof cases
    case 1
    then show ?thesis using assms(2) by simp
  next
    case (2 ys')
    then show ?thesis using barriers_alignedD [OF assms(1) 2] by simp
  qed
qed

lemma record_aligned:
  assumes "barriers_aligned nonce s" "inj_offsets s = aligned (inj_out s)" "\<not> IsBarrier r"
  shows "barriers_aligned nonce (inject_record r ok s)"
    "ok \<Longrightarrow> inj_offsets (inject_record r ok s) = aligned (inj_out (inject_record r ok s))"
proof -
  let ?s = "s\<lparr> inj_offsets := advance r (inj_offsets s) \<rparr>"
  have "barriers_aligned nonce ?s" by (rule barriers_aligned_keeps [OF assms(1)]) simp_all
  then show "barriers_aligned nonce (inject_record r ok s)"
    using barriers_aligned_snoc [of nonce ?s r] assms(3) by (simp add: inject_record_def pass_on_def)
  show "ok \<Longrightarrow> inj_offsets (inject_record r ok s) = aligned (inj_out (inject_record r ok s))"
    using assms(2) by (simp add: inject_record_def pass_on_def)
qed

lemma barrier_aligned:
  assumes "barriers_aligned nonce s" "inj_offsets s = aligned (inj_out s)" "suffix = [] \<or> hd suffix = CHR ''-''"
  shows "barriers_aligned nonce (inject_barrier nonce suffix ok s)"
    "inj_offsets (inject_barrier nonce suffix ok s) = aligned (inj_out (inject_barrier nonce suffix ok s))"
proof -
  let ?n = "Suc (checkpointID s)"
  let ?cid = "mkID nonce ?n suffix"
  let ?s = "s\<lparr> checkpointID := ?n, inj_env := registerAlignedOffsets ?cid (inj_offsets s) (inj_env s) \<rparr>"
  have fresh: "\<not> barrier_id nonce (checkpointID s) ?cid"
    unfolding barrier_id_def using mkID_inj [OF _ assms(3), of nonce ?n] by fastforce
  have up: "barrier_id nonce (checkpointID s) cid \<Longrightarrow> barrier_id nonce ?n cid" for cid
    unfolding barrier_id_def using le_SucI by blast
  have "barriers_aligned nonce ?s"
    by (rule barriers_aligned_keeps [OF assms(1)]) (use fresh up in \<open>auto simp: registered_register\<close>)
  moreover have "barrier_id nonce ?n ?cid" using assms(3) unfolding barrier_id_def by blast
  ultimately show "barriers_aligned nonce (inject_barrier nonce suffix ok s)"
    using barriers_aligned_snoc [of nonce ?s "NewBarrier ?cid"] assms(2)
    by (simp add: inject_barrier_def pass_on_def Let_def NewBarrier_def registered_register)
  show "inj_offsets (inject_barrier nonce suffix ok s) = aligned (inj_out (inject_barrier nonce suffix ok s))"
    using assms(2) by (simp add: inject_barrier_def pass_on_def Let_def advance_def NewBarrier_def)
qed

text \<open>The records of the source that the events bring to the injector and that its consumer accepts.\<close>

fun accepted_drain :: "(Record \<times> bool) list \<Rightarrow> Record list" where
  "accepted_drain [] = []"
| "accepted_drain ((r, ok) # rs) = (if ok then r # accepted_drain rs else [])"

fun accepted_records :: "inject_event list \<Rightarrow> Record list" where
  "accepted_records (Incoming r ok # es) = (if ok then r # accepted_records es else [])"
| "accepted_records (TickerFired ok # es) = (if ok then accepted_records es else [])"
| "accepted_records (ShutDown ok rs # es) = (if ok then accepted_drain rs else [])"
| "accepted_records es = []"

fun event_records :: "inject_event \<Rightarrow> Record set" where
  "event_records (Incoming r ok) = {r}"
| "event_records (ShutDown ok rs) = fst ` set rs"
| "event_records e = {}"

lemma out_simps [simp]:
  "inj_out (inject_record r ok s) = inj_out s @ (if ok then [r] else [])"
  "inj_out (inject_barrier nonce suffix ok s) = inj_out s @ (if ok then [NewBarrier (mkID nonce (Suc (checkpointID s)) suffix)] else [])"
  by (simp_all add: inject_record_def inject_barrier_def pass_on_def Let_def)

lemma drain_aligned:
  assumes "barriers_aligned nonce s" "inj_offsets s = aligned (inj_out s)" "\<forall>r\<in>fst ` set rs. \<not> IsBarrier r"
  shows "barriers_aligned nonce (drain_source rs s) \<and> inj_out (drain_source rs s) = inj_out s @ accepted_drain rs"
  using assms
proof (induction rs s rule: drain_source.induct)
  case (2 r ok rs s)
  then show ?case using record_aligned [of nonce s r ok] by (cases ok) (auto simp: Let_def)
qed simp

lemma inject_aligned:
  assumes "barriers_aligned nonce s" "inj_offsets s = aligned (inj_out s)" "\<forall>e\<in>set es. \<forall>r\<in>event_records e. \<not> IsBarrier r"
  shows "barriers_aligned nonce (injectBarriers nonce es s) \<and>
    filter (\<lambda>r. \<not> IsBarrier r) (inj_out (injectBarriers nonce es s)) = filter (\<lambda>r. \<not> IsBarrier r) (inj_out s) @ accepted_records es"
  using assms
proof (induction nonce es s rule: injectBarriers.induct)
  case (2 nonce r ok es s)
  then show ?case using record_aligned [of nonce s r ok] by (cases ok) (auto simp: Let_def)
next
  case (3 nonce ok es s)
  then show ?case using barrier_aligned [of nonce s "''-final''" ok] by (auto simp: NewBarrier_def)
next
  case (4 nonce ok es s)
  then show ?case using barrier_aligned [of nonce s "[]" ok] by (cases ok) (auto simp: Let_def NewBarrier_def)
next
  case (5 nonce ok rs es s)
  let ?s = "inject_barrier nonce ''-shutdown'' ok s"
  have b: "barriers_aligned nonce ?s" "inj_offsets ?s = aligned (inj_out ?s)"
    using barrier_aligned [of nonce s "''-shutdown''" ok] 5 by simp_all
  have r: "\<forall>r\<in>fst ` set rs. \<not> IsBarrier r" using 5 by simp
  have "filter (\<lambda>r. \<not> IsBarrier r) (accepted_drain rs) = accepted_drain rs"
    using r by (induction rs rule: accepted_drain.induct) auto
  then show ?case using drain_aligned [OF b r] b by (auto simp: Let_def NewBarrier_def)
qed simp

text \<open>
  C22. Barrier alignment. Whatever the order of records, ticks and the end of the context or of the source, the
  injector passes on the records of the source without loss or reordering, and for every barrier it injects
  the offsets registered under the barrier's identifier, with the coordinator or in the engine's own
  map, give for each partition the position behind its last record in front of the barrier, and nothing
  for a partition with no record in front of it.
\<close>

theorem barriers_carry_aligned_offsets:
  assumes "\<forall>e\<in>set es. \<forall>r\<in>event_records e. \<not> IsBarrier r" "s = injectBarriers nonce es (new_injector env)"
    "inj_out s = xs @ b # ys" "IsBarrier b"
  shows "filter (\<lambda>r. \<not> IsBarrier r) (inj_out s) = accepted_records es \<and>
    (\<exists>offs. registered (inj_env s) (CheckpointID b) = Some (marshal_offsets offs) \<and>
       (\<forall>p. map_of offs p = map_option (\<lambda>r. i64 (Offset r + 1)) (last_record p xs)))"
proof -
  have "barriers_aligned nonce (new_injector env)" "inj_offsets (new_injector env) = aligned (inj_out (new_injector env))"
    by (simp_all add: barriers_aligned_def new_injector_def)
  note i = inject_aligned [OF this assms(1)]
  have "registered (inj_env s) (CheckpointID b) = Some (marshal_offsets (aligned xs))"
    using barriers_alignedD [OF conjunct1 [OF i]] assms(2-4) by blast
  then show ?thesis using i assms(2) aligned_lookup [of xs] by (auto simp: new_injector_def)
qed

definition no_engine :: engine where
  "no_engine = \<lparr> env_coord = None, pendingOffsets = [], barrierSnaps = [] \<rparr>"

definition demo_record :: "int \<Rightarrow> int \<Rightarrow> Record" where
  "demo_record p off = (NewRecord 1 ''k'' ''v'')\<lparr> Partition := p, Offset := off \<rparr>"

theorem barriers_carry_aligned_offsets_witness:
  "filter (\<lambda>r. \<not> IsBarrier r) (inj_out (injectBarriers 9 [Incoming (demo_record 0 4) True, TickerFired True, Incoming (demo_record 0 5) True] (new_injector no_engine)))
     = [demo_record 0 4, demo_record 0 5] \<and>
   (\<exists>offs. registered (inj_env (injectBarriers 9 [Incoming (demo_record 0 4) True, TickerFired True, Incoming (demo_record 0 5) True] (new_injector no_engine)))
       (mkID 9 1 []) = Some (marshal_offsets offs) \<and> map_of offs 0 = Some 5)"
proof -
  let ?es = "[Incoming (demo_record 0 4) True, TickerFired True, Incoming (demo_record 0 5) True]"
  have d: "\<not> IsBarrier (demo_record p off)" "is_data (demo_record p off)" "Partition (demo_record p off) = p" "Offset (demo_record p off) = off" for p off
    by (simp_all add: demo_record_def NewRecord_def zeroRecord_def is_data_def)
  have out: "inj_out (injectBarriers 9 ?es (new_injector no_engine)) = [demo_record 0 4] @ NewBarrier (mkID 9 1 []) # [demo_record 0 5]"
    by (simp add: new_injector_def Let_def inject_record_def pass_on_def)
  have b: "IsBarrier (NewBarrier (mkID 9 1 []))" "CheckpointID (NewBarrier (mkID 9 1 [])) = mkID 9 1 []" by (simp_all add: NewBarrier_def)
  have l: "last_record 0 [demo_record 0 4] = Some (demo_record 0 4)" using last_record_simps(2) [of 0 "[]"] d by simp
  have "i64 5 = 5" by (simp add: i64_def)
  then show ?thesis
    using barriers_carry_aligned_offsets [OF _ refl out b(1)] b(2) l d by auto
qed

end
