(* ===== verification/Source_Resume.thy ===== *)
theory Source_Resume
  imports Kafka_Source_Proofs Barrier_Inject
begin

text \<open>
  The Kafka source in parallel mode together with the engine's barriers: the offsets that the injector
  registers for a barrier, restored into a new source, let its partition readers go on behind the last
  record in front of the barrier. The behaviour of the client's readers is a named hypothesis over a log
  of messages per partition.
\<close>

subsection \<open>The documented reader\<close>

text \<open>
  \<open>log p\<close>: the messages of partition \<open>p\<close>; \<open>pos r\<close>: the partition of a reader and the next offset it reads.
  A new reader without a group starts at the first offset when it is asked to, \<open>SetOffset\<close> moves it,
  \<open>FetchMessage\<close> returns the next message at or behind its position and moves past it.
\<close>

definition next_message :: "kafka_message list \<Rightarrow> int \<Rightarrow> kafka_message \<Rightarrow> bool" where
  "next_message ms n m \<longleftrightarrow> m \<in> set ms \<and> n \<le> mOffset m \<and> (\<forall>m'\<in>set ms. n \<le> mOffset m' \<longrightarrow> mOffset m \<le> mOffset m')"

definition topic_log :: "(int \<Rightarrow> kafka_message list) \<Rightarrow> bool" where
  "topic_log log \<longleftrightarrow> (\<forall>p. sorted_wrt (\<lambda>a b. mOffset a < mOffset b) (log p) \<and>
     (\<forall>m\<in>set (log p). mPartition m = p \<and> in_i64 p \<and> 0 \<le> mOffset m \<and> mOffset m < 2 ^ 63 - 1))"

definition documented_reader ::
  "'r kafka_api \<Rightarrow> (int \<Rightarrow> kafka_message list) \<Rightarrow> ('r \<Rightarrow> int \<times> int) \<Rightarrow> bool" where
  "documented_reader api log pos \<longleftrightarrow>
     (\<forall>rc. rc_GroupID rc = [] \<and> rc_StartOffset rc = FirstOffset \<longrightarrow> pos (NewReader api rc) = (rc_Partition rc, 0)) \<and>
     (\<forall>r off. fst (pos (fst (SetOffset api off r))) = fst (pos r) \<and>
        (0 \<le> off \<longrightarrow> pos (fst (SetOffset api off r)) = (fst (pos r), off))) \<and>
     (\<forall>r r' e. FetchMessage api r = (r', Inl e) \<longrightarrow> pos r' = pos r) \<and>
     (\<forall>r r' m. FetchMessage api r = (r', Inr m) \<longrightarrow>
        next_message (log (fst (pos r))) (snd (pos r)) m \<and> pos r' = (fst (pos r), mOffset m + 1))"

lemma fetch_loop_moves:
  assumes "fetch_loop api n attempt err cs r = Some y" "documented_reader api log pos"
  shows "case snd (snd (snd y)) of Inl e \<Rightarrow> pos (fst y) = pos r
    | Inr m \<Rightarrow> next_message (log (fst (pos r))) (snd (pos r)) m \<and> pos (fst y) = (fst (pos r), mOffset m + 1)"
  using assms(1)
proof (induction rule: fetch_loop_induct)
  case (waited attempt r r' e r2 cs ws res)
  have "pos r' = pos r" using assms(2) waited(1) unfolding documented_reader_def by blast
  then show ?case using waited by (cases res) simp_all
next
  case (again attempt r r' e z)
  have "pos r' = pos r" using assms(2) again(1) unfolding documented_reader_def by blast
  then show ?case using again by (cases "snd (snd (snd z))") simp_all
next
  case (cancelled attempt cs r r' e)
  then show ?case using assms(2) unfolding documented_reader_def by auto
next
  case (got attempt cs r r' m)
  then show ?case using assms(2) unfolding documented_reader_def by auto
qed simp

subsection \<open>Segments of a partition\<close>

definition of_part :: "int \<Rightarrow> Record list \<Rightarrow> Record list" where
  "of_part p = filter (\<lambda>r. Partition r = p)"

text \<open>The records of the messages of a partition from one offset up to another, and from an offset on.\<close>

definition between :: "kafkaSourceConfig \<Rightarrow> kafka_message list \<Rightarrow> int \<Rightarrow> int \<Rightarrow> Record list" where
  "between c ms lo hi = List.map_filter (record_of c) (filter (\<lambda>m. lo \<le> mOffset m \<and> mOffset m < hi) ms)"

definition records_from :: "kafkaSourceConfig \<Rightarrow> kafka_message list \<Rightarrow> int \<Rightarrow> Record list" where
  "records_from c ms lo = List.map_filter (record_of c) (filter (\<lambda>m. lo \<le> mOffset m) ms)"

lemma record_of_fields: "record_of c m = Some r \<Longrightarrow> Partition r = mPartition m \<and> Offset r = mOffset m \<and> is_data r"
  by (auto simp: record_of_def toRecord_def KafkaToRecord_def zeroRecord_def is_data_def Let_def split: option.splits sum.splits)

abbreviation ascending :: "kafka_message list \<Rightarrow> bool" where
  "ascending ms \<equiv> sorted_wrt (\<lambda>a b. mOffset a < mOffset b) ms"

lemma filter_split:
  assumes "ascending ms" "lo \<le> mid"
  shows "filter (\<lambda>m. lo \<le> mOffset m) ms = filter (\<lambda>m. lo \<le> mOffset m \<and> mOffset m < mid) ms @ filter (\<lambda>m. mid \<le> mOffset m) ms"
  using assms
proof (induction ms)
  case (Cons m ms)
  show ?case
  proof (cases "mOffset m < mid")
    case False
    then have "\<forall>x\<in>set ms. mid \<le> mOffset x" using Cons.prems by force
    then have "filter (\<lambda>m. lo \<le> mOffset m \<and> mOffset m < mid) ms = []" by (auto simp: filter_empty_conv)
    then show ?thesis using Cons False by auto
  qed (use Cons in auto)
qed simp

lemma records_from_split: "ascending ms \<Longrightarrow> lo \<le> mid \<Longrightarrow> records_from c ms lo = between c ms lo mid @ records_from c ms mid"
  unfolding records_from_def between_def by (subst filter_split) (simp_all add: map_filter_append)

lemma between_split:
  assumes "ascending ms" "lo \<le> mid" "mid \<le> hi"
  shows "between c ms lo hi = between c ms lo mid @ between c ms mid hi"
proof -
  have "filter (\<lambda>m. lo \<le> mOffset m \<and> mOffset m < hi) ms = filter (\<lambda>m. lo \<le> mOffset m) (filter (\<lambda>m. mOffset m < hi) ms)"
    by (simp add: conj_commute)
  also have "\<dots> = filter (\<lambda>m. lo \<le> mOffset m \<and> mOffset m < mid) (filter (\<lambda>m. mOffset m < hi) ms) @ filter (\<lambda>m. mid \<le> mOffset m) (filter (\<lambda>m. mOffset m < hi) ms)"
    by (rule filter_split) (use assms in \<open>auto intro: sorted_wrt_filter\<close>)
  also have "filter (\<lambda>m. lo \<le> mOffset m \<and> mOffset m < mid) (filter (\<lambda>m. mOffset m < hi) ms) = filter (\<lambda>m. lo \<le> mOffset m \<and> mOffset m < mid) ms"
    using assms(3) by (auto intro: filter_cong)
  finally show ?thesis by (simp add: between_def map_filter_append conj_commute)
qed

lemma between_next:
  assumes "ascending ms" "next_message ms n m"
  shows "between c ms n (mOffset m + 1) = (case record_of c m of None \<Rightarrow> [] | Some r \<Rightarrow> [r])"
proof -
  obtain us vs where ms: "ms = us @ m # vs" using assms(2) by (metis next_message_def split_list)
  have "\<forall>x\<in>set us. mOffset x < n"
  proof
    fix x assume x: "x \<in> set us"
    then have "mOffset x < mOffset m" using assms(1) ms by (auto simp: sorted_wrt_append)
    moreover have "x \<in> set ms" using x ms by simp
    ultimately show "mOffset x < n" using assms(2) unfolding next_message_def by (meson not_less)
  qed
  moreover have "\<forall>x\<in>set vs. mOffset m < mOffset x" using assms(1) ms by (auto simp: sorted_wrt_append)
  ultimately have "filter (\<lambda>x. n \<le> mOffset x \<and> mOffset x < mOffset m + 1) us = []"
    "filter (\<lambda>x. n \<le> mOffset x \<and> mOffset x < mOffset m + 1) vs = []"
    by (force simp: filter_empty_conv)+
  then have "filter (\<lambda>x. n \<le> mOffset x \<and> mOffset x < mOffset m + 1) ms = [m]"
    using assms(2) unfolding ms next_message_def by simp
  then show ?thesis by (simp add: between_def map_filter_Cons split: option.splits)
qed

lemma between_extend:
  assumes "ascending ms" "next_message ms n m" "lo \<le> n"
  shows "between c ms lo (mOffset m + 1) = between c ms lo n @ (case record_of c m of None \<Rightarrow> [] | Some r \<Rightarrow> [r])"
  using between_split [OF assms(1,3), of "mOffset m + 1" c] between_next [OF assms(1,2), of c] assms(2)
  by (simp add: next_message_def)

subsection \<open>A run of the parallel source\<close>

definition start_offset :: "(int, int) gomap \<Rightarrow> int \<Rightarrow> int" where
  "start_offset R p = (case map_of R p of None \<Rightarrow> 0 | Some off \<Rightarrow> off)"

definition delivers ::
  "kafkaSourceConfig \<Rightarrow> (int \<Rightarrow> kafka_message list) \<Rightarrow> ('r \<Rightarrow> int \<times> int) \<Rightarrow> (int, int) gomap \<Rightarrow> int \<Rightarrow> 'r partitionManager \<Rightarrow> bool" where
  "delivers c log pos R p m \<longleftrightarrow>
     (\<forall>(q, r) \<in> set (running m) \<union> set (leaving m). fst (pos r) = q) \<and> map_wf (running m) \<and>
     p \<notin> fst ` set (leaving m) \<and> restored (ks_offsets (msource m)) = R \<and>
     (\<exists>r n. map_of (running m) p = Some r \<and> start_offset R p \<le> n \<and> (p \<notin> ended m \<longrightarrow> pos r = (p, n)) \<and>
        of_part p (emitted (trace (msource m))) = between c (log p) (start_offset R p) n)"

lemma deliversE:
  assumes "delivers c log pos R p m"
  obtains r n where "map_of (running m) p = Some r" "start_offset R p \<le> n" "p \<notin> ended m \<longrightarrow> pos r = (p, n)"
    "of_part p (emitted (trace (msource m))) = between c (log p) (start_offset R p) n"
  using assms unfolding delivers_def by blast

lemma deliversD:
  assumes "delivers c log pos R p m"
  shows "(q, r) \<in> set (running m) \<Longrightarrow> fst (pos r) = q" "(q, r) \<in> set (leaving m) \<Longrightarrow> fst (pos r) = q"
    "map_wf (running m)" "p \<notin> fst ` set (leaving m)" "restored (ks_offsets (msource m)) = R"
  using assms unfolding delivers_def by blast+

lemma deliversI:
  assumes "\<And>q r. (q, r) \<in> set (running m) \<Longrightarrow> fst (pos r) = q" "\<And>q r. (q, r) \<in> set (leaving m) \<Longrightarrow> fst (pos r) = q"
    "map_wf (running m)" "p \<notin> fst ` set (leaving m)" "restored (ks_offsets (msource m)) = R"
    "map_of (running m) p = Some r" "start_offset R p \<le> n" "p \<notin> ended m \<Longrightarrow> pos r = (p, n)"
    "of_part p (emitted (trace (msource m))) = between c (log p) (start_offset R p) n"
  shows "delivers c log pos R p m"
  using assms unfolding delivers_def by blast

lemma deliver_next_moves:
  assumes "deliver_next api c r s = Some (r', s', d)" "documented_reader api log pos" "topic_log log"
  shows "fst (pos r') = fst (pos r)" "restored (ks_offsets s') = restored (ks_offsets s)"
    "q \<noteq> fst (pos r) \<Longrightarrow> of_part q (emitted (trace s')) = of_part q (emitted (trace s))"
    "\<exists>e. d = Stopped e \<Longrightarrow> emitted (trace s') = emitted (trace s)"
    "\<nexists>e. d = Stopped e \<Longrightarrow> pos r = (p, n) \<Longrightarrow> lo \<le> n \<Longrightarrow> of_part p (emitted (trace s)) = between c (log p) lo n \<Longrightarrow>
      \<exists>n'\<ge>lo. pos r' = (p, n') \<and> of_part p (emitted (trace s')) = between c (log p) lo n'"
proof -
  let ?concl = "fst (pos r') = fst (pos r) \<and> restored (ks_offsets s') = restored (ks_offsets s) \<and>
    (q \<noteq> fst (pos r) \<longrightarrow> of_part q (emitted (trace s')) = of_part q (emitted (trace s))) \<and>
    ((\<exists>e. d = Stopped e) \<longrightarrow> emitted (trace s') = emitted (trace s)) \<and>
    ((\<nexists>e. d = Stopped e) \<longrightarrow> pos r = (p, n) \<longrightarrow> lo \<le> n \<longrightarrow> of_part p (emitted (trace s)) = between c (log p) lo n \<longrightarrow>
      (\<exists>n'\<ge>lo. pos r' = (p, n') \<and> of_part p (emitted (trace s')) = between c (log p) lo n'))"
  have asc: "ascending (log x)" for x using assms(3) by (simp add: topic_log_def)
  have mv: "next_message (log (fst (pos r))) (snd (pos r)) m \<and> pos r' = (fst (pos r), mOffset m + 1) \<and> mPartition m = fst (pos r)"
    if "fetchWithRetry api c cs r = Some (r', cs', ws, Inr m)" for cs cs' ws m
  proof -
    have "next_message (log (fst (pos r))) (snd (pos r)) m \<and> pos r' = (fst (pos r), mOffset m + 1)"
      using fetch_loop_moves [OF that [unfolded fetchWithRetry_def] assms(2)] by simp
    moreover from this have "mPartition m = fst (pos r)" using assms(3) by (auto simp: next_message_def topic_log_def)
    ultimately show ?thesis by blast
  qed
  have st: "pos r' = pos r" if "fetchWithRetry api c cs r = Some (r', cs', ws, Inl e)" for cs cs' ws e
    using fetch_loop_moves [OF that [unfolded fetchWithRetry_def] assms(2)] by simp
  from assms(1) have ?concl
  proof (cases rule: deliver_nextE)
    case (stopped cs ws e)
    then show ?thesis using st by simp
  next
    case (skipped cs ws m dead)
    have "emitted (trace s') = emitted (trace s)" "restored (ks_offsets s') = restored (ks_offsets s)"
      using skipped by (auto simp: track_def split: option.splits)
    moreover have "between c (log p) lo (mOffset m + 1) = between c (log p) lo n \<and> lo \<le> mOffset m + 1"
      if "pos r = (p, n)" "lo \<le> n"
      using between_extend [OF asc, of p n m lo c] mv [OF skipped(1)] that skipped(3) by (auto simp: next_message_def)
    ultimately show ?thesis using mv [OF skipped(1)] skipped(2) by auto
  next
    case (cancelled cs cs' ws m)
    then show ?thesis using mv [OF cancelled(1)] by (simp add: track_def)
  next
    case (delivered cs cs' ws m rec)
    have e: "emitted (trace s') = emitted (trace s) @ [rec]" "restored (ks_offsets s') = restored (ks_offsets s)"
      using delivered by (auto simp: track_def)
    have pr: "Partition rec = fst (pos r)" using record_of_fields [OF delivered(3)] mv [OF delivered(1)] by simp
    have "between c (log p) lo (mOffset m + 1) = between c (log p) lo n @ [rec] \<and> lo \<le> mOffset m + 1"
      if "pos r = (p, n)" "lo \<le> n"
      using between_extend [OF asc, of p n m lo c] mv [OF delivered(1)] that delivered(3) by (auto simp: next_message_def)
    then show ?thesis using mv [OF delivered(1)] e pr delivered(2) by (auto simp: of_part_def)
  qed
  then show "fst (pos r') = fst (pos r)" "restored (ks_offsets s') = restored (ks_offsets s)"
    "q \<noteq> fst (pos r) \<Longrightarrow> of_part q (emitted (trace s')) = of_part q (emitted (trace s))"
    "\<exists>e. d = Stopped e \<Longrightarrow> emitted (trace s') = emitted (trace s)"
    "\<nexists>e. d = Stopped e \<Longrightarrow> pos r = (p, n) \<Longrightarrow> lo \<le> n \<Longrightarrow> of_part p (emitted (trace s)) = between c (log p) lo n \<Longrightarrow>
      \<exists>n'\<ge>lo. pos r' = (p, n') \<and> of_part p (emitted (trace s')) = between c (log p) lo n'"
    by blast+
qed

lemma start_missing_keeps:
  assumes "map_wf readers"
  shows "map_wf (fold (start_missing api c t) ids readers) \<and>
    (\<forall>q r. map_of readers q = Some r \<longrightarrow> map_of (fold (start_missing api c t) ids readers) q = Some r) \<and>
    (\<forall>q r. map_of (fold (start_missing api c t) ids readers) q = Some r \<longrightarrow> map_of readers q = Some r \<or> r = startReader api c t q) \<and>
    (\<forall>q\<in>set ids. map_of (fold (start_missing api c t) ids readers) q \<noteq> None)"
  using assms
proof (induction ids arbitrary: readers)
  case (Cons i ids)
  let ?r = "start_missing api c t i readers"
  have w: "map_wf ?r" using Cons.prems by (simp add: start_missing_def)
  have a: "map_of readers q = Some r \<Longrightarrow> map_of ?r q = Some r" for q r by (auto simp: start_missing_def)
  have b: "map_of ?r q = Some r \<Longrightarrow> map_of readers q = Some r \<or> r = startReader api c t q" for q r
    by (auto simp: start_missing_def split: if_splits)
  obtain x where i: "map_of ?r i = Some x" by (cases "map_of readers i") (simp_all add: start_missing_def)
  note IH = Cons.IH [OF w]
  have "map_of (fold (start_missing api c t) ids ?r) q \<noteq> None" if "q \<in> set (i # ids)" for q
  proof (cases "q = i")
    case True
    have "map_of (fold (start_missing api c t) ids ?r) i = Some x" using IH i by blast
    then show ?thesis using True by simp
  next
    case False
    then have "q \<in> set ids" using that by simp
    then show ?thesis using IH by blast
  qed
  moreover have "\<forall>q r. map_of (fold (start_missing api c t) ids ?r) q = Some r \<longrightarrow> map_of readers q = Some r \<or> r = startReader api c t q"
    using IH b by blast
  moreover have "\<forall>q r. map_of readers q = Some r \<longrightarrow> map_of (fold (start_missing api c t) ids ?r) q = Some r" using IH a by blast
  ultimately show ?case unfolding fold_simps using conjunct1 [OF IH] by blast
qed auto

lemma startReader_at:
  assumes "documented_reader api log pos" "offsetMode c = OffsetEarliest"
  shows "fst (pos (startReader api c t q)) = q"
    "0 \<le> start_offset (restored t) q \<Longrightarrow> pos (startReader api c t q) = (q, start_offset (restored t) q)"
proof -
  have n: "pos (buildPartitionReader api c q) = (q, 0)"
    using assms unfolding documented_reader_def buildPartitionReader_def by (simp add: toKafka_def)
  have s: "fst (pos (fst (SetOffset api off r))) = fst (pos r)" "0 \<le> off \<Longrightarrow> pos (fst (SetOffset api off r)) = (fst (pos r), off)" for off r
    using assms(1) unfolding documented_reader_def by blast+
  show "fst (pos (startReader api c t q)) = q" using n s(1) by (simp add: startReader_def Let_def split: option.splits)
  assume v: "0 \<le> start_offset (restored t) q"
  show "pos (startReader api c t q) = (q, start_offset (restored t) q)"
  proof (cases "map_of (restored t) q")
    case (Some off)
    then have "0 \<le> off" using v by (simp add: start_offset_def)
    then show ?thesis using n s(2) Some by (simp add: startReader_def restoredOffset_def start_offset_def)
  qed (use n in \<open>simp add: startReader_def restoredOffset_def start_offset_def\<close>)
qed

lemma map_of_filter_keys: "P q \<Longrightarrow> map_of (filter (\<lambda>(k, r). P k) m) q = map_of m q"
  by (induction m) auto

lemma reconcile_keeps:
  assumes "delivers c log pos R p m" "documented_reader api log pos" "offsetMode c = OffsetEarliest" "p \<in> set ids"
  shows "delivers c log pos R p (reconcile api c ids m)"
proof -
  let ?kept = "filter (\<lambda>(part, r). part \<in> set ids) (running m)"
  let ?t = "ks_offsets (msource m)"
  have wf: "map_wf ?kept" using deliversD(3) [OF assms(1)] by (rule distinct_map_filter)
  note k = start_missing_keeps [OF wf, of api c ?t ids]
  have run: "running (reconcile api c ids m) = fold (start_missing api c ?t) ids ?kept"
    "leaving (reconcile api c ids m) = leaving m @ filter (\<lambda>(part, r). part \<notin> ended m) (filter (Not \<circ> (\<lambda>(part, r). part \<in> set ids)) (running m))"
    "ended (reconcile api c ids m) = ended m - fst ` set (filter (Not \<circ> (\<lambda>(part, r). part \<in> set ids)) (running m))"
    "msource (reconcile api c ids m) = msource m"
    unfolding reconcile_def partition_filter_conv Let_def prod.case by (cases m, simp only: partitionManager.simps)+
  obtain r n where r: "map_of (running m) p = Some r" "start_offset R p \<le> n" "p \<notin> ended m \<longrightarrow> pos r = (p, n)"
    "of_part p (emitted (trace (msource m))) = between c (log p) (start_offset R p) n"
    using assms(1) by (rule deliversE)
  have kp: "map_of ?kept p = Some r" using r(1) map_of_filter_keys [of "\<lambda>q. q \<in> set ids" p "running m"] assms(4) by simp
  show ?thesis
  proof (rule deliversI [where r = r and n = n])
    fix q r'
    assume "(q, r') \<in> set (running (reconcile api c ids m))"
    then have "map_of (running (reconcile api c ids m)) q = Some r'"
      using conjunct1 [OF k] unfolding run by (simp add: map_of_is_SomeI)
    then have "map_of ?kept q = Some r' \<or> r' = startReader api c ?t q" using k unfolding run by blast
    moreover have "(q, r') \<in> set (running m)" if "map_of ?kept q = Some r'" using map_of_SomeD [OF that] by simp
    ultimately show "fst (pos r') = q" using startReader_at(1) [OF assms(2,3)] deliversD(1) [OF assms(1)] by blast
  next
    fix q r'
    assume "(q, r') \<in> set (leaving (reconcile api c ids m))"
    then show "fst (pos r') = q" using deliversD(1,2) [OF assms(1)] unfolding run by auto
  next
    show "map_wf (running (reconcile api c ids m))" using k unfolding run by blast
    show "p \<notin> fst ` set (leaving (reconcile api c ids m))" using deliversD(4) [OF assms(1)] assms(4) unfolding run by auto
    show "restored (ks_offsets (msource (reconcile api c ids m))) = R" using deliversD(5) [OF assms(1)] unfolding run .
    show "map_of (running (reconcile api c ids m)) p = Some r" using k kp unfolding run by blast
    show "pos r = (p, n)" if "p \<notin> ended (reconcile api c ids m)" using that r(3) assms(4) unfolding run by auto
    show "of_part p (emitted (trace (msource (reconcile api c ids m)))) = between c (log p) (start_offset R p) n" using r(4) unfolding run .
  qed (rule r(2))
qed

lemma turn_keeps:
  assumes "delivers c log pos R p m" "documented_reader api log pos" "topic_log log"
    "map_of (running m) part = Some r" "part \<notin> ended m" "deliver_next api c r (msource m) = Some (r', s', d)" "\<nexists>e. d = Stopped e"
  shows "delivers c log pos R p (m\<lparr> running := map_put part r' (running m), msource := s' \<rparr>)"
proof -
  note mv = deliver_next_moves [OF assms(6,2,3)]
  have pt: "fst (pos r) = part" using deliversD(1) [OF assms(1) map_of_SomeD [OF assms(4)]] .
  obtain rp n where rp: "map_of (running m) p = Some rp" "start_offset R p \<le> n" "p \<notin> ended m \<longrightarrow> pos rp = (p, n)"
    "of_part p (emitted (trace (msource m))) = between c (log p) (start_offset R p) n"
    using assms(1) by (rule deliversE)
  obtain r2 n2 where n2: "map_of (map_put part r' (running m)) p = Some r2" "start_offset R p \<le> n2" "p \<notin> ended m \<Longrightarrow> pos r2 = (p, n2)"
      "of_part p (emitted (trace s')) = between c (log p) (start_offset R p) n2"
  proof (cases "part = p")
    case True
    then have "pos r = (p, n)" using assms(4,5) rp by simp
    from mv(5) [OF assms(7) this rp(2,4)] that [of r'] True show ?thesis by auto
  next
    case False
    then show ?thesis using that [of rp n] mv(3) [of p] pt rp by simp
  qed
  show ?thesis
  proof (rule deliversI [OF _ _ _ _ _ _ n2(2)])
    fix q x
    assume "(q, x) \<in> set (running (m\<lparr> running := map_put part r' (running m), msource := s' \<rparr>))"
    then have "map_of (map_put part r' (running m)) q = Some x"
      using deliversD(3) [OF assms(1)] by (intro map_of_is_SomeI) simp_all
    then have "q = part \<and> x = r' \<or> map_of (running m) q = Some x" by (auto split: if_splits)
    then show "fst (pos x) = q" using mv(1) pt deliversD(1) [OF assms(1)] map_of_SomeD by metis
  qed (use n2 deliversD [OF assms(1)] mv(2) in simp_all)
qed

lemma manager_step_keeps:
  assumes "manager_step api c disc m m'" "delivers c log pos R p m" "documented_reader api log pos" "topic_log log"
    "offsetMode c = OffsetEarliest" "\<And>ids. disc ids \<Longrightarrow> p \<in> set ids"
  shows "delivers c log pos R p m'"
  using assms(1)
proof cases
  case (turn part r r' s' d)
  then show ?thesis using turn_keeps [OF assms(2-4)] by blast
next
  case (returned part r r' s' e)
  note mv = deliver_next_moves [OF returned(4) assms(3,4)]
  show ?thesis
    using assms(2)
  proof (rule deliversE)
    fix rp n
    assume "map_of (running m) p = Some rp" "start_offset R p \<le> n" "p \<notin> ended m \<longrightarrow> pos rp = (p, n)"
      "of_part p (emitted (trace (msource m))) = between c (log p) (start_offset R p) n"
    then show ?thesis unfolding returned(1)
      by (intro deliversI [where r = rp and n = n]) (use deliversD [OF assms(2)] mv(2,4) in simp_all)
  qed
next
  case (last_turn part r r' s' d)
  note mv = deliver_next_moves [OF last_turn(3) assms(3,4)]
  have pt: "fst (pos r) = part" "part \<noteq> p" using deliversD(2,4) [OF assms(2)] last_turn(2) by force+
  have l: "x \<in> set (leaving m)" if "x \<in> set (remove1 (part, r) (leaving m))" for x
    using that by (rule subsetD [OF set_remove1_subset])
  show ?thesis
    using assms(2)
  proof (rule deliversE)
    fix rp n
    assume a: "map_of (running m) p = Some rp" "start_offset R p \<le> n" "p \<notin> ended m \<longrightarrow> pos rp = (p, n)"
      "of_part p (emitted (trace (msource m))) = between c (log p) (start_offset R p) n"
    show ?thesis unfolding last_turn(1)
    proof (rule deliversI [where r = rp and n = n])
      fix q x
      assume "(q, x) \<in> set (leaving (m\<lparr> leaving := remove1 (part, r) (leaving m) @ (if \<exists>e. d = Stopped e then [] else [(part, r')]), msource := s' \<rparr>))"
      then have "(q, x) \<in> set (leaving m) \<or> q = part \<and> x = r'" using l by (auto split: if_splits)
      then show "fst (pos x) = q" using deliversD(2) [OF assms(2)] mv(1) pt by auto
    next
      show "p \<notin> fst ` set (leaving (m\<lparr> leaving := remove1 (part, r) (leaving m) @ (if \<exists>e. d = Stopped e then [] else [(part, r')]), msource := s' \<rparr>))"
        using deliversD(4) [OF assms(2)] l pt by (auto split: if_splits)
    qed (use a deliversD [OF assms(2)] mv(2) mv(3) [of p] pt in simp_all)
  qed
next
  case (discovered ids)
  then show ?thesis using reconcile_keeps [OF assms(2,3,5)] assms(6) by simp
qed

lemma run_delivers:
  assumes "manager_run api c disc (reconcile api c seed (newPartitionManager s)) m" "p \<in> set seed" "trace s = []"
    "0 \<le> start_offset (restored (ks_offsets s)) p" "documented_reader api log pos" "topic_log log"
    "offsetMode c = OffsetEarliest" "\<And>ids. disc ids \<Longrightarrow> p \<in> set ids"
  obtains n where "start_offset (restored (ks_offsets s)) p \<le> n"
    "of_part p (emitted (trace (msource m))) = between c (log p) (start_offset (restored (ks_offsets s)) p) n"
proof -
  let ?R = "restored (ks_offsets s)"
  let ?m0 = "reconcile api c seed (newPartitionManager s)"
  have run: "running ?m0 = fold (start_missing api c (ks_offsets s)) seed []" "leaving ?m0 = []" "msource ?m0 = s"
    by (simp_all add: reconcile_def newPartitionManager_def)
  have "map_wf []" by simp
  note k = start_missing_keeps [OF this, of api c "ks_offsets s" seed]
  have st: "r = startReader api c (ks_offsets s) q" if "map_of (running ?m0) q = Some r" for q r
    using k that unfolding run by (metis map_of.simps(1) option.distinct(1))
  have "map_of (running ?m0) p \<noteq> None" using k assms(2) unfolding run by blast
  then have p: "map_of (running ?m0) p = Some (startReader api c (ks_offsets s) p)" using st by blast
  have "delivers c log pos ?R p ?m0"
  proof (rule deliversI [OF _ _ _ _ _ p, where n = "start_offset ?R p"])
    fix q r assume "(q, r) \<in> set (running ?m0)"
    then have "map_of (running ?m0) q = Some r" using conjunct1 [OF k] unfolding run by (simp add: map_of_is_SomeI)
    then show "fst (pos r) = q" using st startReader_at(1) [OF assms(5,7)] by blast
  next
    show "map_wf (running ?m0)" using k unfolding run by blast
    show "pos (startReader api c (ks_offsets s) p) = (p, start_offset ?R p)" by (rule startReader_at(2) [OF assms(5,7,4)])
  qed (simp_all add: run between_def of_part_def assms(3))
  with assms(1) have "delivers c log pos ?R p m"
    by (induction rule: rtranclp_induct) (blast intro: manager_step_keeps [OF _ _ assms(5-8)])+
  then show ?thesis using that by (blast elim: deliversE)
qed

subsection \<open>Restoring what was registered\<close>

definition scanned :: "bytes \<times> int \<Rightarrow> int \<times> int" where
  "scanned e = ((case Sscanf_d (fst e) of Some n \<Rightarrow> n | None \<Rightarrow> 0), snd e)"

lemma restore_fold:
  "restored (fold restore_one es t) = fold (\<lambda>(k, v) acc. map_put k v acc) (map scanned es) (restored t)"
  "consumed (fold restore_one es t) = fold (\<lambda>(k, v) acc. map_put k v acc) (map scanned es) (consumed t)"
  by (induction es arbitrary: t) (simp_all add: restore_one_def scanned_def Let_def)

lemma restore_marshal:
  assumes "map_wf m" "\<forall>(p, v)\<in>set m. in_i64 p \<and> in_i64 v"
  obtains t' where "restore ord (marshal_offsets m) t = Some t'" "map_of (restored t') = map_of (restored t) ++ map_of m"
    "map_of (consumed t') = map_of (consumed t) ++ map_of m"
proof -
  have "\<forall>v\<in>snd ` set m. in_i64 v" using assms(2) by auto
  from unmarshal_marshal [OF assms(1) this] obtain m' where m': "unmarshal_offsets (marshal_offsets m) = Some m'"
    "map_wf m'" "set m' = (\<lambda>(p, off). (int_text p, off)) ` set m" by blast
  let ?es = "map scanned (visit ord m')"
  have sc: "scanned (int_text p, v) = (p, v)" if "(p, v) \<in> set m" for p v
    using that assms(2) Sscanf_int_text by (auto simp: scanned_def)
  have es: "set ?es = set m"
  proof -
    have "set ?es = scanned ` (\<lambda>(p, off). (int_text p, off)) ` set m" by (simp add: m'(3))
    also have "\<dots> = (\<lambda>(p, v). scanned (int_text p, v)) ` set m" by (simp add: image_image case_prod_beta)
    also have "\<dots> = (\<lambda>x. x) ` set m" by (rule image_cong) (use sc in auto)
    finally show ?thesis by simp
  qed
  have fst_inj: "inj_on (fst \<circ> scanned) (set m')"
  proof (rule inj_onI)
    fix x y assume "x \<in> set m'" "y \<in> set m'" "(fst \<circ> scanned) x = (fst \<circ> scanned) y"
    then obtain p v q w where "x = (int_text p, v)" "(p, v) \<in> set m" "y = (int_text q, w)" "(q, w) \<in> set m" "p = q"
      using m'(3) sc by auto
    then show "x = y" using assms(1) by (simp add: eq_key_imp_eq_value)
  qed
  have "distinct m'" using m'(2) by (metis distinct_map)
  then have wf: "map_wf ?es" using fst_inj by (simp add: distinct_map)
  then have "map_of (rev ?es) = map_of m"
    using assms(1) es by (metis map_of_inject_set set_rev distinct_rev rev_map)
  then show ?thesis
    using that [of "fold restore_one (visit ord m') t"] m'(1) by (simp add: restore_def restore_fold fold_put_append_map_of)
qed

lemma map_filter_cut:
  "List.map_filter f xs = zs @ z # ws \<Longrightarrow> \<exists>us m vs. xs = us @ m # vs \<and> List.map_filter f us = zs \<and> f m = Some z"
proof (induction xs arbitrary: zs)
  case (Cons x xs)
  show ?case
  proof (cases "f x")
    case None
    then obtain us m vs where "xs = us @ m # vs \<and> List.map_filter f us = zs \<and> f m = Some z"
      using Cons by (auto simp: map_filter_Cons)
    then show ?thesis using None by (intro exI [of _ "x # us"]) (auto simp: map_filter_Cons)
  next
    case (Some y)
    show ?thesis
    proof (cases zs)
      case Nil
      then show ?thesis using Cons.prems Some by (intro exI [of _ "[]"]) (auto simp: map_filter_Cons)
    next
      case (Cons z' zs')
      then obtain us m vs where "xs = us @ m # vs \<and> List.map_filter f us = zs' \<and> f m = Some z"
        using Cons.prems Cons.IH [of zs'] Some by (auto simp: map_filter_Cons)
      then show ?thesis using Cons.prems Some Cons by (intro exI [of _ "x # us"]) (auto simp: map_filter_Cons)
    qed
  qed
qed simp

lemma prefix_between:
  assumes "prefix (zs @ [z]) (between c ms lo n)" "ascending ms"
  shows "zs @ [z] = between c ms lo (Offset z + 1)" "lo \<le> Offset z" "\<exists>m\<in>set ms. record_of c m = Some z"
proof -
  let ?fs = "filter (\<lambda>m. lo \<le> mOffset m \<and> mOffset m < n) ms"
  obtain ws where w: "List.map_filter (record_of c) ?fs = zs @ z # ws"
    using assms(1) by (auto simp: prefix_def between_def)
  from map_filter_cut [OF w] obtain us m vs where fs: "?fs = us @ m # vs" and u: "List.map_filter (record_of c) us = zs"
    and m: "record_of c m = Some z" by blast
  have "m \<in> set ?fs" using fs by simp
  then have mm: "m \<in> set ms" "lo \<le> mOffset m" "mOffset m < n" by auto
  then show "\<exists>m\<in>set ms. record_of c m = Some z" using m by blast
  have o: "Offset z = mOffset m" using record_of_fields [OF m] by simp
  then show "lo \<le> Offset z" using mm by simp
  have "ascending ?fs" using assms(2) by (rule sorted_wrt_filter)
  then have "\<forall>x\<in>set us. mOffset x < mOffset m" "\<forall>x\<in>set vs. mOffset m < mOffset x" unfolding fs by (auto simp: sorted_wrt_append)
  then have "filter (\<lambda>x. mOffset x < mOffset m + 1) us = us" "filter (\<lambda>x. mOffset x < mOffset m + 1) vs = []"
    by (auto simp: filter_id_conv filter_empty_conv)
  then have "filter (\<lambda>x. mOffset x < mOffset m + 1) ?fs = us @ [m]" unfolding fs by simp
  moreover have "filter (\<lambda>x. mOffset x < mOffset m + 1) ?fs = filter (\<lambda>x. lo \<le> mOffset x \<and> mOffset x < mOffset m + 1) ms"
    using mm(3) by (auto intro: filter_cong)
  ultimately have e: "filter (\<lambda>x. lo \<le> mOffset x \<and> mOffset x < mOffset m + 1) ms = us @ [m]" by metis
  show "zs @ [z] = between c ms lo (Offset z + 1)"
    unfolding between_def o e by (simp add: map_filter_append map_filter_Cons u m)
qed

lemma between_data: "r \<in> set (between c ms lo n) \<Longrightarrow> is_data r"
  using record_of_fields [of c] by (fastforce simp: between_def map_filter_def)

lemma filter_prefix: "prefix xs ys \<Longrightarrow> prefix (filter P xs) (filter P ys)"
  by (auto simp: prefix_def)

lemma of_part_append [simp]: "of_part p (xs @ ys) = of_part p xs @ of_part p ys"
  by (simp add: of_part_def)

text \<open>What the barrier's offsets say of a partition whose records are in front of it.\<close>

lemma barrier_position:
  assumes "prefix xs out" "of_part p out = between c (log p) lo n" "topic_log log"
  shows "last_record p xs = None \<Longrightarrow> of_part p xs = []"
    "last_record p xs = Some z \<Longrightarrow> of_part p xs = between c (log p) lo (Offset z + 1) \<and> lo \<le> Offset z \<and> i64 (Offset z + 1) = Offset z + 1 \<and> in_i64 p"
proof -
  have asc: "ascending (log p)" using assms(3) by (simp add: topic_log_def)
  have pf: "prefix (of_part p xs) (between c (log p) lo n)"
    using filter_prefix [OF assms(1), of "\<lambda>r. Partition r = p"] assms(2) by (simp add: of_part_def)
  then have "\<forall>r\<in>set (of_part p xs). is_data r" using between_data set_mono_prefix by blast
  then have "filter (\<lambda>r. is_data r \<and> Partition r = p) xs = of_part p xs"
    unfolding of_part_def by (intro filter_cong) auto
  then have l: "last_record p xs = (if of_part p xs = [] then None else Some (last (of_part p xs)))"
    by (simp add: last_record_def Let_def)
  show "last_record p xs = None \<Longrightarrow> of_part p xs = []" using l by (auto split: if_splits)
  assume "last_record p xs = Some z"
  then obtain zs where z: "of_part p xs = zs @ [z]" using l by (auto split: if_splits intro: append_butlast_last_id [symmetric])
  note b = prefix_between [OF pf [unfolded z] asc]
  obtain m where m: "m \<in> set (log p)" "record_of c m = Some z" using b(3) by blast
  have "0 \<le> Offset z \<and> Offset z < 2 ^ 63 - 1 \<and> in_i64 p"
    using assms(3) m record_of_fields [OF m(2)] by (auto simp: topic_log_def)
  then show "of_part p xs = between c (log p) lo (Offset z + 1) \<and> lo \<le> Offset z \<and> i64 (Offset z + 1) = Offset z + 1 \<and> in_i64 p"
    using b z by (simp add: i64_id in_i64_def)
qed

lemma restored_aligned:
  assumes "RestoreOffset ord (marshal_offsets (aligned xs)) (new_state cs) = Some s" "\<forall>r\<in>set xs. in_i64 (Partition r)"
  shows "map_of (restored (ks_offsets s)) p = map_option (\<lambda>r. i64 (Offset r + 1)) (last_record p xs)" "trace s = []"
proof -
  have "in_i64 q \<and> in_i64 v" if "(q, v) \<in> set (aligned xs)" for q v
  proof -
    have "map_of (aligned xs) q = Some v" using that aligned_wf by (simp add: map_of_is_SomeI)
    then obtain r where "last_record q xs = Some r" "v = i64 (Offset r + 1)" by (auto simp: aligned_lookup)
    moreover from this have "r \<in> set xs \<and> Partition r = q"
      by (auto simp: last_record_def Let_def split: if_splits dest: last_in_set [OF _])
    ultimately show ?thesis using assms(2) by auto
  qed
  then have "\<forall>(q, v)\<in>set (aligned xs). in_i64 q \<and> in_i64 v" by blast
  from restore_marshal [OF aligned_wf this] obtain t where t: "restore ord (marshal_offsets (aligned xs)) newOffsetTracker = Some t"
    "map_of (restored t) = map_of (restored newOffsetTracker) ++ map_of (aligned xs)" by metis
  have s: "s = (new_state cs)\<lparr> ks_offsets := t \<rparr>" using assms(1) t(1) by (simp add: RestoreOffset_def new_state_def)
  show "map_of (restored (ks_offsets s)) p = map_option (\<lambda>r. i64 (Offset r + 1)) (last_record p xs)"
    using t(2) by (simp add: s aligned_lookup newOffsetTracker_def)
  show "trace s = []" by (simp add: s new_state_def)
qed

subsection \<open>A reader over a log in memory\<close>

definition log_api :: "(int \<Rightarrow> kafka_message list) \<Rightarrow> (int \<times> int) kafka_api" where
  "log_api log = \<lparr> NewReader = (\<lambda>rc. (rc_Partition rc, 0)),
     FetchMessage = (\<lambda>(p, n). case find (\<lambda>m. n \<le> mOffset m) (log p) of None \<Rightarrow> ((p, n), Inl ''EOF'') | Some m \<Rightarrow> ((p, mOffset m + 1), Inr m)),
     CommitMessages = (\<lambda>msgs r. (r, None)), SetOffset = (\<lambda>off (p, n). ((p, off), None)) \<rparr>"

lemma find_next: "ascending ms \<Longrightarrow> find (\<lambda>m. n \<le> mOffset m) ms = Some m \<Longrightarrow> next_message ms n m"
  by (induction ms) (auto simp: next_message_def split: if_splits)

lemma log_api_documented: "topic_log log \<Longrightarrow> documented_reader (log_api log) log id"
  unfolding documented_reader_def
  by (auto simp: log_api_def topic_log_def find_next split: option.splits prod.splits)

definition demo_log :: "int \<Rightarrow> kafka_message list" where
  "demo_log p = (if p = 0 then [demo_message 0, demo_message 1, demo_message 2] else [])"

lemma demo_topic: "topic_log demo_log"
  by (auto simp: topic_log_def demo_log_def demo_message_def in_i64_def)

definition par_config :: kafkaSourceConfig where
  "par_config = applyDefaults (zeroKafkaConfig\<lparr> brokers := [''b''], topic := ''t'', parallel := True \<rparr>)"

lemma par_config_simps [simp]: "offsetMode par_config = OffsetEarliest" "deserializer par_config = None" "fetchMaxRetries par_config = 5"
  by (simp_all add: par_config_def applyDefaults_def zeroKafkaConfig_def)

definition demo_manager :: "offsetTracker \<Rightarrow> int \<Rightarrow> source_event list \<Rightarrow> (int \<times> int) partitionManager" where
  "demo_manager t n tr = \<lparr> running = [(0, (0, n))], leaving = [], ended = {}, mfatal = None,
     msource = \<lparr> ks_offsets = t, ks_pending = [], checks = [], trace = tr \<rparr> \<rparr>"

lemma demo_turn:
  assumes "n \<in> {0, 1, 2}"
  shows "manager_step (log_api demo_log) par_config (\<lambda>ids. ids = [0]) (demo_manager t n tr)
    (demo_manager (track (demo_message n) t) (n + 1) (tr @ [Fetched (demo_message n), Emitted (KafkaToRecord (demo_message n))]))"
proof -
  have "find (\<lambda>m. n \<le> mOffset m) (demo_log 0) = Some (demo_message n)" using assms by (auto simp: demo_log_def demo_message_def)
  then have "FetchMessage (log_api demo_log) (0, n) = ((0, n + 1), Inr (demo_message n))"
    by (simp add: log_api_def) (simp add: demo_message_def)
  then have f: "fetchWithRetry (log_api demo_log) par_config [] (0, n) = Some ((0, n + 1), [], [], Inr (demo_message n))"
    by (simp add: fetchWithRetry_def fetch_loop.simps)
  let ?s = "msource (demo_manager t n tr)"
  have "deliver_next (log_api demo_log) par_config (0, n) ?s = Some ((0, n + 1),
      ?s\<lparr> ks_offsets := track (demo_message n) t, trace := tr @ [Fetched (demo_message n), Emitted (KafkaToRecord (demo_message n))] \<rparr>, Delivered (demo_message n))"
    by (simp add: deliver_next_def f demo_manager_def toRecord_def check_ctx_def Let_def)
  from manager_step.turn [OF _ _ this, of 0] show ?thesis by (simp add: demo_manager_def)
qed

lemma demo_start: "reconcile (log_api demo_log) par_config [0] (newPartitionManager \<lparr> ks_offsets = t, ks_pending = [], checks = [], trace = [] \<rparr>) =
    demo_manager t (start_offset (restored t) 0) []"
  by (simp add: reconcile_def newPartitionManager_def demo_manager_def start_missing_def startReader_def buildPartitionReader_def
      restoredOffset_def start_offset_def log_api_def split: option.splits)

lemma demo_record_0: "\<not> IsBarrier (KafkaToRecord (demo_message n))" "Partition (KafkaToRecord (demo_message n)) = 0"
    "Offset (KafkaToRecord (demo_message n)) = n" "is_data (KafkaToRecord (demo_message n))"
  by (simp_all add: KafkaToRecord_def demo_message_def zeroRecord_def is_data_def)

subsection \<open>Resuming at a barrier\<close>

lemma in_front:
  assumes "\<forall>e\<in>set es. \<forall>r\<in>event_records e. \<not> IsBarrier r" "inj_out (injectBarriers nonce es (new_injector env)) = xs @ b # ys" "IsBarrier b"
  shows "prefix (filter (\<lambda>r. \<not> IsBarrier r) xs) (accepted_records es)"
    "registered (inj_env (injectBarriers nonce es (new_injector env))) (CheckpointID b) = Some (marshal_offsets (aligned (filter (\<lambda>r. \<not> IsBarrier r) xs)))"
proof -
  have "barriers_aligned nonce (new_injector env)" "inj_offsets (new_injector env) = aligned (inj_out (new_injector env))"
    by (simp_all add: barriers_aligned_def new_injector_def)
  note i = inject_aligned [OF this assms(1)]
  have "filter (\<lambda>r. \<not> IsBarrier r) (xs @ b # ys) = accepted_records es" using i assms(2) by (simp add: new_injector_def)
  then show "prefix (filter (\<lambda>r. \<not> IsBarrier r) xs) (accepted_records es)" by (metis filter_append prefixI)
  have "aligned zs = aligned (filter (\<lambda>r. \<not> IsBarrier r) zs)" for zs
    by (induction zs rule: rev_induct) (simp_all add: advance_def)
  then show "registered (inj_env (injectBarriers nonce es (new_injector env))) (CheckpointID b) = Some (marshal_offsets (aligned (filter (\<lambda>r. \<not> IsBarrier r) xs)))"
    using barriers_alignedD [OF conjunct1 [OF i] assms(2,3)] by simp
qed

lemma accepted_from: "r \<in> set (accepted_records es) \<Longrightarrow> \<exists>e\<in>set es. r \<in> event_records e"
proof -
  have "set (accepted_drain rs) \<subseteq> fst ` set rs" for rs by (induction rs rule: accepted_drain.induct) auto
  then show "r \<in> set (accepted_records es) \<Longrightarrow> \<exists>e\<in>set es. r \<in> event_records e"
    by (induction es rule: accepted_records.induct) (auto split: if_splits)
qed

lemma last_record_filter: "last_record p (filter (\<lambda>r. \<not> IsBarrier r) xs) = last_record p xs"
proof -
  have "filter (\<lambda>r. is_data r \<and> Partition r = p) (filter (\<lambda>r. \<not> IsBarrier r) xs) = filter (\<lambda>r. is_data r \<and> Partition r = p) xs"
    unfolding filter_filter by (rule filter_cong) (auto simp: is_data_def)
  then show ?thesis by (simp add: last_record_def)
qed


lemma deliver_next_consumed:
  assumes "deliver_next api c r s = Some (r', s', d)" "map_of (consumed (ks_offsets s)) p \<noteq> None"
  shows "map_of (consumed (ks_offsets s')) p \<noteq> None"
  using assms(1) by (cases rule: deliver_nextE) (use assms(2) in \<open>auto simp: track_def\<close>)

lemma manager_run_consumed:
  assumes "manager_run api c disc m m'" "map_of (consumed (ks_offsets (msource m))) p \<noteq> None"
  shows "map_of (consumed (ks_offsets (msource m'))) p \<noteq> None"
  using assms(1)
proof (induction rule: rtranclp_induct)
  case (step m' m'')
  from step.hyps(2) show ?case
    by cases (use step.IH in \<open>auto dest: deliver_next_consumed simp: reconcile_def\<close>)
qed (rule assms(2))

text \<open>The first run delivers two records, the barrier comes between them, and the second run delivers the second one.\<close>

definition one_restored :: offsetTracker where
  "one_restored = \<lparr> consumed = [(0, 1)], restored = [(0, 1)] \<rparr>"

lemma restore_offset_one:
  "RestoreOffset in_order (marshal_offsets [(0, 1)]) (new_state []) = Some \<lparr> ks_offsets = one_restored, ks_pending = [], checks = [], trace = [] \<rparr>"
proof -
  have "unmarshal_offsets (marshal_offsets [(0, 1)]) = Some [(''0'', 1)]" "Sscanf_d ''0'' = Some 0" by code_simp+
  then show ?thesis by (simp add: RestoreOffset_def restore_def restore_one_def new_state_def newOffsetTracker_def one_restored_def)
qed


text \<open>
  C40. A quiet partition is forgotten. A source was restored with an offset for partition \<open>p\<close>, and in the run
  that followed no record of \<open>p\<close> came in front of the barrier. The source's own position still has the
  partition, as the comment at its restore promises, but the engine takes the offsets the injector registered,
  and these have no entry for it. When they are restored, the readers of the next run deliver the partition from
  its first offset again, whatever had been processed of it before.
\<close>

theorem quiet_partition_forgotten:
  assumes reader: "documented_reader api log pos" "topic_log log" "offsetMode c = OffsetEarliest" "\<And>ids. disc ids \<Longrightarrow> p \<in> set ids"
    and run2: "manager_run api c disc (reconcile api c seed2 (newPartitionManager s2)) m2" "map_of (consumed (ks_offsets s2)) p = Some off"
    and barrier: "\<forall>e\<in>set es. \<forall>r\<in>event_records e. \<not> IsBarrier r \<and> in_i64 (Partition r)"
      "inj_out (injectBarriers nonce es (new_injector env)) = xs @ b # ys" "IsBarrier b"
      "registered (inj_env (injectBarriers nonce es (new_injector env))) (CheckpointID b) = Some data" "last_record p xs = None"
    and run3: "RestoreOffset ord data (new_state cs) = Some s3"
      "manager_run api c disc (reconcile api c seed3 (newPartitionManager s3)) m3" "p \<in> set seed3"
  shows "map_of (consumed (ks_offsets (msource m2))) p \<noteq> None \<and> map_of (restored (ks_offsets s3)) p = None \<and>
    (\<exists>n\<ge>0. of_part p (emitted (trace (msource m3))) = between c (log p) 0 n)"
proof -
  let ?xs = "filter (\<lambda>r. \<not> IsBarrier r) xs"
  have nb: "\<forall>e\<in>set es. \<forall>r\<in>event_records e. \<not> IsBarrier r" using barrier(1) by blast
  note f = in_front [OF nb barrier(2,3)]
  have i64s: "\<forall>r\<in>set ?xs. in_i64 (Partition r)" using accepted_from barrier(1) set_mono_prefix [OF f(1)] by blast
  have data: "data = marshal_offsets (aligned ?xs)" using f(2) barrier(4) by simp
  note res = restored_aligned [OF run3(1) [unfolded data] i64s]
  have none: "map_of (restored (ks_offsets s3)) p = None" using res(1) [of p] barrier(5) by (simp add: last_record_filter)
  then have st: "start_offset (restored (ks_offsets s3)) p = 0" by (simp add: start_offset_def)
  have "\<exists>n\<ge>0. of_part p (emitted (trace (msource m3))) = between c (log p) 0 n"
    using run_delivers [OF run3(2,3) res(2) _ reader] st by (metis order_refl)
  moreover have "map_of (consumed (ks_offsets (msource m2))) p \<noteq> None"
    by (rule manager_run_consumed [OF run2(1)]) (use run2(2) in \<open>simp add: reconcile_def newPartitionManager_def\<close>)
  ultimately show ?thesis using none by blast
qed

text \<open>The second run delivers nothing; its barrier makes the third run deliver the first record again.\<close>

theorem quiet_partition_forgotten_witness:
  "map_of (consumed one_restored) 0 = Some 1 \<and> (\<exists>n\<ge>0. [KafkaToRecord (demo_message 0)] = between par_config (demo_log 0) 0 n)"
proof -
  let ?rec = "\<lambda>n. KafkaToRecord (demo_message n)"
  let ?st = "\<lambda>t. \<lparr> ks_offsets = t, ks_pending = [], checks = [], trace = [] \<rparr>"
  let ?disc = "\<lambda>ids. ids = [0 :: int]"
  have out: "inj_out (injectBarriers 9 [TickerFired True] (new_injector no_engine)) = [] @ NewBarrier (mkID 9 1 []) # []"
    by (simp add: new_injector_def)
  have reg: "registered (inj_env (injectBarriers 9 [TickerFired True] (new_injector no_engine))) (CheckpointID (NewBarrier (mkID 9 1 []))) = Some (marshal_offsets [])"
    by (simp add: Let_def inject_barrier_def pass_on_def registered_register NewBarrier_def new_injector_def)
  have "unmarshal_offsets (marshal_offsets []) = Some []" by code_simp
  then have res: "RestoreOffset in_order (marshal_offsets []) (new_state []) = Some (?st newOffsetTracker)"
    by (simp add: RestoreOffset_def restore_def new_state_def)
  have s0: "start_offset (restored newOffsetTracker) 0 = 0" by (simp add: start_offset_def newOffsetTracker_def)
  have r2: "manager_run (log_api demo_log) par_config ?disc (reconcile (log_api demo_log) par_config [0] (newPartitionManager (?st one_restored)))
      (reconcile (log_api demo_log) par_config [0] (newPartitionManager (?st one_restored)))" by simp
  have r3: "manager_run (log_api demo_log) par_config ?disc (reconcile (log_api demo_log) par_config [0] (newPartitionManager (?st newOffsetTracker)))
      (demo_manager (track (demo_message 0) newOffsetTracker) 1 [Fetched (demo_message 0), Emitted (?rec 0)])"
    unfolding demo_start s0 using demo_turn [of 0 newOffsetTracker "[]"] by (simp add: r_into_rtranclp)
  have c: "map_of (consumed (ks_offsets (?st one_restored))) 0 = Some 1" by (simp add: one_restored_def)
  have "\<exists>n\<ge>0. of_part 0 (emitted (trace (msource (demo_manager (track (demo_message 0) newOffsetTracker) 1 [Fetched (demo_message 0), Emitted (?rec 0)])))) =
      between par_config (demo_log 0) 0 n"
    by (rule conjunct2 [OF conjunct2 [OF quiet_partition_forgotten [OF log_api_documented [OF demo_topic] demo_topic par_config_simps(1) _ r2 c _ out _ reg _ res r3]]])
      (simp_all add: NewBarrier_def)
  then show ?thesis using c by (simp add: of_part_def demo_record_0 demo_manager_def)
qed

end
