(* ===== verification/Go_Path.thy ===== *)
theory Go_Path
  imports Go_Text
begin

text \<open>
  Slash-separated paths: \<open>filepath.Clean\<close> and \<open>filepath.Join\<close> as far as directories are built from them, with
  the normal form of a path (whether it is rooted, and its components with the last one first), by
  which paths are compared.
\<close>

subsection \<open>Clean and Join\<close>

text \<open>A path is cleaned component by component on a stack; \<open>Join\<close> ignores empty parts and cleans the rest.\<close>

fun split_slash :: "bytes \<Rightarrow> bytes list" where
  "split_slash [] = [[]]"
| "split_slash (c # cs) =
     (if c = CHR ''/'' then [] # split_slash cs
      else (case split_slash cs of [] \<Rightarrow> [[c]] | w # ws \<Rightarrow> (c # w) # ws))"

definition clean_step :: "bool \<Rightarrow> bytes \<Rightarrow> bytes list \<Rightarrow> bytes list" where
  "clean_step rooted w stack =
     (if w = '''' \<or> w = ''.'' then stack
      else if w = ''..''
      then (case stack of [] \<Rightarrow> (if rooted then [] else [''..'']) | v # vs \<Rightarrow> if v = ''..'' then w # stack else vs)
      else w # stack)"

fun path_text :: "bytes list \<Rightarrow> bytes" where
  "path_text [] = ''''"
| "path_text [w] = w"
| "path_text (v # w # ws) = v @ ''/'' @ path_text (w # ws)"

definition is_rooted :: "bytes \<Rightarrow> bool" where
  "is_rooted path = (case path of [] \<Rightarrow> False | c # _ \<Rightarrow> c = CHR ''/'')"

definition Clean :: "bytes \<Rightarrow> bytes" where
  "Clean path =
     (let rooted = is_rooted path;
          out = path_text (rev (fold (clean_step rooted) (split_slash path) []))
      in if rooted then CHR ''/'' # out else if out = '''' then ''.'' else out)"

definition Join :: "bytes \<Rightarrow> bytes \<Rightarrow> bytes" where
  "Join dir name =
     (if dir = '''' \<and> name = '''' then '''' else if dir = '''' then Clean name
      else if name = '''' then Clean dir else Clean (dir @ ''/'' @ name))"

text \<open>\<open>Join\<close> of three parts.\<close>

definition Join3 :: "bytes \<Rightarrow> bytes \<Rightarrow> bytes \<Rightarrow> bytes" where
  "Join3 dir name sub =
     (let parts = filter (\<lambda>w. w \<noteq> '''') [dir, name, sub] in if parts = [] then '''' else Clean (path_text parts))"

subsection \<open>Normal forms\<close>

definition norm :: "bytes \<Rightarrow> bool \<times> bytes list" where
  "norm path = (is_rooted path, fold (clean_step (is_rooted path)) (split_slash path) [])"

definition render :: "bool \<Rightarrow> bytes list \<Rightarrow> bytes" where
  "render r st = (let out = path_text (rev st) in if r then CHR ''/'' # out else if out = '''' then ''.'' else out)"

lemma Clean_render: "Clean path = (case norm path of (r, st) \<Rightarrow> render r st)"
  by (simp add: Clean_def norm_def render_def Let_def)

definition segment :: "bytes \<Rightarrow> bool" where
  "segment w \<longleftrightarrow> w \<noteq> '''' \<and> w \<noteq> ''.'' \<and> w \<noteq> ''..'' \<and> CHR ''/'' \<notin> set w"

fun clean_stack :: "bool \<Rightarrow> bytes list \<Rightarrow> bool" where
  "clean_stack r [] = True"
| "clean_stack r (w # ws) =
     (w \<noteq> '''' \<and> w \<noteq> ''.'' \<and> CHR ''/'' \<notin> set w \<and> (w = ''..'' \<longrightarrow> \<not> r \<and> (\<forall>v \<in> set ws. v = ''..'')) \<and> clean_stack r ws)"

lemma split_slash_ne [simp]: "split_slash w \<noteq> []"
  by (induction w) (auto split: list.splits)

lemma split_slash_append: "split_slash (a @ CHR ''/'' # b) = split_slash a @ split_slash b"
  by (induction a) (auto split: list.splits)

lemma split_slash_plain: "CHR ''/'' \<notin> set w \<Longrightarrow> split_slash w = [w]"
  by (induction w) auto

lemma split_slash_parts: "w \<in> set (split_slash p) \<Longrightarrow> CHR ''/'' \<notin> set w"
  by (induction p arbitrary: w) (auto split: list.splits if_splits)

lemma clean_step_keeps: "clean_stack r st \<Longrightarrow> CHR ''/'' \<notin> set w \<Longrightarrow> clean_stack r (clean_step r w st)"
  by (cases st) (auto simp: clean_step_def)

lemma fold_clean_keeps:
  "clean_stack r st \<Longrightarrow> \<forall>w \<in> set ws. CHR ''/'' \<notin> set w \<Longrightarrow> clean_stack r (fold (clean_step r) ws st)"
  by (induction ws arbitrary: st) (auto intro: clean_step_keeps)

lemma norm_clean: "norm p = (r, st) \<Longrightarrow> clean_stack r st"
  using fold_clean_keeps [of r "[]" "split_slash p"] split_slash_parts by (auto simp: norm_def)

lemma fold_clean_id: "clean_stack r st \<Longrightarrow> fold (clean_step r) (rev st) [] = st"
proof (induction st)
  case (Cons w ws)
  have "clean_step r w ws = w # ws"
  proof (cases "w = ''..''")
    case True
    then show ?thesis using Cons.prems by (cases ws) (simp_all add: clean_step_def)
  qed (use Cons.prems in \<open>simp add: clean_step_def\<close>)
  moreover have "fold (clean_step r) (rev ws) [] = ws" using Cons by simp
  ultimately show ?case by simp
qed simp

lemma split_path_text:
  "ws \<noteq> [] \<Longrightarrow> \<forall>w \<in> set ws. CHR ''/'' \<notin> set w \<Longrightarrow> split_slash (path_text ws) = ws"
  by (induction ws rule: path_text.induct) (auto simp: split_slash_plain split_slash_append)

lemma clean_stack_plain: "clean_stack r st \<Longrightarrow> w \<in> set st \<Longrightarrow> CHR ''/'' \<notin> set w \<and> w \<noteq> ''''"
  by (induction st) auto

lemma path_text_empty: "path_text ws = '''' \<longleftrightarrow> ws = [] \<or> ws = ['''']"
  by (induction ws rule: path_text.induct) auto

lemma path_text_not_rooted:
  "ws \<noteq> [] \<Longrightarrow> \<forall>w \<in> set ws. CHR ''/'' \<notin> set w \<and> w \<noteq> '''' \<Longrightarrow> \<not> is_rooted (path_text ws)"
proof (induction ws rule: path_text.induct)
  case (3 v w ws)
  then show ?case by (cases v) (auto simp: is_rooted_def)
qed (auto simp: is_rooted_def split: list.splits)

text \<open>A rendered normal form has that normal form, so that rendering is injective.\<close>

lemma norm_render:
  assumes "clean_stack r st"
  shows "norm (render r st) = (r, st)"
proof (cases "st = []")
  case True
  then show ?thesis by (cases r) (simp_all add: render_def norm_def is_rooted_def clean_step_def)
next
  case False
  have p: "\<forall>w \<in> set (rev st). CHR ''/'' \<notin> set w \<and> w \<noteq> ''''" using clean_stack_plain [OF assms] by auto
  then have s: "split_slash (path_text (rev st)) = rev st" and n: "\<not> is_rooted (path_text (rev st))"
    and e: "path_text (rev st) \<noteq> ''''"
    using False split_path_text [of "rev st"] path_text_not_rooted [of "rev st"] by (auto simp: path_text_empty)
  show ?thesis
    using s n e fold_clean_id [OF assms]
    by (cases r) (simp_all add: render_def norm_def, simp_all add: is_rooted_def clean_step_def)
qed

lemma norm_Clean [simp]: "norm (Clean p) = norm p"
proof -
  obtain r st where n: "norm p = (r, st)" by force
  then show ?thesis using norm_render [OF norm_clean [OF n]] by (simp add: Clean_render)
qed

lemma Clean_inj: "Clean p = Clean q \<longleftrightarrow> norm p = norm q"
proof
  assume "Clean p = Clean q"
  then have "norm (Clean p) = norm (Clean q)" by simp
  then show "norm p = norm q" by simp
qed (simp add: Clean_render)

lemma segment_split [simp]: "segment w \<Longrightarrow> split_slash w = [w]"
  by (simp add: segment_def split_slash_plain)

lemma clean_step_segment [simp]: "segment w \<Longrightarrow> clean_step r w st = w # st"
  by (auto simp: segment_def clean_step_def)

lemma is_rooted_append [simp]: "p \<noteq> '''' \<Longrightarrow> is_rooted (p @ q) = is_rooted p"
  by (cases p) (simp_all add: is_rooted_def)

lemma Clean_ne [simp]: "Clean p \<noteq> ''''"
  by (simp add: Clean_def Let_def)

lemma Join_ne [simp]: "segment w \<Longrightarrow> Join dir w \<noteq> ''''"
  by (auto simp: Join_def segment_def)

lemma norm_Join:
  assumes "segment w" "dir \<noteq> ''''"
  shows "norm (Join dir w) = (fst (norm dir), w # snd (norm dir))"
proof -
  have "w \<noteq> ''''" using assms(1) by (simp add: segment_def)
  then have "norm (Join dir w) = norm (dir @ CHR ''/'' # w)" using assms(2) by (simp add: Join_def)
  also have "\<dots> = (fst (norm dir), w # snd (norm dir))" using assms by (simp add: norm_def split_slash_append)
  finally show ?thesis .
qed

lemma norm_Join3:
  assumes "segment v" "segment w" "dir \<noteq> ''''"
  shows "norm (Join3 dir v w) = (fst (norm dir), w # v # snd (norm dir))"
proof -
  have "v \<noteq> ''''" "w \<noteq> ''''" using assms by (simp_all add: segment_def)
  then have "norm (Join3 dir v w) = norm (dir @ CHR ''/'' # v @ CHR ''/'' # w)" using assms(3) by (simp add: Join3_def)
  also have "\<dots> = (fst (norm dir), w # v # snd (norm dir))" using assms by (simp add: norm_def split_slash_append)
  finally show ?thesis .
qed

lemma norm_segment: "segment w \<Longrightarrow> norm w = (False, [w])"
proof -
  assume w: "segment w"
  then have "\<not> is_rooted w" by (cases w) (auto simp: segment_def is_rooted_def)
  then show ?thesis using w by (simp add: norm_def)
qed

lemma Join_segment_inj:
  assumes "segment v" "segment w"
  shows "Join dir v = Join dir w \<longleftrightarrow> v = w"
proof
  assume j: "Join dir v = Join dir w"
  have ne: "v \<noteq> ''''" "w \<noteq> ''''" using assms by (simp_all add: segment_def)
  show "v = w"
  proof (cases "dir = ''''")
    case True
    then have "Clean v = Clean w" using j ne by (simp add: Join_def)
    then have "norm v = norm w" by (simp only: Clean_inj)
    then show ?thesis using norm_segment [OF assms(1)] norm_segment [OF assms(2)] by simp
  next
    case False
    have "norm (Join dir v) = norm (Join dir w)" using j by simp
    then show ?thesis using norm_Join [OF assms(1) False] norm_Join [OF assms(2) False] by simp
  qed
qed simp

end
