(* ===== verification/Stage_Plan.thy ===== *)
theory Stage_Plan
  imports Pipeline_Stages Reduce_Op Window_Op Go_Path
begin

text \<open>
  How a pipeline is put together and planned: the fluent interface of \<open>stream.go\<close> with the configuration of
  the environment (\<open>mailer.go\<close>), the backend factories of \<open>state/factory.go\<close>, and the planner
  (\<open>pipeline/planner.go\<close>, \<open>NewKeyedStage\<close> of \<open>pipeline/keyed_stage.go\<close>, \<open>pipeline/plan.go\<close>) that groups the
  operators into stages, clones the stateful ones once per worker and gives every instance its state
  backend. A planned stage keeps the operators and instances it runs; running them is the subject of
  other theories.
\<close>

subsection \<open>Operators and the environment\<close>

text \<open>The operators as the environment holds them, with their parallelism and label.\<close>

datatype Operator =
    StatelessOperator StatelessOp int bytes
  | KeyByOp KeyByOperator bytes
  | WindowOp WindowAssigner int "ReduceFn option" bytes
  | ReduceOp ReduceFn bytes

fun Name :: "Operator \<Rightarrow> bytes" where
  "Name (StatelessOperator (MapOperator f) par label) = ''Map''"
| "Name (StatelessOperator (FilterOperator f) par label) = ''Filter''"
| "Name (StatelessOperator (FlatMapOperator f) par label) = ''FlatMap''"
| "Name (StatelessOperator (ProcessOp p) par label) = ''Process''"
| "Name (KeyByOp kb label) = ''KeyBy''"
| "Name (WindowOp assigner idle reducer label) = ''Window''"
| "Name (ReduceOp fn label) = ''Reduce''"

fun GetLabel :: "Operator \<Rightarrow> bytes" where
  "GetLabel (StatelessOperator f par label) = label"
| "GetLabel (KeyByOp kb label) = label"
| "GetLabel (WindowOp assigner idle reducer label) = label"
| "GetLabel (ReduceOp fn label) = label"

text \<open>The optional interface of stateful operators, which is also the one that takes a backend.\<close>

fun Cloneable :: "Operator \<Rightarrow> bool" where
  "Cloneable (WindowOp assigner idle reducer label) = True"
| "Cloneable (ReduceOp fn label) = True"
| "Cloneable op = False"

definition Parallelism :: "int \<Rightarrow> int" where
  "Parallelism par = (if par < 1 then 1 else par)"

datatype BackendFactory = InMemory | Pebble bytes

record ('src, 'snk) StreamExecutionEnv =
  env_source :: "'src option"
  env_operators :: "Operator list"
  env_sink :: "'snk option"
  shutdownTimeout :: int
  edgeCapacity :: int
  checkpointInterval :: int
  checkpointStorage :: "bytes option"
  stateFactory :: "BackendFactory option"

definition NewEnv :: "('src, 'snk) StreamExecutionEnv" where
  "NewEnv = \<lparr> env_source = None, env_operators = [], env_sink = None, shutdownTimeout = 30 * 1000000000,
     edgeCapacity = 1024, checkpointInterval = 0, checkpointStorage = None, stateFactory = None \<rparr>"

definition WithShutdownTimeout :: "int \<Rightarrow> ('src, 'snk) StreamExecutionEnv \<Rightarrow> ('src, 'snk) StreamExecutionEnv" where
  "WithShutdownTimeout d env = env\<lparr> shutdownTimeout := d \<rparr>"

definition WithBufferSize :: "int \<Rightarrow> ('src, 'snk) StreamExecutionEnv \<Rightarrow> ('src, 'snk) StreamExecutionEnv" where
  "WithBufferSize n env = (if 0 < n then env\<lparr> edgeCapacity := n \<rparr> else env)"

definition WithCheckpointing ::
  "int \<Rightarrow> bytes \<Rightarrow> ('src, 'snk) StreamExecutionEnv \<Rightarrow> ('src, 'snk) StreamExecutionEnv" where
  "WithCheckpointing interval storage env =
     env\<lparr> checkpointInterval := interval, checkpointStorage := Some storage \<rparr>"

definition WithStateBackend ::
  "BackendFactory \<Rightarrow> ('src, 'snk) StreamExecutionEnv \<Rightarrow> ('src, 'snk) StreamExecutionEnv" where
  "WithStateBackend f env = env\<lparr> stateFactory := Some f \<rparr>"

definition FromSource :: "'src \<Rightarrow> ('src, 'snk) StreamExecutionEnv \<Rightarrow> ('src, 'snk) StreamExecutionEnv" where
  "FromSource src env = env\<lparr> env_source := Some src \<rparr>"

definition ToSink :: "'snk \<Rightarrow> ('src, 'snk) StreamExecutionEnv \<Rightarrow> ('src, 'snk) StreamExecutionEnv" where
  "ToSink sk env = env\<lparr> env_sink := Some sk \<rparr>"

subsection \<open>Streams\<close>

text \<open>
  A stream is the environment it builds. The label is a variadic argument, of which the first is used.
\<close>

definition first_label :: "bytes list \<Rightarrow> bytes" where
  "first_label labels = (case labels of [] \<Rightarrow> '''' | l # _ \<Rightarrow> l)"

definition add_op :: "Operator \<Rightarrow> ('src, 'snk) StreamExecutionEnv \<Rightarrow> ('src, 'snk) StreamExecutionEnv" where
  "add_op op env = env\<lparr> env_operators := env_operators env @ [op] \<rparr>"

definition Stream_Map ::
  "(Record \<Rightarrow> Record) \<Rightarrow> bytes list \<Rightarrow> ('src, 'snk) StreamExecutionEnv \<Rightarrow> ('src, 'snk) StreamExecutionEnv" where
  "Stream_Map fn label = add_op (StatelessOperator (MapOperator fn) 0 (first_label label))"

definition Stream_FlatMap ::
  "(Record \<Rightarrow> Record list) \<Rightarrow> bytes list \<Rightarrow> ('src, 'snk) StreamExecutionEnv \<Rightarrow> ('src, 'snk) StreamExecutionEnv" where
  "Stream_FlatMap fn label = add_op (StatelessOperator (FlatMapOperator fn) 0 (first_label label))"

text \<open>The options of a process operator are its policy, its queue and its label.\<close>

definition Stream_Process ::
  "ProcessOperator \<Rightarrow> bytes \<Rightarrow> ('src, 'snk) StreamExecutionEnv \<Rightarrow> ('src, 'snk) StreamExecutionEnv" where
  "Stream_Process p label = add_op (StatelessOperator (ProcessOp p) 0 label)"

definition Stream_Filter ::
  "(Record \<Rightarrow> bool) \<Rightarrow> bytes list \<Rightarrow> ('src, 'snk) StreamExecutionEnv \<Rightarrow> ('src, 'snk) StreamExecutionEnv" where
  "Stream_Filter fn label = add_op (StatelessOperator (FilterOperator fn) 0 (first_label label))"

definition Stream_KeyBy ::
  "(Record \<Rightarrow> bytes) \<Rightarrow> bytes list \<Rightarrow> ('src, 'snk) StreamExecutionEnv \<Rightarrow> ('src, 'snk) StreamExecutionEnv" where
  "Stream_KeyBy fn label = add_op (KeyByOp (KeyBy fn) (first_label label))"

fun set_partitions :: "int \<Rightarrow> Operator \<Rightarrow> Operator" where
  "set_partitions n (KeyByOp kb label) = KeyByOp (kb\<lparr> Partitions := n \<rparr>) label"
| "set_partitions n op = op"

fun set_parallelism :: "int \<Rightarrow> Operator \<Rightarrow> Operator" where
  "set_parallelism n (StatelessOperator f par label) = StatelessOperator f n label"
| "set_parallelism n op = op"

definition on_last :: "(Operator \<Rightarrow> Operator) \<Rightarrow> ('src, 'snk) StreamExecutionEnv \<Rightarrow> ('src, 'snk) StreamExecutionEnv" where
  "on_last f env =
     (if env_operators env = [] then env
      else env\<lparr> env_operators := butlast (env_operators env) @ [f (last (env_operators env))] \<rparr>)"

definition WithPartitions :: "int \<Rightarrow> ('src, 'snk) StreamExecutionEnv \<Rightarrow> ('src, 'snk) StreamExecutionEnv" where
  "WithPartitions n = on_last (set_partitions n)"

definition WithParallelism :: "int \<Rightarrow> ('src, 'snk) StreamExecutionEnv \<Rightarrow> ('src, 'snk) StreamExecutionEnv" where
  "WithParallelism n = on_last (set_parallelism n)"

definition Stream_Reduce ::
  "ReduceFn \<Rightarrow> bytes list \<Rightarrow> ('src, 'snk) StreamExecutionEnv \<Rightarrow> ('src, 'snk) StreamExecutionEnv" where
  "Stream_Reduce fn label = add_op (ReduceOp fn (first_label label))"

definition Stream_Window ::
  "WindowAssigner \<Rightarrow> bytes list \<Rightarrow> ('src, 'snk) StreamExecutionEnv \<Rightarrow> ('src, 'snk) StreamExecutionEnv" where
  "Stream_Window assigner label = add_op (WindowOp assigner 0 None (first_label label))"

definition WindowWithIdleTimeout ::
  "WindowAssigner \<Rightarrow> int \<Rightarrow> bytes list \<Rightarrow> ('src, 'snk) StreamExecutionEnv \<Rightarrow> ('src, 'snk) StreamExecutionEnv" where
  "WindowWithIdleTimeout assigner idle label = add_op (WindowOp assigner idle None (first_label label))"

definition WindowReduce ::
  "WindowAssigner \<Rightarrow> ReduceFn \<Rightarrow> bytes list \<Rightarrow> ('src, 'snk) StreamExecutionEnv \<Rightarrow> ('src, 'snk) StreamExecutionEnv" where
  "WindowReduce assigner fn label = add_op (WindowOp assigner 0 (Some fn) (first_label label))"

definition WindowReduceWithIdleTimeout ::
  "WindowAssigner \<Rightarrow> ReduceFn \<Rightarrow> int \<Rightarrow> bytes list \<Rightarrow> ('src, 'snk) StreamExecutionEnv \<Rightarrow> ('src, 'snk) StreamExecutionEnv" where
  "WindowReduceWithIdleTimeout assigner fn idle label =
     add_op (WindowOp assigner idle (Some fn) (first_label label))"

definition operatorLabels :: "('src, 'snk) StreamExecutionEnv \<Rightarrow> bytes list" where
  "operatorLabels env =
     map (\<lambda>op. if GetLabel op \<noteq> '''' then GetLabel op else Name op) (env_operators env)"

subsection \<open>State backends and hooks\<close>

text \<open>
  A backend is in memory or a database in a directory. Only the second can be checkpointed natively.
  Opening one calls the system, which may fail; the calls so far are in the state of the engine with the
  clones registered and the backends to be closed.
\<close>

datatype state_backend = RamBackend | DiskBackend bytes

fun Checkpointable :: "state_backend \<Rightarrow> bool" where
  "Checkpointable RamBackend = False"
| "Checkpointable (DiskBackend dir) = True"

datatype plan_error = NoSource | NoSink | LabelMismatch nat nat | BadPartitions int | BackendFailed bytes

record plan_env =
  workerOps :: "Operator list"
  stateClosers :: "state_backend list"
  opens :: "bytes \<Rightarrow> bool"

fun create_backend :: "BackendFactory \<Rightarrow> bytes \<Rightarrow> plan_env \<Rightarrow> state_backend option" where
  "create_backend InMemory ownerID env = Some RamBackend"
| "create_backend (Pebble dir) ownerID env =
     (let ownerDir = Join dir ownerID in if opens env ownerDir then Some (DiskBackend ownerDir) else None)"

text \<open>
  The callbacks of the engine, each of which may be missing: registering a clone, which returns its
  index, creating a backend, and whether barrier snapshots and native snapshots are wired.
\<close>

record StageHooks =
  OnClone :: "(Operator \<Rightarrow> plan_env \<Rightarrow> int \<times> plan_env) option"
  OnSnapshot :: bool
  StateBackendFor :: "(bytes \<Rightarrow> plan_env \<Rightarrow> state_backend option \<times> plan_env) option"
  NativeStateDir :: bool

text \<open>A stateful operator as it runs: its owner, its backend and the snapshots it was wired for.\<close>

record op_instance =
  inst_op :: Operator
  inst_owner :: "bytes option"
  inst_backend :: state_backend
  inst_native :: bool
  inst_snapshots :: bool

definition fresh_instance :: "Operator \<Rightarrow> op_instance" where
  "fresh_instance op = \<lparr> inst_op = op, inst_owner = None, inst_backend = RamBackend, inst_native = False,
     inst_snapshots = False \<rparr>"

definition assignBackend ::
  "StageHooks \<Rightarrow> bytes \<Rightarrow> op_instance \<Rightarrow> plan_env \<Rightarrow> (plan_error + op_instance) \<times> plan_env" where
  "assignBackend h ownerID op env =
     (if \<not> Cloneable (inst_op op) then (Inr op, env)
      else case StateBackendFor h of
        None \<Rightarrow> (Inr op, env)
      | Some create \<Rightarrow>
          (case create ownerID env of
             (None, env') \<Rightarrow> (Inl (BackendFailed ownerID), env')
           | (Some b, env') \<Rightarrow> (Inr (op\<lparr> inst_backend := b \<rparr>), env')))"

definition wireNativeSnapshot :: "StageHooks \<Rightarrow> op_instance \<Rightarrow> op_instance" where
  "wireNativeSnapshot h op =
     (if NativeStateDir h \<and> Cloneable (inst_op op) \<and> Checkpointable (inst_backend op)
      then op\<lparr> inst_native := True \<rparr> else op)"

definition wireBarrierSnapshot :: "StageHooks \<Rightarrow> op_instance \<Rightarrow> op_instance" where
  "wireBarrierSnapshot h op =
     (if Cloneable (inst_op op) \<and> OnSnapshot h then op\<lparr> inst_snapshots := True \<rparr> else op)"

text \<open>An instance with an owner: its backend and its snapshots.\<close>

definition equip ::
  "StageHooks \<Rightarrow> bytes \<Rightarrow> Operator \<Rightarrow> plan_env \<Rightarrow> (plan_error + op_instance) \<times> plan_env" where
  "equip h ownerID op env =
     (case assignBackend h ownerID ((fresh_instance op)\<lparr> inst_owner := Some ownerID \<rparr>) env of
        (Inl e, env') \<Rightarrow> (Inl e, env')
      | (Inr i, env') \<Rightarrow> (Inr (wireBarrierSnapshot h (wireNativeSnapshot h i)), env'))"

subsection \<open>Keyed stages\<close>

fun clone_chain ::
  "StageHooks \<Rightarrow> Operator list \<Rightarrow> plan_env \<Rightarrow> (plan_error + op_instance list) \<times> plan_env" where
  "clone_chain h [] env = (Inr [], env)"
| "clone_chain h (op # ops) env =
     (let (idx, env1) = (case OnClone h of None \<Rightarrow> (-1, env) | Some f \<Rightarrow> f op env) in
      case (if 0 \<le> idx then equip h (''worker-'' @ int_text idx) op env1 else (Inr (fresh_instance op), env1)) of
        (Inl e, env2) \<Rightarrow> (Inl e, env2)
      | (Inr clone, env2) \<Rightarrow>
          (case clone_chain h ops env2 of
             (Inl e, env3) \<Rightarrow> (Inl e, env3)
           | (Inr chain, env3) \<Rightarrow> (Inr (clone # chain), env3)))"

fun clone_workers ::
  "StageHooks \<Rightarrow> Operator list \<Rightarrow> nat \<Rightarrow> plan_env \<Rightarrow> (plan_error + op_instance list list) \<times> plan_env" where
  "clone_workers h ops 0 env = (Inr [], env)"
| "clone_workers h ops (Suc n) env =
     (case clone_chain h ops env of
        (Inl e, env1) \<Rightarrow> (Inl e, env1)
      | (Inr chain, env1) \<Rightarrow>
          (case clone_workers h ops n env1 of
             (Inl e, env2) \<Rightarrow> (Inl e, env2)
           | (Inr workers, env2) \<Rightarrow> (Inr (chain # workers), env2)))"

text \<open>The stages of a plan.\<close>

datatype ('src, 'snk) Stage =
    SourceStage 'src int
  | StatelessStage bytes "Operator list" "bytes list" int
  | KeyedStage bytes KeyByOperator bytes "op_instance list list"
  | ChannelStage bytes op_instance bytes
  | SinkStage 'snk

definition NewKeyedStage ::
  "StageHooks \<Rightarrow> bytes \<Rightarrow> KeyByOperator \<Rightarrow> bytes \<Rightarrow> Operator list \<Rightarrow> plan_env \<Rightarrow>
     (plan_error + ('src, 'snk) Stage) \<times> plan_env" where
  "NewKeyedStage h stageName kb label ops env =
     (case clone_workers h ops (nat (Partitions kb)) env of
        (Inl e, env') \<Rightarrow> (Inl e, env')
      | (Inr workers, env') \<Rightarrow> (Inr (KeyedStage stageName kb label workers), env'))"

definition takeStateful :: "Operator list \<Rightarrow> Operator list" where
  "takeStateful ops = takeWhile Cloneable ops"

subsection \<open>The planner\<close>

record ('src, 'snk) plan_state =
  stages :: "('src, 'snk) Stage list"
  group :: "Operator list"
  groupLabels :: "bytes list"
  groupPar :: int
  statelessCount :: nat
  keyedCount :: nat
  channelCount :: nat

definition flush :: "('src, 'snk) plan_state \<Rightarrow> ('src, 'snk) plan_state" where
  "flush p =
     (if group p = [] then p
      else p\<lparr> stages := stages p @ [StatelessStage (''stateless-'' @ nat_text (statelessCount p)) (group p)
                 (groupLabels p) (groupPar p)],
              statelessCount := Suc (statelessCount p), group := [], groupLabels := [] \<rparr>)"

definition add_stateless :: "Operator \<Rightarrow> int \<Rightarrow> bytes \<Rightarrow> ('src, 'snk) plan_state \<Rightarrow> ('src, 'snk) plan_state" where
  "add_stateless op par label p =
     (let p1 = (if group p \<noteq> [] \<and> par \<noteq> groupPar p then flush p else p)
      in p1\<lparr> groupPar := par, group := group p1 @ [op], groupLabels := groupLabels p1 @ [label] \<rparr>)"

definition add_keyed :: "('src, 'snk) Stage \<Rightarrow> ('src, 'snk) plan_state \<Rightarrow> ('src, 'snk) plan_state" where
  "add_keyed ks p = p\<lparr> keyedCount := Suc (keyedCount p), stages := stages p @ [ks] \<rparr>"

definition add_channel :: "op_instance \<Rightarrow> bytes \<Rightarrow> ('src, 'snk) plan_state \<Rightarrow> ('src, 'snk) plan_state" where
  "add_channel op label p =
     p\<lparr> stages := stages p @ [ChannelStage (''op-'' @ Name (inst_op op) @ ''-'' @ nat_text (channelCount p)) op label],
        channelCount := Suc (channelCount p) \<rparr>"

text \<open>The loop over the operators with their labels; a keyed stage consumes the stateful operators behind it.\<close>

function plan_loop ::
  "StageHooks \<Rightarrow> nat \<Rightarrow> (Operator \<times> bytes) list \<Rightarrow> ('src, 'snk) plan_state \<Rightarrow> plan_env \<Rightarrow>
     (plan_error + ('src, 'snk) plan_state) \<times> plan_env" where
  "plan_loop h i [] p env = (Inr p, env)"
| "plan_loop h i ((KeyByOp kb kl, label) # ops) p env =
     (if Partitions kb \<le> 0 then (Inl (BadPartitions (Partitions kb)), env)
      else (let p1 = flush p; stateful = takeStateful (map fst ops); skip = length stateful in
        case NewKeyedStage h (''keyed-'' @ nat_text (keyedCount p1)) kb kl stateful env of
          (Inl e, env') \<Rightarrow> (Inl e, env')
        | (Inr ks, env') \<Rightarrow> plan_loop h (i + skip + 1) (drop skip ops) (add_keyed ks p1) env'))"
| "plan_loop h i ((StatelessOperator f par ol, label) # ops) p env =
     plan_loop h (i + 1) ops (add_stateless (StatelessOperator f par ol) (Parallelism par) label p) env"
| "plan_loop h i ((WindowOp a idle red ol, label) # ops) p env =
     (case equip h (''op-'' @ nat_text i) (WindowOp a idle red ol) env of
        (Inl e, env') \<Rightarrow> (Inl e, env')
      | (Inr op, env') \<Rightarrow> plan_loop h (i + 1) ops (add_channel op label (flush p)) env')"
| "plan_loop h i ((ReduceOp fn ol, label) # ops) p env =
     (case equip h (''op-'' @ nat_text i) (ReduceOp fn ol) env of
        (Inl e, env') \<Rightarrow> (Inl e, env')
      | (Inr op, env') \<Rightarrow> plan_loop h (i + 1) ops (add_channel op label (flush p)) env')"
  by pat_completeness auto
termination
  by (relation "measure (\<lambda>(h, i, ops, p, env). length ops)") (auto simp: less_Suc_eq_le)

record ('src, 'snk) PlanConfig =
  pc_Source :: "'src option"
  pc_Operators :: "Operator list"
  pc_Labels :: "bytes list"
  pc_Sink :: "'snk option"
  DrainTimeout :: int
  pc_Hooks :: StageHooks

definition BuildPlan ::
  "('src, 'snk) PlanConfig \<Rightarrow> plan_env \<Rightarrow> (plan_error + ('src, 'snk) Stage list) \<times> plan_env" where
  "BuildPlan cfg env =
     (case pc_Source cfg of
        None \<Rightarrow> (Inl NoSource, env)
      | Some src \<Rightarrow>
     (case pc_Sink cfg of
        None \<Rightarrow> (Inl NoSink, env)
      | Some snk \<Rightarrow>
     (if length (pc_Labels cfg) \<noteq> length (pc_Operators cfg)
      then (Inl (LabelMismatch (length (pc_Labels cfg)) (length (pc_Operators cfg))), env)
      else case plan_loop (pc_Hooks cfg) 0 (zip (pc_Operators cfg) (pc_Labels cfg))
                  \<lparr> stages = [SourceStage src (DrainTimeout cfg)], group = [], groupLabels = [], groupPar = 1,
                    statelessCount = 0, keyedCount = 0, channelCount = 0 \<rparr> env of
               (Inl e, env') \<Rightarrow> (Inl e, env')
             | (Inr p, env') \<Rightarrow> (Inr (stages (flush p) @ [SinkStage snk]), env'))))"

subsection \<open>The hooks of the engine\<close>

definition OnClone_engine :: "Operator \<Rightarrow> plan_env \<Rightarrow> int \<times> plan_env" where
  "OnClone_engine op env =
     (let env' = env\<lparr> workerOps := workerOps env @ [op] \<rparr> in (int (length (workerOps env')) - 1, env'))"

definition backendFor :: "BackendFactory \<Rightarrow> bytes \<Rightarrow> plan_env \<Rightarrow> state_backend option \<times> plan_env" where
  "backendFor f ownerID env =
     (case create_backend f ownerID env of
        None \<Rightarrow> (None, env)
      | Some RamBackend \<Rightarrow> (Some RamBackend, env)
      | Some (DiskBackend dir) \<Rightarrow>
          (Some (DiskBackend dir), env\<lparr> stateClosers := stateClosers env @ [DiskBackend dir] \<rparr>))"

definition engine_hooks :: "('src, 'snk) StreamExecutionEnv \<Rightarrow> StageHooks" where
  "engine_hooks env = \<lparr> OnClone = Some OnClone_engine, OnSnapshot = True,
     StateBackendFor = map_option backendFor (stateFactory env),
     NativeStateDir = (checkpointStorage env \<noteq> None \<and> 0 < checkpointInterval env) \<rparr>"

text \<open>The plan that \<open>Execute\<close> runs; the directories that open are a parameter.\<close>

definition plan_of ::
  "(bytes \<Rightarrow> bool) \<Rightarrow> ('src, 'snk) StreamExecutionEnv \<Rightarrow> (plan_error + ('src, 'snk) Stage list) \<times> plan_env" where
  "plan_of opens_dir env =
     BuildPlan \<lparr> pc_Source = env_source env, pc_Operators = env_operators env, pc_Labels = operatorLabels env,
         pc_Sink = env_sink env, DrainTimeout = shutdownTimeout env, pc_Hooks = engine_hooks env \<rparr>
       \<lparr> workerOps = [], stateClosers = [], opens = opens_dir \<rparr>"

subsection \<open>Description\<close>

fun Stage_Name :: "('src, 'snk) Stage \<Rightarrow> bytes" where
  "Stage_Name (SourceStage src t) = ''source''"
| "Stage_Name (StatelessStage n ops labels par) = n"
| "Stage_Name (KeyedStage n kb label workers) = (if n \<noteq> '''' then n else ''keyed'')"
| "Stage_Name (ChannelStage n op label) = (if n \<noteq> '''' then n else ''op-'' @ Name (inst_op op))"
| "Stage_Name (SinkStage snk) = ''sink''"

record PlanNode =
  pn_Name :: bytes
  pn_Type :: bytes
  pn_Parallelism :: int
  pn_Operators :: "bytes list"

record PlanEdge =
  From :: bytes
  To :: bytes
  pe_Name :: bytes

fun planNode :: "('src, 'snk) Stage \<Rightarrow> PlanNode" where
  "planNode (SourceStage src t) =
     \<lparr> pn_Name = ''source'', pn_Type = ''source'', pn_Parallelism = 1, pn_Operators = [] \<rparr>"
| "planNode (StatelessStage n ops labels par) =
     \<lparr> pn_Name = n, pn_Type = ''stateless'', pn_Parallelism = (if par < 1 then 1 else par),
       pn_Operators = map Name ops \<rparr>"
| "planNode (KeyedStage n kb label workers) =
     \<lparr> pn_Name = (if n \<noteq> '''' then n else ''keyed''), pn_Type = ''keyed'', pn_Parallelism = int (length workers),
       pn_Operators = ''KeyBy'' # (case workers of [] \<Rightarrow> [] | chain # _ \<Rightarrow> map (\<lambda>i. Name (inst_op i)) chain) \<rparr>"
| "planNode (ChannelStage n op label) =
     \<lparr> pn_Name = Stage_Name (ChannelStage n op label :: ('src, 'snk) Stage), pn_Type = ''channel'', pn_Parallelism = 1,
       pn_Operators = [Name (inst_op op)] \<rparr>"
| "planNode (SinkStage snk) =
     \<lparr> pn_Name = ''sink'', pn_Type = ''sink'', pn_Parallelism = 1, pn_Operators = [] \<rparr>"

definition DescribePlan :: "('src, 'snk) Stage list \<Rightarrow> PlanNode list \<times> PlanEdge list" where
  "DescribePlan sts =
     (map planNode sts,
      map (\<lambda>i. \<lparr> From = Stage_Name (sts ! i), To = Stage_Name (sts ! Suc i), pe_Name = ''edge-'' @ nat_text i \<rparr>)
        [0..<length sts - 1])"


end
