(* ===== verification/Plan_Proofs.thy ===== *)
theory Plan_Proofs
  imports Stage_Plan
begin

text \<open>
  What the planner promises: the plan runs every operator of the pipeline once and in order, the names of
  its stages are unique, every instance of a stateful operator has a state owner of its own, and with it
  a database directory of its own, and planning fails only for what it reports.
\<close>

subsection \<open>Operators and instances of a plan\<close>

fun stage_ops :: "('src, 'snk) Stage \<Rightarrow> Operator list" where
  "stage_ops (StatelessStage n ops labels par) = ops"
| "stage_ops (KeyedStage n kb label workers) =
     KeyByOp kb label # (case workers of [] \<Rightarrow> [] | chain # _ \<Rightarrow> map inst_op chain)"
| "stage_ops (ChannelStage n op label) = [inst_op op]"
| "stage_ops st = []"

fun stage_instances :: "('src, 'snk) Stage \<Rightarrow> op_instance list" where
  "stage_instances (KeyedStage n kb label workers) = concat workers"
| "stage_instances (ChannelStage n op label) = [op]"
| "stage_instances st = []"

text \<open>A keyed stage has one chain per partition, and all chains are clones of the same operators.\<close>

fun well_cloned :: "('src, 'snk) Stage \<Rightarrow> bool" where
  "well_cloned (KeyedStage n kb label workers) \<longleftrightarrow>
     0 < Partitions kb \<and> length workers = nat (Partitions kb) \<and>
     (\<forall>chain \<in> set workers. map inst_op chain = map inst_op (hd workers))"
| "well_cloned st \<longleftrightarrow> True"

definition planned :: "('src, 'snk) plan_state \<Rightarrow> Operator list" where
  "planned p = concat (map stage_ops (stages p)) @ group p"

definition instances :: "('src, 'snk) plan_state \<Rightarrow> op_instance list" where
  "instances p = concat (map stage_instances (stages p))"

definition worker_id :: "nat \<Rightarrow> bytes" where
  "worker_id j = ''worker-'' @ nat_text j"

definition op_id :: "nat \<Rightarrow> bytes" where
  "op_id j = ''op-'' @ nat_text j"

lemma ids_inj [simp]: "worker_id i = worker_id j \<longleftrightarrow> i = j" "op_id i = op_id j \<longleftrightarrow> i = j"
  "worker_id i \<noteq> op_id j" "op_id j \<noteq> worker_id i"
  by (simp_all add: worker_id_def op_id_def)

text \<open>The backend an instance gets from the factory of the environment.\<close>

definition backed :: "BackendFactory option \<Rightarrow> op_instance \<Rightarrow> bool" where
  "backed f i \<longleftrightarrow> Cloneable (inst_op i) \<and>
     (\<exists>owner. inst_owner i = Some owner \<and>
        inst_backend i = (case f of Some (Pebble dir) \<Rightarrow> DiskBackend (Join dir owner) | _ \<Rightarrow> RamBackend))"

definition engine_like :: "BackendFactory option \<Rightarrow> StageHooks \<Rightarrow> bool" where
  "engine_like f h \<longleftrightarrow> OnClone h = Some OnClone_engine \<and> StateBackendFor h = map_option backendFor f"

lemma backendFor_Some:
  assumes "backendFor f owner env = (Some b, env')"
  shows "b = (case f of Pebble dir \<Rightarrow> DiskBackend (Join dir owner) | InMemory \<Rightarrow> RamBackend) \<and>
    workerOps env' = workerOps env \<and> opens env' = opens env"
  using assms by (cases f) (auto simp: backendFor_def Let_def split: if_splits)

lemma equip_Inr:
  assumes "equip h owner op env = (Inr i, env')" "engine_like f h" "Cloneable op"
  shows "inst_op i = op" "inst_owner i = Some owner" "backed f i" "workerOps env' = workerOps env" "opens env' = opens env"
proof -
  have "inst_op i = op \<and> inst_owner i = Some owner \<and> backed f i \<and> workerOps env' = workerOps env \<and> opens env' = opens env"
  proof (cases f)
    case None
    then show ?thesis
      using assms by (auto simp: equip_def assignBackend_def engine_like_def fresh_instance_def wireNativeSnapshot_def
          wireBarrierSnapshot_def backed_def split: if_splits)
  next
    case (Some g)
    then show ?thesis
      using assms backendFor_Some [of g owner env]
      by (auto simp: equip_def assignBackend_def engine_like_def fresh_instance_def wireNativeSnapshot_def
          wireBarrierSnapshot_def backed_def split: if_splits option.splits BackendFactory.splits prod.splits)
  qed
  then show "inst_op i = op" "inst_owner i = Some owner" "backed f i" "workerOps env' = workerOps env" "opens env' = opens env"
    by auto
qed

text \<open>The clones of one chain, and of all workers, are numbered in the order they are registered.\<close>

definition owned :: "nat \<Rightarrow> nat \<Rightarrow> bytes option list" where
  "owned m n = map (\<lambda>j. Some (worker_id j)) [m..<n]"

lemma owned_append: "k \<le> m \<Longrightarrow> m \<le> n \<Longrightarrow> owned k m @ owned m n = owned k n"
proof -
  assume "k \<le> m" "m \<le> n"
  then obtain d where "n = m + d" using le_Suc_ex by blast
  then show ?thesis using \<open>k \<le> m\<close> by (simp add: owned_def upt_add_eq_append [of k m d])
qed

lemma clone_chain_Inr:
  assumes "clone_chain h ops env = (Inr chain, env')" "engine_like f h" "list_all Cloneable ops"
  shows "map inst_op chain = ops \<and> workerOps env' = workerOps env @ ops \<and> opens env' = opens env \<and>
    map inst_owner chain = owned (length (workerOps env)) (length (workerOps env')) \<and> list_all (backed f) chain"
  using assms
proof (induction ops arbitrary: env chain)
  case Nil
  then show ?case by (simp add: owned_def)
next
  case (Cons op ops)
  let ?n = "length (workerOps env)"
  let ?env1 = "env\<lparr> workerOps := workerOps env @ [op] \<rparr>"
  have idx: "OnClone_engine op env = (int ?n, ?env1)" by (simp add: OnClone_engine_def Let_def)
  have on: "OnClone h = Some OnClone_engine" using Cons.prems(2) by (simp add: engine_like_def)
  obtain clone env2 chain' where e: "equip h (worker_id ?n) op ?env1 = (Inr clone, env2)"
    and c: "clone_chain h ops env2 = (Inr chain', env')" "chain = clone # chain'"
    using Cons.prems(1) idx on by (auto simp: worker_id_def int_text_def split: prod.splits sum.splits)
  note eq = equip_Inr [OF e Cons.prems(2)]
  have cl: "Cloneable op" "list_all Cloneable ops" using Cons.prems(3) by simp_all
  note ih = Cons.IH [OF c(1) Cons.prems(2) cl(2)]
  have "owned ?n (Suc ?n) @ owned (Suc ?n) (length (workerOps env')) = owned ?n (length (workerOps env'))"
    using ih eq(4) [OF cl(1)] by (intro owned_append) auto
  then have "Some (worker_id ?n) # owned (Suc ?n) (length (workerOps env')) = owned ?n (length (workerOps env'))"
    by (simp add: owned_def)
  then show ?case using ih eq [OF cl(1)] c(2) by simp
qed

lemma clone_workers_Inr:
  assumes "clone_workers h ops n env = (Inr workers, env')" "engine_like f h" "list_all Cloneable ops"
  shows "length workers = n \<and> (\<forall>chain \<in> set workers. map inst_op chain = ops) \<and> opens env' = opens env \<and>
    length (workerOps env) \<le> length (workerOps env') \<and>
    map inst_owner (concat workers) = owned (length (workerOps env)) (length (workerOps env')) \<and>
    list_all (backed f) (concat workers)"
  using assms
proof (induction n arbitrary: env workers)
  case 0
  then show ?case by (simp add: owned_def)
next
  case (Suc n)
  obtain chain env1 ws where c: "clone_chain h ops env = (Inr chain, env1)"
    and w: "clone_workers h ops n env1 = (Inr ws, env')" "workers = chain # ws"
    using Suc.prems(1) by (auto split: prod.splits sum.splits)
  note ch = clone_chain_Inr [OF c Suc.prems(2,3)]
  note ih = Suc.IH [OF w(1) Suc.prems(2,3)]
  have le: "length (workerOps env) \<le> length (workerOps env1)" using ch by simp
  then show ?case
    using ch ih w(2) owned_append [OF le, of "length (workerOps env')"] by auto
qed

subsection \<open>Invariants of the planner\<close>

definition name_ok :: "('src, 'snk) plan_state \<Rightarrow> bytes \<Rightarrow> bool" where
  "name_ok p n \<longleftrightarrow> n = ''source'' \<or> (\<exists>j < statelessCount p. n = ''stateless-'' @ nat_text j) \<or>
     (\<exists>j < keyedCount p. n = ''keyed-'' @ nat_text j) \<or>
     (\<exists>j < channelCount p. \<exists>w. n = ''op-'' @ w @ ''-'' @ nat_text j)"

definition names_inv :: "('src, 'snk) plan_state \<Rightarrow> bool" where
  "names_inv p \<longleftrightarrow> distinct (map Stage_Name (stages p)) \<and> (\<forall>n \<in> Stage_Name ` set (stages p). name_ok p n)"

definition owners_inv :: "nat \<Rightarrow> ('src, 'snk) plan_state \<Rightarrow> plan_env \<Rightarrow> bool" where
  "owners_inv i p env \<longleftrightarrow> distinct (map inst_owner (instances p)) \<and>
     (\<forall>o' \<in> inst_owner ` set (instances p).
        (\<exists>j < length (workerOps env). o' = Some (worker_id j)) \<or> (\<exists>j < i. o' = Some (op_id j)))"

definition parts_inv :: "BackendFactory option \<Rightarrow> ('src, 'snk) plan_state \<Rightarrow> bool" where
  "parts_inv f p \<longleftrightarrow> list_all well_cloned (stages p) \<and> list_all (backed f) (instances p)"

lemma channel_name_inj: "''op-'' @ v @ ''-'' @ nat_text i = ''op-'' @ w @ ''-'' @ nat_text j \<Longrightarrow> i = j"
  using split_last_dash [of "nat_text i" "nat_text j" "''op-'' @ v" "''op-'' @ w"] by simp

lemma flush_simps [simp]:
  "planned (flush p) = planned p" "instances (flush p) = instances p" "group (flush p) = []"
  "keyedCount (flush p) = keyedCount p" "channelCount (flush p) = channelCount p"
  by (auto simp: flush_def planned_def instances_def)

lemma fresh_name:
  assumes "names_inv p" "\<not> name_ok p (Stage_Name st)" "stages q = stages p @ [st]" "name_ok q (Stage_Name st)"
    "statelessCount p \<le> statelessCount q" "keyedCount p \<le> keyedCount q" "channelCount p \<le> channelCount q"
  shows "names_inv q"
proof -
  have mono: "name_ok p n \<Longrightarrow> name_ok q n" for n
    using assms(5-7) unfolding name_ok_def by (blast intro: order_less_le_trans)
  have "Stage_Name st \<notin> Stage_Name ` set (stages p)" using assms(1,2) by (auto simp: names_inv_def)
  then show ?thesis using assms(1,3,4) mono by (auto simp: names_inv_def)
qed

lemma flush_names: "names_inv p \<Longrightarrow> names_inv (flush p)"
proof (cases "group p = []")
  case False
  assume inv: "names_inv p"
  show ?thesis
  proof (rule fresh_name [OF inv])
    show "stages (flush p) = stages p @ [StatelessStage (''stateless-'' @ nat_text (statelessCount p)) (group p)
        (groupLabels p) (groupPar p)]"
      using False by (simp add: flush_def)
  qed (use False in \<open>auto simp: flush_def name_ok_def\<close>)
qed (simp add: flush_def)

lemma keyed_names:
  assumes "names_inv p" "Stage_Name ks = ''keyed-'' @ nat_text (keyedCount p)"
  shows "names_inv (add_keyed ks p)"
  by (rule fresh_name [OF assms(1), of ks]) (auto simp: add_keyed_def name_ok_def assms(2))

lemma channel_names:
  assumes "names_inv p"
  shows "names_inv (add_channel op label p)"
proof (rule fresh_name [OF assms])
  let ?st = "ChannelStage (''op-'' @ Name (inst_op op) @ ''-'' @ nat_text (channelCount p)) op label"
  show "stages (add_channel op label p) = stages p @ [?st]" by (simp add: add_channel_def)
  show "\<not> name_ok p (Stage_Name ?st)"
    using channel_name_inj [of "Name (inst_op op)" "channelCount p"] by (auto simp: name_ok_def)
qed (auto simp: add_channel_def name_ok_def)

lemma flush_parts: "parts_inv f p \<Longrightarrow> parts_inv f (flush p)"
  by (auto simp: parts_inv_def) (auto simp: flush_def)

lemma flush_owners [simp]: "owners_inv i (flush p) env = owners_inv i p env"
  by (simp add: owners_inv_def)

lemma stateless_simps [simp]:
  "planned (add_stateless op par label p) = planned p @ [op]"
  "instances (add_stateless op par label p) = instances p"
  by (simp_all add: add_stateless_def Let_def instances_def planned_def flush_def)

lemma stateless_names: "names_inv p \<Longrightarrow> names_inv (add_stateless op par label p)"
  using flush_names [of p] by (simp add: add_stateless_def Let_def names_inv_def name_ok_def)

lemma stateless_parts: "parts_inv f p \<Longrightarrow> parts_inv f (add_stateless op par label p)"
  using flush_parts [of f p] by (simp add: parts_inv_def) (simp add: add_stateless_def Let_def)

lemma owners_later: "owners_inv i p env \<Longrightarrow> i \<le> j \<Longrightarrow> owners_inv j p env"
  unfolding owners_inv_def by (blast intro: order_less_le_trans)

lemma owned_facts: "distinct (owned m n)" "o' \<in> set (owned m n) \<longleftrightarrow> (\<exists>j. m \<le> j \<and> j < n \<and> o' = Some (worker_id j))"
  by (auto simp: owned_def distinct_map inj_on_def)

lemma takeStateful_Cloneable: "list_all Cloneable (takeStateful ops)"
  by (auto simp: takeStateful_def list_all_iff dest: set_takeWhileD)

lemma NewKeyedStage_Inr:
  assumes "NewKeyedStage h name kb kl ops env = (Inr ks, env')" "engine_like f h" "0 < Partitions kb"
    "list_all Cloneable ops" "name \<noteq> ''''"
  shows "stage_ops ks = KeyByOp kb kl # ops \<and> Stage_Name ks = name \<and> well_cloned ks \<and>
    list_all (backed f) (stage_instances ks) \<and> length (workerOps env) \<le> length (workerOps env') \<and>
    map inst_owner (stage_instances ks) = owned (length (workerOps env)) (length (workerOps env'))"
proof -
  obtain workers where w: "clone_workers h ops (nat (Partitions kb)) env = (Inr workers, env')"
    and ks: "ks = KeyedStage name kb kl workers"
    using assms(1) by (auto simp: NewKeyedStage_def split: prod.splits sum.splits)
  note cw = clone_workers_Inr [OF w assms(2,4)]
  then obtain chain ws where "workers = chain # ws" using assms(3) by (cases workers) auto
  then show ?thesis using cw ks assms(3,5) by simp
qed

lemma add_keyed_simps [simp]:
  "instances (add_keyed ks p) = instances p @ stage_instances ks"
  "group p = [] \<Longrightarrow> planned (add_keyed ks p) = planned p @ stage_ops ks"
  by (simp_all add: add_keyed_def instances_def planned_def)

lemma add_channel_simps [simp]:
  "instances (add_channel op label p) = instances p @ [op]"
  "group p = [] \<Longrightarrow> planned (add_channel op label p) = planned p @ [inst_op op]"
  by (simp_all add: add_channel_def instances_def planned_def)

lemma keyed_owners:
  assumes "owners_inv i p env" "map inst_owner (stage_instances ks) = owned (length (workerOps env)) (length (workerOps env'))"
    "length (workerOps env) \<le> length (workerOps env')"
  shows "owners_inv i (add_keyed ks p) env'"
proof -
  let ?new = "owned (length (workerOps env)) (length (workerOps env'))"
  have new: "inst_owner ` set (stage_instances ks) = set ?new" using assms(2) by (metis set_map)
  have "set ?new \<inter> inst_owner ` set (instances p) = {}"
    using assms(1) by (fastforce simp: owners_inv_def owned_facts)
  then have d: "distinct (map inst_owner (instances (add_keyed ks p)))"
    using assms(1) by (auto simp: assms(2) owned_facts(1) owners_inv_def simp flip: set_map)
  have u: "inst_owner ` set (instances (add_keyed ks p)) = inst_owner ` set (instances p) \<union> set ?new"
    using new by (simp add: image_Un)
  have "\<forall>o' \<in> set ?new. \<exists>j < length (workerOps env'). o' = Some (worker_id j)" by (auto simp: owned_facts)
  moreover have "\<forall>o' \<in> inst_owner ` set (instances p).
      (\<exists>j < length (workerOps env'). o' = Some (worker_id j)) \<or> (\<exists>j < i. o' = Some (op_id j))"
    using assms(1,3) unfolding owners_inv_def by (blast intro: order_less_le_trans)
  ultimately show ?thesis using d unfolding owners_inv_def u by blast
qed

lemma channel_owners:
  assumes "owners_inv i p env" "inst_owner op = Some (op_id i)" "workerOps env' = workerOps env"
  shows "owners_inv (Suc i) (add_channel op label p) env'"
proof -
  have "Some (op_id i) \<notin> inst_owner ` set (instances p)" using assms(1) by (fastforce simp: owners_inv_def)
  moreover have "owners_inv (Suc i) p env'" using owners_later [OF assms(1), of "Suc i"] assms(3) by (simp add: owners_inv_def)
  ultimately show ?thesis using assms(2) by (auto simp: owners_inv_def)
qed

lemma keyed_parts:
  "parts_inv f p \<Longrightarrow> well_cloned ks \<Longrightarrow> list_all (backed f) (stage_instances ks) \<Longrightarrow> parts_inv f (add_keyed ks p)"
  by (simp add: parts_inv_def) (simp add: add_keyed_def)

lemma channel_parts: "parts_inv f p \<Longrightarrow> backed f op \<Longrightarrow> parts_inv f (add_channel op label p)"
  by (simp add: parts_inv_def) (simp add: add_channel_def)

definition plan_inv :: "BackendFactory option \<Rightarrow> nat \<Rightarrow> ('src, 'snk) plan_state \<Rightarrow> plan_env \<Rightarrow> bool" where
  "plan_inv f i p env \<longleftrightarrow> names_inv p \<and> owners_inv i p env \<and> parts_inv f p"

lemma plan_channel_step:
  assumes "equip h (''op-'' @ nat_text i) op env = (Inr inst, env')" "Cloneable op" "engine_like f h" "plan_inv f i p env"
  shows "plan_inv f (i + 1) (add_channel inst label (flush p)) env' \<and>
    planned (add_channel inst label (flush p)) = planned p @ [op]"
proof -
  have eq: "inst_op inst = op" "inst_owner inst = Some (op_id i)" "backed f inst" "workerOps env' = workerOps env"
    using equip_Inr [OF assms(1,3,2)] by (simp_all add: op_id_def)
  show ?thesis
    using assms(4) eq by (simp add: plan_inv_def channel_names flush_names channel_parts flush_parts channel_owners [of i _ env])
qed

lemma plan_keyed_step:
  fixes p :: "('src, 'snk) plan_state"
  assumes "NewKeyedStage h (''keyed-'' @ nat_text (keyedCount (flush p))) kb kl ops env = (Inr ks, env')"
    "engine_like f h" "0 < Partitions kb" "list_all Cloneable ops" "plan_inv f i p env" "i \<le> j"
  shows "plan_inv f j (add_keyed ks (flush p)) env' \<and> planned (add_keyed ks (flush p)) = planned p @ KeyByOp kb kl # ops"
proof -
  have k: "stage_ops ks = KeyByOp kb kl # ops" "Stage_Name ks = ''keyed-'' @ nat_text (keyedCount (flush p))"
    "well_cloned ks" "list_all (backed f) (stage_instances ks)" "length (workerOps env) \<le> length (workerOps env')"
    "map inst_owner (stage_instances ks) = owned (length (workerOps env)) (length (workerOps env'))"
    using NewKeyedStage_Inr [OF assms(1-4)] by auto
  have p: "names_inv (flush p)" "owners_inv i (flush p) env" "parts_inv f (flush p)"
    using assms(5) by (simp_all add: plan_inv_def flush_names flush_parts)
  have "owners_inv j (add_keyed ks (flush p)) env'"
    using owners_later [OF keyed_owners [OF p(2) k(6,5)] assms(6)] .
  then show ?thesis
    using keyed_names [OF p(1) k(2)] keyed_parts [OF p(3) k(3,4)] k(1) by (simp add: plan_inv_def)
qed

lemma stateful_split: "map fst ops = takeStateful (map fst ops) @ map fst (drop (length (takeStateful (map fst ops))) ops)"
  unfolding takeStateful_def by (metis append_eq_conv_conj drop_map takeWhile_dropWhile_id)

lemma plan_loop_inv:
  assumes "plan_loop h i ops p env = (Inr p', env')" "engine_like f h" "plan_inv f i p env"
  shows "planned p' = planned p @ map fst ops \<and> (\<exists>i'. plan_inv f i' p' env')"
  using assms
proof (induction h i ops p env rule: plan_loop.induct)
  case (1 h i p env)
  then show ?case by auto
next
  case (2 h i kb kl label ops p env)
  let ?st = "takeStateful (map fst ops)"
  obtain ks env1 where pos: "0 < Partitions kb"
    and n: "NewKeyedStage h (''keyed-'' @ nat_text (keyedCount (flush p))) kb kl ?st env = (Inr ks, env1)"
    and l: "plan_loop h (i + length ?st + 1) (drop (length ?st) ops) (add_keyed ks (flush p)) env1 = (Inr p', env')"
    using "2.prems"(1) by (auto simp: Let_def split: if_splits prod.splits sum.splits)
  have s: "plan_inv f (i + length ?st + 1) (add_keyed ks (flush p)) env1"
    "planned (add_keyed ks (flush p)) = planned p @ KeyByOp kb kl # ?st"
    using plan_keyed_step [OF n "2.prems"(2) pos takeStateful_Cloneable "2.prems"(3)] by auto
  have "\<not> Partitions kb \<le> 0" using pos by simp
  from "2.IH" [OF this refl refl refl n [symmetric] refl l "2.prems"(2) s(1)] show ?case
    using s(2) stateful_split [of ops] by simp
next
  case (3 h i f' par ol label ops p env)
  have "plan_inv f (i + 1) (add_stateless (StatelessOperator f' par ol) (Parallelism par) label p) env"
    using "3.prems"(3) by (auto simp: plan_inv_def stateless_names stateless_parts owners_inv_def)
  from "3.IH" [OF _ "3.prems"(2) this] "3.prems"(1) show ?case by simp
next
  case (4 h i a idle red ol label ops p env)
  obtain inst env1 where e: "equip h (''op-'' @ nat_text i) (WindowOp a idle red ol) env = (Inr inst, env1)"
    and l: "plan_loop h (i + 1) ops (add_channel inst label (flush p)) env1 = (Inr p', env')"
    using "4.prems"(1) by (auto split: prod.splits sum.splits)
  note s = plan_channel_step [OF e _ "4.prems"(2,3)]
  from "4.IH" [OF e [symmetric] refl l "4.prems"(2)] s show ?case by simp
next
  case (5 h i fn ol label ops p env)
  obtain inst env1 where e: "equip h (''op-'' @ nat_text i) (ReduceOp fn ol) env = (Inr inst, env1)"
    and l: "plan_loop h (i + 1) ops (add_channel inst label (flush p)) env1 = (Inr p', env')"
    using "5.prems"(1) by (auto split: prod.splits sum.splits)
  note s = plan_channel_step [OF e _ "5.prems"(2,3)]
  from "5.IH" [OF e [symmetric] refl l "5.prems"(2)] s show ?case by simp
qed

subsection \<open>Planning succeeds\<close>

fun plannable :: "Operator \<Rightarrow> bool" where
  "plannable (KeyByOp kb label) \<longleftrightarrow> 0 < Partitions kb"
| "plannable op \<longleftrightarrow> True"

definition all_open :: "BackendFactory option \<Rightarrow> (bytes \<Rightarrow> bool) \<Rightarrow> bool" where
  "all_open f opens_dir \<longleftrightarrow> (case f of Some (Pebble dir) \<Rightarrow> (\<forall>owner. opens_dir (Join dir owner)) | _ \<Rightarrow> True)"

lemma equip_succeeds:
  assumes "engine_like f h" "all_open f (opens env)" "Cloneable op"
  shows "\<exists>i env'. equip h owner op env = (Inr i, env') \<and> opens env' = opens env"
proof -
  have "\<exists>i env'. equip h owner op env = (Inr i, env')"
  proof (cases f)
    case None
    then show ?thesis using assms by (simp add: equip_def assignBackend_def engine_like_def fresh_instance_def)
  next
    case (Some g)
    then show ?thesis
      using assms by (cases g) (simp_all add: equip_def assignBackend_def engine_like_def fresh_instance_def
          backendFor_def all_open_def)
  qed
  then show ?thesis using equip_Inr(5) [OF _ assms(1,3)] by blast
qed

lemma clone_chain_succeeds:
  assumes "engine_like f h" "all_open f (opens env)" "list_all Cloneable ops"
  shows "\<exists>chain env'. clone_chain h ops env = (Inr chain, env') \<and> opens env' = opens env"
  using assms
proof (induction ops arbitrary: env)
  case (Cons op ops)
  have on: "OnClone h = Some OnClone_engine" using Cons.prems(1) by (simp add: engine_like_def)
  let ?env1 = "snd (OnClone_engine op env)"
  have o1: "opens ?env1 = opens env" by (simp add: OnClone_engine_def Let_def)
  have "\<exists>i env2. equip h (''worker-'' @ int_text (fst (OnClone_engine op env))) op ?env1 = (Inr i, env2) \<and> opens env2 = opens ?env1"
    using Cons.prems o1 by (intro equip_succeeds) simp_all
  then obtain i env2 where e: "equip h (''worker-'' @ int_text (fst (OnClone_engine op env))) op ?env1 = (Inr i, env2)"
    "opens env2 = opens env" using o1 by auto
  moreover obtain chain env3 where "clone_chain h ops env2 = (Inr chain, env3)" "opens env3 = opens env"
    using Cons.IH [of env2] Cons.prems e(2) by auto
  moreover have "0 \<le> fst (OnClone_engine op env)" by (simp add: OnClone_engine_def Let_def)
  ultimately show ?case using on by (simp add: case_prod_beta)
qed simp

lemma clone_workers_succeeds:
  assumes "engine_like f h" "all_open f (opens env)" "list_all Cloneable ops"
  shows "\<exists>workers env'. clone_workers h ops n env = (Inr workers, env') \<and> opens env' = opens env"
  using assms
proof (induction n arbitrary: env)
  case (Suc n)
  obtain chain env1 where "clone_chain h ops env = (Inr chain, env1)" "opens env1 = opens env"
    using clone_chain_succeeds [OF Suc.prems] by auto
  moreover obtain workers env2 where "clone_workers h ops n env1 = (Inr workers, env2)" "opens env2 = opens env"
    using Suc.IH [of env1] Suc.prems calculation(2) by auto
  ultimately show ?case by simp
qed simp

lemma plan_loop_succeeds:
  fixes p :: "('src, 'snk) plan_state"
  assumes "engine_like f h" "all_open f (opens env)" "list_all plannable (map fst ops)"
  shows "\<exists>p' env'. plan_loop h i ops p env = (Inr p', env')"
  using assms
proof (induction h i ops p env rule: plan_loop.induct)
  case (2 h i kb kl label ops p env)
  let ?st = "takeStateful (map fst ops)"
  have pos: "\<not> Partitions kb \<le> 0" using "2.prems"(3) by simp
  obtain workers env1 where c: "clone_workers h ?st (nat (Partitions kb)) env = (Inr workers, env1)" "opens env1 = opens env"
    using clone_workers_succeeds [OF "2.prems"(1,2) takeStateful_Cloneable] by blast
  define nm where "nm = ''keyed-'' @ nat_text (keyedCount (flush p))"
  have n: "NewKeyedStage h nm kb kl ?st env = (Inr (KeyedStage nm kb kl workers :: ('src, 'snk) Stage), env1)"
    using c by (simp add: NewKeyedStage_def)
  have "list_all plannable (map fst (drop (length ?st) ops))"
    using "2.prems"(3) by (auto simp: list_all_iff dest: in_set_dropD)
  then have "\<exists>p' env'. plan_loop h (i + length ?st + 1) (drop (length ?st) ops)
      (add_keyed (KeyedStage nm kb kl workers) (flush p)) env1 = (Inr p', env')"
    using "2.IH" [OF pos refl refl refl n [unfolded nm_def, symmetric] refl "2.prems"(1)] c(2) "2.prems"(2)
    by (simp add: nm_def)
  then show ?case using pos n by (simp add: Let_def nm_def)
next
  case (4 h i a idle red ol label ops p env)
  obtain inst env1 where e: "equip h (''op-'' @ nat_text i) (WindowOp a idle red ol) env = (Inr inst, env1)" "opens env1 = opens env"
    using equip_succeeds [OF "4.prems"(1,2), of "WindowOp a idle red ol" "''op-'' @ nat_text i"] by auto
  with "4.IH" [OF e(1) [symmetric] refl "4.prems"(1)] "4.prems"(2,3) show ?case by simp
next
  case (5 h i fn ol label ops p env)
  obtain inst env1 where e: "equip h (''op-'' @ nat_text i) (ReduceOp fn ol) env = (Inr inst, env1)" "opens env1 = opens env"
    using equip_succeeds [OF "5.prems"(1,2), of "ReduceOp fn ol" "''op-'' @ nat_text i"] by auto
  with "5.IH" [OF e(1) [symmetric] refl "5.prems"(1)] "5.prems"(2,3) show ?case by simp
qed simp_all

lemma engine_hooks_like: "engine_like (stateFactory env) (engine_hooks env)"
  by (simp add: engine_like_def engine_hooks_def)

lemma length_operatorLabels [simp]: "length (operatorLabels env) = length (env_operators env)"
  by (simp add: operatorLabels_def)

lemma plan_of_succeeds:
  assumes "env_source env \<noteq> None" "env_sink env \<noteq> None" "list_all plannable (env_operators env)"
    "all_open (stateFactory env) opens_dir"
  shows "\<exists>sts pe. plan_of opens_dir env = (Inr sts, pe)"
proof -
  obtain src snk where e: "env_source env = Some src" "env_sink env = Some snk" using assms(1,2) by auto
  have "\<exists>p' pe. plan_loop (engine_hooks env) 0 (zip (env_operators env) (operatorLabels env)) p
      \<lparr> workerOps = [], stateClosers = [], opens = opens_dir \<rparr> = (Inr p', pe)" for p :: "('a, 'b) plan_state"
    using assms(3,4) by (intro plan_loop_succeeds [OF engine_hooks_like]) simp_all
  from this [of "\<lparr> stages = [SourceStage src (shutdownTimeout env)], group = [], groupLabels = [], groupPar = 1,
      statelessCount = 0, keyedCount = 0, channelCount = 0 \<rparr>"]
  show ?thesis by (auto simp: plan_of_def BuildPlan_def e)
qed

subsection \<open>The plan\<close>

lemma segment_ids: "segment (worker_id j)" "segment (op_id j)"
proof -
  have "CHR ''/'' \<notin> set (nat_text j)"
    using nat_text_digits [of "CHR ''/''" j] by (auto simp: digit_val_def Let_def)
  then show "segment (worker_id j)" "segment (op_id j)" by (simp_all add: segment_def worker_id_def op_id_def)
qed

lemma owners_segments:
  assumes "owners_inv i p env" "x \<in> set (instances p)" "inst_owner x = Some w"
  shows "segment w"
proof -
  have "(\<exists>j < length (workerOps env). inst_owner x = Some (worker_id j)) \<or> (\<exists>j < i. inst_owner x = Some (op_id j))"
    using assms(1,2) by (auto simp: owners_inv_def)
  then show ?thesis using assms(3) segment_ids by auto
qed

lemma distinct_backends:
  assumes "distinct (map inst_owner is)" "\<forall>x \<in> set is. \<forall>w. inst_owner x = Some w \<longrightarrow> segment w"
    "list_all (backed (Some (Pebble dir))) is"
  shows "distinct (map inst_backend is)"
proof -
  have b: "\<exists>w. inst_owner x = Some w \<and> segment w \<and> inst_backend x = DiskBackend (Join dir w)" if "x \<in> set is" for x
    using assms(2,3) that by (fastforce simp: list_all_iff backed_def)
  have o: "inst_owner x = inst_owner y" if xy: "x \<in> set is" "y \<in> set is" "inst_backend x = inst_backend y" for x y
  proof -
    obtain v where v: "inst_owner x = Some v" "segment v" "inst_backend x = DiskBackend (Join dir v)"
      using b [OF xy(1)] by blast
    obtain w where w: "inst_owner y = Some w" "segment w" "inst_backend y = DiskBackend (Join dir w)"
      using b [OF xy(2)] by blast
    have "Join dir v = Join dir w" using v(3) w(3) xy(3) by simp
    then show ?thesis using Join_segment_inj [OF v(2) w(2)] v(1) w(1) by simp
  qed
  have "inj_on inst_backend (set is)"
  proof (rule inj_onI)
    fix x y assume xy: "x \<in> set is" "y \<in> set is" "inst_backend x = inst_backend y"
    have "inj_on inst_owner (set is)" using assms(1) by (simp add: distinct_map)
    from inj_onD [OF this o [OF xy] xy(1,2)] show "x = y" .
  qed
  then show ?thesis using assms(1) by (simp add: distinct_map)
qed

lemma plan_of_invariant:
  fixes env :: "('src, 'snk) StreamExecutionEnv"
  assumes "plan_of opens_dir env = (Inr sts, pe)"
  obtains p :: "('src, 'snk) plan_state" and i snk where "sts = stages p @ [SinkStage snk]" "group p = []"
    "planned p = env_operators env" "plan_inv (stateFactory env) i p pe"
proof -
  obtain src snk where e: "env_source env = Some src" "env_sink env = Some snk"
    using assms by (auto simp: plan_of_def BuildPlan_def split: option.splits)
  define p0 :: "('src, 'snk) plan_state" where
    "p0 = \<lparr> stages = [SourceStage src (shutdownTimeout env)], group = [], groupLabels = [], groupPar = 1,
      statelessCount = 0, keyedCount = 0, channelCount = 0 \<rparr>"
  obtain p where l: "plan_loop (engine_hooks env) 0 (zip (env_operators env) (operatorLabels env)) p0
      \<lparr> workerOps = [], stateClosers = [], opens = opens_dir \<rparr> = (Inr p, pe)"
    and s: "sts = stages (flush p) @ [SinkStage snk]"
    using assms e by (auto simp: plan_of_def BuildPlan_def p0_def split: prod.splits sum.splits)
  have i0: "plan_inv (stateFactory env) 0 p0 \<lparr> workerOps = [], stateClosers = [], opens = opens_dir \<rparr>"
    by (simp add: plan_inv_def names_inv_def name_ok_def owners_inv_def parts_inv_def instances_def p0_def)
  obtain i where "planned p = env_operators env" "plan_inv (stateFactory env) i p pe"
    using plan_loop_inv [OF l engine_hooks_like i0] by (auto simp: p0_def planned_def)
  then have "planned (flush p) = env_operators env" "plan_inv (stateFactory env) i (flush p) pe"
    by (simp_all add: plan_inv_def flush_names flush_parts)
  then show thesis using that s by simp
qed


definition two_stage_env :: "(unit, unit) StreamExecutionEnv" where
  "two_stage_env = ToSink () (Stream_Reduce (\<lambda>acc r. Value r) [] (Stream_Window (Tumbling 5 0) [] (WithPartitions 2
     (Stream_KeyBy Key [''by-key''] (Stream_Filter (\<lambda>r. True) [] (FromSource () (WithStateBackend (Pebble ''state'') NewEnv)))))))"


end
