(* ===== verification/Spec2Isabelle.thy ===== *)
theory Spec2Isabelle
  imports Window_Proofs State_Pebble Pipeline_Stages Kafka_Txn_Sink Watermark_Source Job_Control_Proofs Source_Resume
    Plan_Proofs
begin

text \<open>
  A verification library for the Weibo stream engine, a Go library and control plane for keyed, windowed
  stream processing with checkpoints. Paths below are relative to the root of the repository.

  \<^bold>\<open>The program.\<close> A pipeline is built with the fluent interface of \<open>stream.go\<close> on an environment
  (\<open>mailer.go\<close>). \<open>Execute\<close> plans it into stages (\<open>pipeline/planner.go\<close>), connects them by bounded channels and
  runs them: a source reads records (\<open>source\<close>), stateless operators transform them, a keyed stage routes
  each record by the hash of its key to a worker with its own clones of the window and reduce
  operators (\<open>operator\<close>, \<open>window\<close>), whose state is in memory or in a Pebble database (\<open>state\<close>), and a sink takes
  the output (\<open>sink\<close>). Behind the source the engine injects barriers; each operator snapshots its state
  when a barrier passes, and when the barrier arrives at the sink the checkpoint is stored
  (\<open>checkpoint\<close>). With a transactional sink the coordinator runs a two-phase protocol, and recovery
  decides which checkpoint to resume from. Watermarks (\<open>watermark\<close>) travel in the stream and close windows. A
  control plane (\<open>control\<close>) starts such pipelines as containers, restarts and cancels them.

  \<^bold>\<open>Conventions of the model.\<close> Byte slices and strings are \<^typ>\<open>string\<close>; a \<open>time.Time\<close> is its
  distance from the Unix epoch in nanoseconds, a \<open>time.Duration\<close> an integer; \<open>i64\<close> wraps to 64 bits where the
  code can overflow. Structs are records, enumerations datatypes, errors values of a sum or option type,
  and \<open>None\<close> stands for a call that panics or does not return where the definition says so. A Go map
  is an association list without repeated keys, and the order in which \<open>range\<close> visits it is an argument of
  type \<open>range_ord\<close>, over which the theorems quantify. System calls, SQL statements and checks of a context
  take their outcome from a list; the empty list means that all succeed, and a theorem over all lists covers
  every failure and every crash between two calls. A channel that is read to its end is the list of
  its records; goroutines that interleave are inductive step relations or functions of the events in the
  order the scheduler picked them. Locks are not modelled: an operation under a lock is one step.

  \<^bold>\<open>Foundations.\<close> \<open>Weibo_Prelude\<close>: machine integers, Go maps, shared list facts. \<open>Go_Time\<close>: instants and the RFC
  3339 text with its round trip. \<open>Go_Text\<close>: decimal text. \<open>Go_Binary\<close>: big-endian integers and the order of keys.
  \<open>Go_Json\<close>: the JSON text of offset maps and its reader. \<open>Go_Path\<close>: \<open>filepath.Join\<close> and the normal form of
  paths. \<open>Stream_Record\<close>: \<open>types/record.go\<close> and what JSON does to keys that are not UTF-8.

  \<^bold>\<open>Operators and state.\<close> \<open>Window_Assign\<close> models the package \<open>window\<close>: the assigners yield exactly the windows of the
  grid that contain a timestamp, and both loops of the sliding one end. \<open>State_Backend\<close> has the
  interfaces of \<open>state/state.go\<close>, the locales \<open>value_state\<close>, \<open>list_state\<close> and \<open>list_state_total\<close> that state their
  contract, and \<open>state/memory.go\<close> as an interpretation. \<open>State_Pebble\<close> models \<open>state/pebble.go\<close> on a parameter for
  the key-value store: it keeps the same contracts under the stated limits, with the cases where it
  does not. \<open>Operators\<close> has the stateless operators and \<open>KeyBy\<close>. \<open>Reduce_Op\<close> models \<open>operator/reduce.go\<close> on any
  backend and refines it to a map of accumulators: running folds, eviction of closed windows, snapshots.
  \<open>Window_Op\<close> and \<open>Window_Proofs\<close> model \<open>operator/window.go\<close>: every accepted record is emitted once per window
  it belongs to, tumbling and sliding windows fire once, sessions stay disjoint, and a restored
  snapshot resumes.

  \<^bold>\<open>Pipelines.\<close> \<open>Pipeline_Stages\<close> models the stateless stage, the router and the aligned merge
  (\<open>pipeline/stateless_stage.go\<close>, \<open>keyed_stage.go\<close>, \<open>markers.go\<close>): fusing operators and running workers in parallel
  change nothing but the order between markers, no record overtakes a marker, and the merge always ends.
  \<open>Stage_Plan\<close> and \<open>Plan_Proofs\<close> model the builder and the planner: the plan runs every operator once, and
  every stateful instance owns its state. \<open>Watermark_Source\<close> models the watermark generators and joins
  them with the window operator: disorder within the bound loses no record.

  \<^bold>\<open>Checkpoints.\<close> \<open>Checkpoint_Store\<close> models \<open>checkpoint/checkpoint.go\<close>: a save is atomic at every failing
  system call. \<open>Checkpoint_Coord\<close> models \<open>checkpoint/coordinator.go\<close>. \<open>Exactly_Once\<close> adds the recovery
  decision of \<open>mailer.go\<close> behind the locale \<open>checkpointed_sink\<close>, and \<open>Kafka_Txn_Sink\<close> the transactional sink of
  \<open>sink/kafka_txn.go\<close>, which interprets it under the locale \<open>kafka_client\<close> for the client library: recovery
  resumes at the last checkpoint whose transaction committed, so that the committed output has no gap
  and no repetition. \<open>Barrier_Inject\<close> models the injection of barriers with the offsets they carry.
  \<open>Kafka_Source\<close> and \<open>Kafka_Source_Proofs\<close> model \<open>source/kafka.go\<close> and its parts; \<open>Source_Resume\<close> composes the
  source with the barriers: the records in front of a barrier and those of a source restored with its
  offsets are together an initial part of the log. The reader of the client library is a parameter
  with the hypothesis \<open>documented_reader\<close>.

  \<^bold>\<open>Control plane.\<close> \<open>Control_Store\<close> models the life cycle, the SQL store and the backend interface with its
  in-memory implementation (\<open>control/lifecycle\<close>, \<open>control/store\<close>, \<open>control/backend\<close>), \<open>Job_Control\<close> the controller and
  the reconciler, \<open>Job_Control_Inv\<close> their invariant through any history of operations, exits and
  restarts, and \<open>Job_Control_Proofs\<close> what follows: one running container per job, cancelled jobs stay
  stopped, restarts are bounded.

  \<^bold>\<open>Flaws.\<close> Some theorems, of the kind error, show behaviour that the comments of the code do not
  announce, each at a concrete input: offsets ignored in consumer-group mode, partitions missing from the offsets
  of a barrier, a sequence counter that restarts, keys that leak or get lost, an aborted interval, a
  stale pointer, run times compared as text, windows before the alignment offset.

  \<^bold>\<open>Bounds and termination.\<close> Loops that may not end are partial functions into \<open>option\<close>, and where the code
  relies on their end it is proved for all inputs in question. The reader of JSON members takes the length of
  the text as fuel, which is enough since each member consumes a character. The probe of the
  transactional sink stops by the end offset of its partition; the merge of worker streams decreases
  a measure. Calendar text round-trips for every instant of the 64-bit range.

  \<^bold>\<open>Not modelled.\<close> The run of \<open>Execute\<close> with its goroutines, shutdown timers and forced shutdown, and the
  collection and restoration of operator snapshots by the engine; metrics, logging, labels and dashboard
  descriptions; the batching sinks for Kafka, HTTP, Postgres and S3, the Docker and Kubernetes backends, the
  HTTP servers and the command-line tools, which are adapters to services and libraries outside the
  repository; savepoint archives and blob stores; the declarative workflow format with its JSON
  operators; authentication; examples.
\<close>

end
